(* ===== verification/JM_Prelude.thy ===== *)
theory JM_Prelude
  imports Main "HOL-Library.Word" "HOL-Library.AList"
begin

text \<open>
  What the theories of the development share: the names of the model's base types, the functions of
  third-party crates the sources call (the record \<open>externs\<close> and the laws \<open>externs_ok\<close>), results
  and state passing with errors, and the lemmas on association lists that model a Rust
  \<^verbatim>\<open>HashMap\<close> together with the order it is iterated in.
\<close>

section \<open>Base types\<close>

text \<open>
  A moment (\<^verbatim>\<open>DateTime<Utc>\<close>) is a number of nanoseconds, a signed difference of moments
  (\<^verbatim>\<open>chrono::Duration\<close>) likewise; a \<^verbatim>\<open>std::time::Duration\<close> is a non-negative number of
  nanoseconds. A \<^verbatim>\<open>Uuid\<close> is only compared and copied. The values of a job's metadata are only
  copied, so they are kept as text.
\<close>

type_synonym uuid = nat
type_synonym time = int
type_synonym delta = int
type_synonym duration = nat
type_synonym bytes = "8 word list"
type_synonym u32 = "32 word"
type_synonym u64 = "64 word"
type_synonym json_value = string

text \<open>Largest \<^verbatim>\<open>std::time::Duration\<close>: \<^verbatim>\<open>u64::MAX\<close> seconds and 999,999,999 nanoseconds.\<close>

definition std_duration_max :: duration where
  "std_duration_max = (2 ^ 64 - 1) * 10 ^ 9 + 999999999"

text \<open>\<^verbatim>\<open>Duration::checked_mul\<close> of the standard library.\<close>

definition duration_checked_mul :: "duration \<Rightarrow> nat \<Rightarrow> duration option" where
  "duration_checked_mul d n = (if d * n \<le> std_duration_max then Some (d * n) else None)"

definition millis :: "nat \<Rightarrow> duration" where
  "millis n = n * 10 ^ 6"

definition secs :: "nat \<Rightarrow> duration" where
  "secs n = n * 10 ^ 9"

section \<open>Functions of third-party crates\<close>

text \<open>
  The sources compute with moments through the \<^verbatim>\<open>chrono\<close> crate and print identifiers through the
  \<^verbatim>\<open>uuid\<close> crate. Neither is part of the repository, so what the sources call of them is a parameter
  of the model. \<open>externs_ok\<close> is what their documentation states: a checked addition gives the sum or
  nothing, a conversion of a standard duration gives the same length or nothing and accepts every
  shorter duration than one it accepts, a difference converts to a standard duration unless it is
  negative, and a number of whole milliseconds is read back as it was written.
\<close>

record externs =
  checked_add_signed :: "time \<Rightarrow> delta \<Rightarrow> time option"
  from_std :: "duration \<Rightarrow> delta option"
  to_std :: "delta \<Rightarrow> duration option"
  num_milliseconds :: "delta \<Rightarrow> int"
  milliseconds :: "int \<Rightarrow> delta"
  show_uuid :: "uuid \<Rightarrow> string"
  show_time :: "time \<Rightarrow> string"

definition externs_ok :: "externs \<Rightarrow> bool" where
  "externs_ok x \<longleftrightarrow>
     (\<forall>t d u. checked_add_signed x t d = Some u \<longrightarrow> u = t + d) \<and>
     (\<forall>d e. from_std x d = Some e \<longrightarrow> e = int d) \<and>
     (\<forall>d d'. d \<le> d' \<longrightarrow> from_std x d' \<noteq> None \<longrightarrow> from_std x d \<noteq> None) \<and>
     (\<forall>d. to_std x d = (if d < 0 then None else Some (nat d))) \<and>
     (\<forall>m. num_milliseconds x (milliseconds x m) = m)"

lemma checked_add_signedD:
  "externs_ok x \<Longrightarrow> checked_add_signed x t d = Some u \<Longrightarrow> u = t + d"
  by (simp add: externs_ok_def)

lemma from_stdD: "externs_ok x \<Longrightarrow> from_std x d = Some e \<Longrightarrow> e = int d"
  by (simp add: externs_ok_def)

lemma from_std_shorter:
  "externs_ok x \<Longrightarrow> d \<le> d' \<Longrightarrow> from_std x d' \<noteq> None \<Longrightarrow> from_std x d \<noteq> None"
  unfolding externs_ok_def by blast

lemma to_std_eq: "externs_ok x \<Longrightarrow> to_std x d = (if d < 0 then None else Some (nat d))"
  by (simp add: externs_ok_def)

lemma num_milliseconds_milliseconds: "externs_ok x \<Longrightarrow> num_milliseconds x (milliseconds x m) = m"
  by (simp add: externs_ok_def)

text \<open>
  An instance for evaluation: dates up to a bound, durations up to the range of a signed 64-bit
  number of milliseconds.
\<close>

definition show_digit :: "nat \<Rightarrow> char" where
  "show_digit d = char_of (48 + d)"

fun show_nat :: "nat \<Rightarrow> string" where
  "show_nat n = (if n < 10 then [show_digit n] else show_nat (n div 10) @ [show_digit (n mod 10)])"

declare show_nat.simps [simp del]

definition show_int :: "int \<Rightarrow> string" where
  "show_int i = (if i < 0 then CHR ''-'' # show_nat (nat (- i)) else show_nat (nat i))"

text \<open>Reading a decimal number back.\<close>

definition digit_value :: "char \<Rightarrow> nat" where
  "digit_value c = of_char c - 48"

definition is_digit :: "char \<Rightarrow> bool" where
  "is_digit c \<longleftrightarrow> 48 \<le> (of_char c :: nat) \<and> (of_char c :: nat) \<le> 57"

definition decimal_value :: "string \<Rightarrow> nat" where
  "decimal_value ds = fold (\<lambda>c n. 10 * n + digit_value c) ds 0"

lemma of_char_show_digit: "d < 10 \<Longrightarrow> (of_char (show_digit d) :: nat) = 48 + d"
  by (simp add: show_digit_def)

lemma digit_value_show_digit [simp]: "d < 10 \<Longrightarrow> digit_value (show_digit d) = d"
  by (simp add: digit_value_def of_char_show_digit)

lemma is_digit_show_digit [simp]: "d < 10 \<Longrightarrow> is_digit (show_digit d)"
  by (simp add: is_digit_def of_char_show_digit)

lemma decimal_value_snoc: "decimal_value (ds @ [c]) = 10 * decimal_value ds + digit_value c"
  by (simp add: decimal_value_def)

lemma decimal_value_show_nat [simp]: "decimal_value (show_nat n) = n"
proof (induction n rule: show_nat.induct)
  case (1 n)
  show ?case
  proof (cases "n < 10")
    case True
    then show ?thesis by (subst show_nat.simps) (simp add: decimal_value_def)
  next
    case False
    then have "decimal_value (show_nat n) = 10 * decimal_value (show_nat (n div 10)) + n mod 10"
      by (subst show_nat.simps) (simp add: decimal_value_snoc)
    with 1 False show ?thesis by simp
  qed
qed

lemma show_nat_digits: "\<forall>c \<in> set (show_nat n). is_digit c"
proof (induction n rule: show_nat.induct)
  case (1 n)
  then show ?case by (subst show_nat.simps) auto
qed

lemma show_nat_not_Nil [simp]: "show_nat n \<noteq> []"
  by (subst show_nat.simps) simp

lemma show_nat_inject [simp]: "show_nat m = show_nat n \<longleftrightarrow> m = n"
  by (metis decimal_value_show_nat)

definition date_limit :: time where
  "date_limit = 8 * 10 ^ 21"

definition std_externs :: externs where
  "std_externs =
     \<lparr>checked_add_signed = (\<lambda>t d. if t + d \<le> date_limit then Some (t + d) else None),
      from_std = (\<lambda>d. if d \<le> (2 ^ 63 - 1) * 10 ^ 6 then Some (int d) else None),
      to_std = (\<lambda>d. if d < 0 then None else Some (nat d)),
      num_milliseconds = (\<lambda>d. if d < 0 then - ((- d) div 10 ^ 6) else d div 10 ^ 6),
      milliseconds = (\<lambda>m. m * 10 ^ 6),
      show_uuid = show_nat,
      show_time = show_int\<rparr>"

lemma std_externs_ok: "externs_ok std_externs"
  unfolding externs_ok_def std_externs_def by (auto split: if_splits)

section \<open>Results, and state passing with errors\<close>

text \<open>
  \<^verbatim>\<open>Result<T, E>\<close> is \<open>'e + 'a\<close> with \<open>Inl\<close> for \<^verbatim>\<open>Err\<close>. A method on \<^verbatim>\<open>&mut self\<close> that can fail returns
  the state it leaves together with its result, because Rust keeps what was written before the
  error: \<open>'s \<Rightarrow> 's \<times> ('e + 'a)\<close>. \<open>bindR\<close> and \<open>bindS\<close> are the \<^verbatim>\<open>?\<close> operator on the two.
\<close>

type_synonym ('s, 'e, 'a) sresult = "'s \<Rightarrow> 's \<times> ('e + 'a)"

fun bindR :: "'e + 'a \<Rightarrow> ('a \<Rightarrow> 'e + 'b) \<Rightarrow> 'e + 'b" where
  "bindR (Inl e) f = Inl e"
| "bindR (Inr a) f = f a"

fun map_err :: "('e \<Rightarrow> 'f) \<Rightarrow> 'e + 'a \<Rightarrow> 'f + 'a" where
  "map_err g (Inl e) = Inl (g e)"
| "map_err g (Inr a) = Inr a"

fun is_ok :: "'e + 'a \<Rightarrow> bool" where
  "is_ok (Inl e) = False"
| "is_ok (Inr a) = True"

definition bindS :: "('s, 'e, 'a) sresult \<Rightarrow> ('a \<Rightarrow> ('s, 'e, 'b) sresult) \<Rightarrow> ('s, 'e, 'b) sresult" where
  "bindS m f s = (case m s of (s', Inl e) \<Rightarrow> (s', Inl e) | (s', Inr a) \<Rightarrow> f a s')"

definition returnS :: "'a \<Rightarrow> ('s, 'e, 'a) sresult" where
  "returnS a s = (s, Inr a)"

definition throwS :: "'e \<Rightarrow> ('s, 'e, 'a) sresult" where
  "throwS e s = (s, Inl e)"

definition modifyS :: "('s \<Rightarrow> 's) \<Rightarrow> ('s, 'e, unit) sresult" where
  "modifyS f s = (f s, Inr ())"

text \<open>\<open>forS f xs\<close> runs \<open>f\<close> over \<open>xs\<close> and stops at the first error, as a \<^verbatim>\<open>for\<close> loop with \<^verbatim>\<open>?\<close> does.\<close>

fun forS :: "('a \<Rightarrow> ('s, 'e, unit) sresult) \<Rightarrow> 'a list \<Rightarrow> ('s, 'e, unit) sresult" where
  "forS f [] s = (s, Inr ())"
| "forS f (x # xs) s = (case f x s of (s', Inl e) \<Rightarrow> (s', Inl e) | (s', Inr _) \<Rightarrow> forS f xs s')"

lemma bindR_Inr_iff [simp]: "bindR m f = Inr b \<longleftrightarrow> (\<exists>a. m = Inr a \<and> f a = Inr b)"
  by (cases m) auto

lemma bindR_Inl_iff: "bindR m f = Inl e \<longleftrightarrow> m = Inl e \<or> (\<exists>a. m = Inr a \<and> f a = Inl e)"
  by (cases m) auto

lemma map_err_Inr_iff [simp]: "map_err g m = Inr a \<longleftrightarrow> m = Inr a"
  by (cases m) auto

lemma is_ok_iff: "is_ok m \<longleftrightarrow> (\<exists>a. m = Inr a)"
  by (cases m) auto

text \<open>
  \<open>mapR f xs\<close> collects \<open>f\<close> over \<open>xs\<close> and stops at the first error; \<open>foldR\<close> threads an accumulator
  through a \<^verbatim>\<open>for\<close> loop with \<^verbatim>\<open>?\<close>.
\<close>

fun mapR :: "('a \<Rightarrow> 'e + 'b) \<Rightarrow> 'a list \<Rightarrow> 'e + 'b list" where
  "mapR f [] = Inr []"
| "mapR f (x # xs) = bindR (f x) (\<lambda>y. bindR (mapR f xs) (\<lambda>ys. Inr (y # ys)))"

fun foldR :: "('a \<Rightarrow> 's \<Rightarrow> 'e + 's) \<Rightarrow> 'a list \<Rightarrow> 's \<Rightarrow> 'e + 's" where
  "foldR f [] s = Inr s"
| "foldR f (x # xs) s = bindR (f x s) (foldR f xs)"

lemma mapR_Inr_iff: "mapR f xs = Inr ys \<longleftrightarrow> list_all2 (\<lambda>x y. f x = Inr y) xs ys"
  by (induction xs arbitrary: ys) (auto simp: list_all2_Cons1)

lemma mapR_ok_iff: "is_ok (mapR f xs) \<longleftrightarrow> (\<forall>x \<in> set xs. is_ok (f x))"
proof (induction xs)
  case Nil
  then show ?case by simp
next
  case (Cons x xs)
  then show ?case by (cases "f x"; cases "mapR f xs") auto
qed

lemma foldR_append: "foldR f (xs @ ys) s = bindR (foldR f xs s) (foldR f ys)"
proof (induction xs arbitrary: s)
  case Nil
  then show ?case by simp
next
  case (Cons x xs)
  then show ?case by (cases "f x s") auto
qed

lemma bindS_Inr_iff:
  "bindS m f s = (s', Inr b) \<longleftrightarrow> (\<exists>s1 a. m s = (s1, Inr a) \<and> f a s1 = (s', Inr b))"
  by (auto simp: bindS_def split: prod.splits sum.splits)

lemma returnS_iff [simp]: "returnS a s = (s', r) \<longleftrightarrow> s' = s \<and> r = Inr a"
  by (auto simp: returnS_def)

lemma throwS_iff [simp]: "throwS e s = (s', r) \<longleftrightarrow> s' = s \<and> r = Inl e"
  by (auto simp: throwS_def)

lemma forS_append:
  "forS f (xs @ ys) s = (case forS f xs s of (s', Inl e) \<Rightarrow> (s', Inl e) | (s', Inr _) \<Rightarrow> forS f ys s')"
  by (induction xs arbitrary: s) (auto split: prod.splits sum.splits)

text \<open>A property every step keeps is kept by the loop, whether it ends or stops at an error.\<close>

lemma forS_invariant:
  assumes "P s" and "\<And>x s. x \<in> set xs \<Longrightarrow> P s \<Longrightarrow> P (fst (f x s))"
  shows "P (fst (forS f xs s))"
  using assms
proof (induction xs arbitrary: s)
  case Nil
  then show ?case by simp
next
  case (Cons x xs)
  obtain s' r where step: "f x s = (s', r)" by fastforce
  with Cons.prems have "P s'" by (metis fst_conv list.set_intros(1))
  with Cons step show ?case by (cases r) auto
qed

section \<open>Association lists as hash maps\<close>

text \<open>
  A \<^verbatim>\<open>HashMap\<close> that is iterated is an association list with distinct keys: \<open>map_of\<close> is \<^verbatim>\<open>get\<close>,
  \<open>AList.update\<close> is \<^verbatim>\<open>insert\<close>, and the list's own order is the order of one iteration, so a theorem
  about every such list is about every order the map can be visited in.
\<close>

lemma map_of_update [simp]: "map_of (AList.update k v xs) = (map_of xs)(k \<mapsto> v)"
  by (rule update_conv')

lemma distinct_keys_update [simp]:
  "distinct (map fst (AList.update k v xs)) = distinct (map fst xs)"
proof (induction xs)
  case Nil
  show ?case by simp
next
  case (Cons p xs)
  have "k \<noteq> fst p \<Longrightarrow> fst p \<in> fst ` set (AList.update k v xs) \<longleftrightarrow> fst p \<in> fst ` set xs"
    using dom_update [of k v xs] by (auto simp: dom_map_of_conv_image_fst [symmetric])
  with Cons show ?case by (cases p) auto
qed

lemma update_absent: "k \<notin> fst ` set xs \<Longrightarrow> AList.update k v xs = xs @ [(k, v)]"
  by (induction xs) auto

lemma keys_update_present:
  "k \<in> fst ` set xs \<Longrightarrow> map fst (AList.update k v xs) = map fst xs"
  by (induction xs) auto

lemma length_update_present:
  "k \<in> fst ` set xs \<Longrightarrow> length (AList.update k v xs) = length xs"
  by (metis keys_update_present length_map)

lemma in_set_iff_map_of:
  "distinct (map fst xs) \<Longrightarrow> (k, v) \<in> set xs \<longleftrightarrow> map_of xs k = Some v"
  by (simp add: map_of_eq_Some_iff)

lemma in_values_iff:
  "distinct (map fst xs) \<Longrightarrow> v \<in> snd ` set xs \<longleftrightarrow> (\<exists>k. map_of xs k = Some v)"
  by (force simp: map_of_eq_Some_iff)

lemma set_update_distinct:
  assumes "distinct (map fst xs)"
  shows "set (AList.update k v xs) = insert (k, v) {p \<in> set xs. fst p \<noteq> k}"
  using assms by (induction xs) (auto simp: image_iff)

lemma map_of_filter_distinct:
  assumes "distinct (map fst xs)"
  shows "map_of (filter (\<lambda>(k, v). P v) xs) k =
    (case map_of xs k of None \<Rightarrow> None | Some v \<Rightarrow> if P v then Some v else None)"
  using assms by (induction xs) (auto split: option.splits simp: map_of_eq_None_iff image_iff)

lemma distinct_map_filter: "distinct (map f xs) \<Longrightarrow> distinct (map f (filter P xs))"
  by (induction xs) auto

text \<open>How many entries of a map satisfy a property, and what an insert does to that number.\<close>

definition count_values :: "('v \<Rightarrow> bool) \<Rightarrow> ('k \<times> 'v) list \<Rightarrow> nat" where
  "count_values P xs = length (filter (\<lambda>(k, v). P v) xs)"

lemma count_values_update:
  assumes "map_of xs k = Some old"
  shows "count_values P (AList.update k v xs) + (if P old then 1 else 0) =
    count_values P xs + (if P v then 1 else 0)"
  using assms by (induction xs) (auto simp: count_values_def split: if_splits)

lemma find_Some_in: "find P xs = Some x \<Longrightarrow> P x \<and> x \<in> set xs"
  by (auto simp: find_Some_iff in_set_conv_nth)

end
