(* ===== verification/JM_Types.thy ===== *)
theory JM_Types
  imports JM_Prelude
begin

text \<open>
  The enumerations and small structures of \<^verbatim>\<open>core/task.rs\<close> and \<^verbatim>\<open>core/job.rs\<close>: the lifecycle states
  of a task and of a job iteration, how a refusal, a skip and a dependency are judged, and the
  status machine of an iteration with its transition check.
\<close>

section \<open>Task enumerations\<close>

datatype skip_cause = ExecutorDecision | FailedDependency | SkippedDependency

fun carries_failure :: "skip_cause \<Rightarrow> bool" where
  "carries_failure FailedDependency = True"
| "carries_failure ExecutorDecision = False"
| "carries_failure SkippedDependency = False"

fun skip_cause_as_str :: "skip_cause \<Rightarrow> string" where
  "skip_cause_as_str ExecutorDecision = ''executor decision''"
| "skip_cause_as_str FailedDependency = ''failed dependency''"
| "skip_cause_as_str SkippedDependency = ''skipped dependency''"

datatype task_status = Todo | Blocked | Started | Completed | Failed | Skipped skip_cause

fun task_status_display :: "task_status \<Rightarrow> string" where
  "task_status_display Todo = ''todo''"
| "task_status_display Blocked = ''blocked''"
| "task_status_display Started = ''started''"
| "task_status_display Completed = ''completed''"
| "task_status_display Failed = ''failed''"
| "task_status_display (Skipped cause) = ''skipped ('' @ skip_cause_as_str cause @ '')''"

datatype task_resolution = ResolvedCompleted | ResolvedFailed | ResolvedSkipped

fun task_resolution_as_str :: "task_resolution \<Rightarrow> string" where
  "task_resolution_as_str ResolvedCompleted = ''completed''"
| "task_resolution_as_str ResolvedFailed = ''failed''"
| "task_resolution_as_str ResolvedSkipped = ''skipped''"

datatype task_retry = WhileBudgetLasts | Never

definition task_retry_default :: task_retry where
  "task_retry_default = WhileBudgetLasts"

record dependency_tolerance =
  allows_failed :: bool
  allows_skipped :: bool

definition tolerance_default :: dependency_tolerance where
  "tolerance_default = \<lparr>allows_failed = False, allows_skipped = False\<rparr>"

definition is_declared :: "dependency_tolerance \<Rightarrow> bool" where
  "is_declared tol \<longleftrightarrow> allows_failed tol \<or> allows_skipped tol"

type_synonym job_definition_id = uuid

text \<open>A reference to a task: a position in a job description, or a task of the current iteration.\<close>

datatype task_ref = Initial job_definition_id nat | Created uuid

datatype dependency_verdict = VerdictUnblocked | VerdictBlocked | VerdictSkipped skip_cause

datatype task_availability = Pickable | AwaitingRetry time | ExpiredPastLifetime | Unavailable

section \<open>Job enumerations\<close>

datatype job_status = JobStarted | JobRunning | JobCompleted | JobFailed

fun job_status_display :: "job_status \<Rightarrow> string" where
  "job_status_display JobStarted = ''started''"
| "job_status_display JobRunning = ''running''"
| "job_status_display JobCompleted = ''completed''"
| "job_status_display JobFailed = ''failed''"

datatype iteration_verdict = IterationCompleted | IterationFailed

fun iteration_verdict_as_str :: "iteration_verdict \<Rightarrow> string" where
  "iteration_verdict_as_str IterationCompleted = ''completed''"
| "iteration_verdict_as_str IterationFailed = ''failed''"

fun job_status_of_verdict :: "iteration_verdict \<Rightarrow> job_status" where
  "job_status_of_verdict IterationCompleted = JobCompleted"
| "job_status_of_verdict IterationFailed = JobFailed"

datatype next_iteration_status = Ready | DueAt time | BudgetSpent | Unscheduled

datatype iteration_status = InProgress | Closed next_iteration_status

datatype task_pickup = PickReady uuid | PickWaiting "time option" | IterationSettled

record task_limits =
  max_input_bytes :: nat
  max_output_bytes :: nat

definition task_limits_default :: task_limits where
  "task_limits_default =
     \<lparr>max_input_bytes = 10 * 1024 * 1024, max_output_bytes = 10 * 1024 * 1024\<rparr>"

section \<open>Job errors and the status machine\<close>

text \<open>
  \<^verbatim>\<open>JobError\<close>. The message of \<open>JobOther\<close> is the fixed text of the source's message; the values the
  source interpolates into it are left out.
\<close>

datatype job_error =
    TaskNotFound
  | TaskWorkerMismatch
  | InvalidStatusTransition job_status job_status
  | IterationDeadlock string string
  | IterationAlreadySettled string
  | JobOther string

fun status_allows :: "job_status \<Rightarrow> job_status \<Rightarrow> bool" where
  "status_allows JobStarted new = (new = JobRunning \<or> new = JobFailed)"
| "status_allows JobRunning new = (new = JobRunning \<or> new = JobCompleted \<or> new = JobFailed)"
| "status_allows JobCompleted new = (new = JobStarted)"
| "status_allows JobFailed new = (new = JobStarted)"

definition can_transition_to :: "job_status \<Rightarrow> job_status \<Rightarrow> job_error + unit" where
  "can_transition_to s new =
     (if status_allows s new then Inr () else Inl (InvalidStatusTransition s new))"

definition transition_to :: "job_status \<Rightarrow> job_status \<Rightarrow> job_error + job_status" where
  "transition_to s new = bindR (can_transition_to s new) (\<lambda>_. Inr new)"

lemma transition_to_Inr_iff: "transition_to s new = Inr t \<longleftrightarrow> status_allows s new \<and> t = new"
  by (auto simp: transition_to_def can_transition_to_def)

lemma transition_to_Inl_iff:
  "transition_to s new = Inl e \<longleftrightarrow> \<not> status_allows s new \<and> e = InvalidStatusTransition s new"
  by (auto simp: transition_to_def can_transition_to_def)

text \<open>A status an iteration ended with, as opposed to one it is worked under.\<close>

fun is_closed_status :: "job_status \<Rightarrow> bool" where
  "is_closed_status JobCompleted = True"
| "is_closed_status JobFailed = True"
| "is_closed_status JobStarted = False"
| "is_closed_status JobRunning = False"

lemma closed_status_iff: "is_closed_status s \<longleftrightarrow> s = JobCompleted \<or> s = JobFailed"
  by (cases s) auto

lemma closed_of_verdict [simp]: "is_closed_status (job_status_of_verdict v)"
  by (cases v) auto

text \<open>
  The contract a lifecycle has towards whoever runs it: it starts open in one entry state, and a
  closed state is left only through that entry. What follows for every run is proved once.
\<close>

inductive run_of :: "('s \<Rightarrow> 's \<Rightarrow> bool) \<Rightarrow> 's \<Rightarrow> 's list \<Rightarrow> 's \<Rightarrow> bool" for allows where
  run_stop: "run_of allows s [s] s"
| run_step: "allows s t \<Longrightarrow> run_of allows t ts u \<Longrightarrow> run_of allows s (s # ts) u"

locale iteration_lifecycle =
  fixes allows :: "'s \<Rightarrow> 's \<Rightarrow> bool" and closed :: "'s \<Rightarrow> bool" and entry :: 's
  assumes entry_open: "\<not> closed entry"
    and closed_exit: "closed s \<Longrightarrow> allows s t \<Longrightarrow> t = entry"
begin

lemma closed_run_restarts:
  assumes "run_of allows s ts u" and "closed s" and "u \<noteq> s"
  shows "entry \<in> set (tl ts)"
  using assms(1)
proof cases
  case run_stop
  with assms(3) show ?thesis by simp
next
  case (run_step t us)
  with assms(2) have "t = entry" by (blast intro: closed_exit)
  moreover from run_step(3) have "t \<in> set us" by cases auto
  ultimately show ?thesis using run_step by simp
qed

lemma closed_not_absorbed: "closed s \<Longrightarrow> allows s t \<Longrightarrow> \<not> closed t"
  using closed_exit entry_open by blast

end

interpretation job_lifecycle: iteration_lifecycle status_allows is_closed_status JobStarted
proof unfold_locales
  show "\<not> is_closed_status JobStarted" by simp
  show "\<And>s t. is_closed_status s \<Longrightarrow> status_allows s t \<Longrightarrow> t = JobStarted"
    by (auto simp: closed_status_iff)
qed

end
