(* ===== verification/JM_Errors.thy ===== *)
theory JM_Errors
  imports JM_Types
begin

text \<open>
  The error types of the crate and the conversions between them: \<^verbatim>\<open>Error\<close>, \<^verbatim>\<open>InternalError\<close>
  (\<^verbatim>\<open>core/error.rs\<close>) and \<^verbatim>\<open>StorageError\<close> (\<^verbatim>\<open>storage/mod.rs\<close>), with the \<^verbatim>\<open>RetryError\<close> trait of
  \<^verbatim>\<open>infra/retrier.rs\<close> as an interface both retried error types implement.
\<close>

section \<open>Public, storage and internal errors\<close>

datatype error =
    ErrSerialization string
  | ErrCancelled
  | ErrTaskExecution string
  | ErrOther string

fun error_is_retryable :: "error \<Rightarrow> bool" where
  "error_is_retryable (ErrSerialization _) = False"
| "error_is_retryable ErrCancelled = False"
| "error_is_retryable (ErrTaskExecution _) = False"
| "error_is_retryable (ErrOther _) = False"

datatype storage_error =
    NotFound string
  | ConcurrentModification string
  | Serialization string
  | Backend string
  | Timeout
  | StorageCancelled
  | RateLimited
  | ServiceUnavailable
  | Auth string
  | AttemptsSpent storage_error
  | StorageOther string

fun is_retryable :: "storage_error \<Rightarrow> bool" where
  "is_retryable Timeout = True"
| "is_retryable RateLimited = True"
| "is_retryable ServiceUnavailable = True"
| "is_retryable _ = False"

fun is_conflict :: "storage_error \<Rightarrow> bool" where
  "is_conflict (ConcurrentModification _) = True"
| "is_conflict _ = False"

datatype internal_error =
    InternalStorage storage_error
  | InternalJob job_error
  | InternalCancelled
  | MaxAttemptsReached internal_error
  | InternalOther string

definition internal_of_job :: "job_error \<Rightarrow> internal_error" where
  "internal_of_job e = InternalJob e"

fun internal_of_storage :: "storage_error \<Rightarrow> internal_error" where
  "internal_of_storage StorageCancelled = InternalCancelled"
| "internal_of_storage e = InternalStorage e"

fun internal_of_error :: "error \<Rightarrow> internal_error" where
  "internal_of_error ErrCancelled = InternalCancelled"
| "internal_of_error (ErrSerialization e) = InternalOther e"
| "internal_of_error (ErrTaskExecution e) = InternalOther e"
| "internal_of_error (ErrOther msg) = InternalOther msg"

lemma internal_of_storage_cancelled_iff:
  "internal_of_storage e = InternalCancelled \<longleftrightarrow> e = StorageCancelled"
  by (cases e) auto

text \<open>The messages of the errors, as their \<^verbatim>\<open>Display\<close> derivations print them.\<close>

abbreviation quote :: string where
  "quote \<equiv> [char_of (39 :: nat)]"

fun job_error_display :: "job_error \<Rightarrow> string" where
  "job_error_display TaskNotFound = ''task not found''"
| "job_error_display TaskWorkerMismatch = ''task worker mismatch''"
| "job_error_display (InvalidStatusTransition a b) =
     ''invalid job status transition from '' @ job_status_display a @ '' to '' @ job_status_display b"
| "job_error_display (IterationDeadlock code tasks) =
     ''job '' @ quote @ code @ quote @ '' iteration cannot progress: blocked tasks with unmet dependencies ('' @ tasks @ '')''"
| "job_error_display (IterationAlreadySettled code) = ''job '' @ quote @ code @ quote @ '' iteration is already settled''"
| "job_error_display (JobOther msg) = msg"

fun storage_error_display :: "storage_error \<Rightarrow> string" where
  "storage_error_display (NotFound m) = ''job not found: '' @ m"
| "storage_error_display (ConcurrentModification m) = ''concurrent modification detected: '' @ m"
| "storage_error_display (Serialization m) = ''serialization error: '' @ m"
| "storage_error_display (Backend m) = ''storage backend error: '' @ m"
| "storage_error_display Timeout = ''timeout''"
| "storage_error_display StorageCancelled = ''operation cancelled''"
| "storage_error_display RateLimited = ''rate limited''"
| "storage_error_display ServiceUnavailable = ''service unavailable''"
| "storage_error_display (Auth m) = ''auth error: '' @ m"
| "storage_error_display (AttemptsSpent e) = ''retry attempts spent: '' @ storage_error_display e"
| "storage_error_display (StorageOther m) = m"

fun error_display :: "error \<Rightarrow> string" where
  "error_display (ErrSerialization m) = m"
| "error_display ErrCancelled = ''operation cancelled''"
| "error_display (ErrTaskExecution m) = m"
| "error_display (ErrOther m) = m"

fun internal_error_display :: "internal_error \<Rightarrow> string" where
  "internal_error_display (InternalStorage e) = storage_error_display e"
| "internal_error_display (InternalJob e) = job_error_display e"
| "internal_error_display InternalCancelled = ''operation cancelled''"
| "internal_error_display (MaxAttemptsReached e) = ''max retry attempts reached: '' @ internal_error_display e"
| "internal_error_display (InternalOther m) = m"

section \<open>The interface of an error a retry loop can return\<close>

text \<open>
  \<^verbatim>\<open>RetryError\<close>: what a retry loop reports when its token is cancelled and when its attempts are
  spent. The loop's callers tell a cancellation apart from a failure, and recover the cause of the
  last attempt from the second, so an implementation keeps the two apart and loses no cause.
\<close>

datatype ('a, 'e) retry_step = Done 'a | Retry 'e

fun into_retry_step :: "storage_error \<Rightarrow> storage_error + ('a, storage_error) retry_step" where
  "into_retry_step e = (if is_retryable e then Inr (Retry e) else Inl e)"

record 'e retry_error =
  from_cancellation :: 'e
  from_spent_attempts :: "'e \<Rightarrow> 'e"

definition storage_retry_error :: "storage_error retry_error" where
  "storage_retry_error = \<lparr>from_cancellation = StorageCancelled, from_spent_attempts = AttemptsSpent\<rparr>"

definition internal_retry_error :: "internal_error retry_error" where
  "internal_retry_error =
     \<lparr>from_cancellation = InternalCancelled, from_spent_attempts = MaxAttemptsReached\<rparr>"

end
