(* ===== verification/JM_Retrier.thy ===== *)
theory JM_Retrier
  imports JM_Errors
begin

text \<open>
  \<^verbatim>\<open>infra/retrier.rs\<close>: the bounded retry loop every storage operation goes through, its backoff, and
  the contract of the error type it is generic in.
\<close>

section \<open>Configuration and backoff\<close>

record retrier_config =
  max_attempts_cfg :: nat
  rand_delay :: duration
  delays :: "duration list"

definition retrier_config_default :: retrier_config where
  "retrier_config_default =
     \<lparr>max_attempts_cfg = 20, rand_delay = millis 50,
      delays = [millis 50, millis 50, millis 50, millis 100, millis 300, millis 500,
                secs 1, secs 5, secs 10, secs 60]\<rparr>"

text \<open>
  \<open>draw n\<close> stands for one call of \<^verbatim>\<open>rand::rng().random_range(0..n)\<close>, whose documented range is
  \<open>draw_ok\<close>.
\<close>

definition draw_ok :: "(nat \<Rightarrow> nat) \<Rightarrow> bool" where
  "draw_ok draw \<longleftrightarrow> (\<forall>n > 0. draw n < n)"

definition base_delay :: "retrier_config \<Rightarrow> nat \<Rightarrow> duration" where
  "base_delay cfg attempt =
     (if attempt < length (delays cfg) then delays cfg ! attempt
      else if delays cfg = [] then millis 200 else last (delays cfg))"

definition calculate_delay :: "(nat \<Rightarrow> nat) \<Rightarrow> retrier_config \<Rightarrow> nat \<Rightarrow> duration" where
  "calculate_delay draw cfg attempt =
     (let max_jitter = min (rand_delay cfg div 10 ^ 6) (2 ^ 64 - 1);
          jitter_ms = (if max_jitter = 0 then 0 else draw max_jitter)
      in base_delay cfg attempt + millis jitter_ms)"

section \<open>The loop\<close>

text \<open>
  The loop races every attempt and every pause against the cancellation token. Which of the two
  wins is not decided by the code, so it is an input: \<open>cancelled_call i\<close> and \<open>cancelled_sleep i\<close>
  say whether the race around attempt \<open>i\<close> and around the pause before it is lost to the token, and
  \<open>abandoned i\<close> is what the dropped attempt left of the state it was working on.
\<close>

record 's cancellation =
  cancelled_call :: "nat \<Rightarrow> bool"
  cancelled_sleep :: "nat \<Rightarrow> bool"
  abandoned :: "nat \<Rightarrow> 's \<Rightarrow> 's"

function retry_from ::
  "'e retry_error \<Rightarrow> retrier_config \<Rightarrow> 's cancellation \<Rightarrow>
   ('s, 'e, ('a, 'e) retry_step) sresult \<Rightarrow> nat \<Rightarrow> 's \<Rightarrow> 's \<times> ('e + 'a)" where
  "retry_from re cfg cn handler attempt s =
     (if cancelled_call cn attempt then (abandoned cn attempt s, Inl (from_cancellation re))
      else case handler s of
        (s', Inl e) \<Rightarrow> (s', Inl e)
      | (s', Inr (Done v)) \<Rightarrow> (s', Inr v)
      | (s', Inr (Retry cause)) \<Rightarrow>
          if attempt + 1 \<ge> max_attempts_cfg cfg then (s', Inl (from_spent_attempts re cause))
          else if cancelled_sleep cn (attempt + 1) then (s', Inl (from_cancellation re))
          else retry_from re cfg cn handler (attempt + 1) s')"
  by pat_completeness auto
termination
  by (relation "measure (\<lambda>(re, cfg, cn, handler, attempt, s). max_attempts_cfg cfg - attempt)") auto

declare retry_from.simps [simp del]

definition retry ::
  "'e retry_error \<Rightarrow> retrier_config \<Rightarrow> 's cancellation \<Rightarrow>
   ('s, 'e, ('a, 'e) retry_step) sresult \<Rightarrow> 's \<Rightarrow> 's \<times> ('e + 'a)" where
  "retry re cfg cn handler s = retry_from re cfg cn handler 0 s"

definition not_cancelled :: "'s cancellation" where
  "not_cancelled = \<lparr>cancelled_call = (\<lambda>_. False), cancelled_sleep = (\<lambda>_. False), abandoned = (\<lambda>_ s. s)\<rparr>"

text \<open>
  A dropped attempt was not sent yet, or runs to its end without anybody waiting for the answer; what
  a request leaves that is cut off halfway is among what the called service may answer with an error.
\<close>

record race =
  race_call :: "nat \<Rightarrow> bool"
  race_sleep :: "nat \<Rightarrow> bool"
  race_lands :: "nat \<Rightarrow> bool"

definition no_race :: race where
  "no_race = \<lparr>race_call = (\<lambda>_. False), race_sleep = (\<lambda>_. False), race_lands = (\<lambda>_. False)\<rparr>"

definition race_against :: "race \<Rightarrow> ('s, 'e, 'a) sresult \<Rightarrow> 's cancellation" where
  "race_against r h =
     \<lparr>cancelled_call = race_call r, cancelled_sleep = race_sleep r,
      abandoned = (\<lambda>i s. if race_lands r i then fst (h s) else s)\<rparr>"

section \<open>What the loop guarantees\<close>

text \<open>A handler that counts its own calls: the state is paired with the number of calls made.\<close>

definition counting :: "('s, 'e, 'b) sresult \<Rightarrow> ('s \<times> nat, 'e, 'b) sresult" where
  "counting h p = (case h (fst p) of (s', r) \<Rightarrow> ((s', snd p + 1), r))"

definition counting_cancellation :: "'s cancellation \<Rightarrow> ('s \<times> nat) cancellation" where
  "counting_cancellation cn =
     \<lparr>cancelled_call = cancelled_call cn, cancelled_sleep = cancelled_sleep cn,
      abandoned = (\<lambda>i p. (abandoned cn i (fst p), snd p))\<rparr>"

lemma counting_cancellation_simps [simp]:
  "cancelled_call (counting_cancellation cn) = cancelled_call cn"
  "cancelled_sleep (counting_cancellation cn) = cancelled_sleep cn"
  "abandoned (counting_cancellation cn) i p = (abandoned cn i (fst p), snd p)"
  by (simp_all add: counting_cancellation_def)

lemma counted_calls_from:
  "snd (fst (retry_from re cfg (counting_cancellation cn) (counting h) attempt (s, n))) + attempt
     \<le> n + max (attempt + 1) (max_attempts_cfg cfg)"
proof (induction "max_attempts_cfg cfg - attempt" arbitrary: attempt s n rule: less_induct)
  case less
  obtain s' r where h: "h s = (s', r)" by fastforce
  show ?case
  proof (cases "\<exists>cause. r = Inr (Retry cause) \<and> attempt + 1 < max_attempts_cfg cfg \<and>
      \<not> cancelled_call cn attempt \<and> \<not> cancelled_sleep cn (attempt + 1)")
    case True
    then have "retry_from re cfg (counting_cancellation cn) (counting h) attempt (s, n) =
        retry_from re cfg (counting_cancellation cn) (counting h) (attempt + 1) (s', n + 1)"
      by (subst retry_from.simps) (auto simp: counting_def h)
    with less [of "attempt + 1" s' "n + 1"] True show ?thesis by auto
  next
    case False
    then show ?thesis
      by (subst retry_from.simps) (auto simp: counting_def h split: sum.splits retry_step.splits)
  qed
qed

text \<open>A property the attempts keep while they ask for another one holds of the state the last attempt starts in.\<close>

lemma retry_invariant:
  assumes "I s" and step: "\<And>s s' cause. I s \<Longrightarrow> h s = (s', Inr (Retry cause)) \<Longrightarrow> I s'"
    and "retry_from re cfg cn h attempt s = (t, Inr v)"
  shows "\<exists>s0. I s0 \<and> h s0 = (t, Inr (Done v))"
  using assms(1,3)
proof (induction "max_attempts_cfg cfg - attempt" arbitrary: attempt s rule: less_induct)
  case less
  obtain s' r where h: "h s = (s', r)" by fastforce
  from less.prems(2) have nc: "\<not> cancelled_call cn attempt" by (subst (asm) retry_from.simps) auto
  show ?case
  proof (cases "\<exists>cause. r = Inr (Retry cause)")
    case True
    with less.prems(2) nc h have go: "attempt + 1 < max_attempts_cfg cfg"
      "retry_from re cfg cn h (attempt + 1) s' = (t, Inr v)"
      by (subst (asm) retry_from.simps, auto split: if_splits)+
    have "I s'" using True step [OF less.prems(1)] h by auto
    with less.hyps [of "attempt + 1" s'] go show ?thesis by simp
  next
    case False
    with less.prems(2) nc h have "h s = (t, Inr (Done v))"
      by (subst (asm) retry_from.simps) (auto split: sum.splits retry_step.splits)
    with less.prems(1) show ?thesis by blast
  qed
qed

text \<open>What every attempt does to the state, the loop does, whether it is cut off or not.\<close>

lemma retry_related:
  assumes "reflp R" and "transp R" and step: "\<And>s. R s (fst (h s))"
  shows "R s (fst (retry_from re cfg (race_against r h) h attempt s))"
proof (induction "max_attempts_cfg cfg - attempt" arbitrary: attempt s rule: less_induct)
  case less
  obtain s' q where h: "h s = (s', q)" by fastforce
  have one: "R s s'" using step [of s] h by simp
  show ?case
  proof (cases "\<exists>cause. q = Inr (Retry cause) \<and> attempt + 1 < max_attempts_cfg cfg \<and>
      \<not> race_call r attempt \<and> \<not> race_sleep r (attempt + 1)")
    case True
    then have "retry_from re cfg (race_against r h) h attempt s = retry_from re cfg (race_against r h) h (attempt + 1) s'"
      by (subst retry_from.simps) (auto simp: h race_against_def)
    moreover have "R s' (fst (retry_from re cfg (race_against r h) h (attempt + 1) s'))"
      by (rule less.hyps) (use True in auto)
    ultimately show ?thesis using transpD [OF assms(2) one] by simp
  next
    case False
    with one assms(1) show ?thesis
      by (subst retry_from.simps) (auto simp: h race_against_def reflpD split: sum.splits retry_step.splits)
  qed
qed

text \<open>A cost no attempt exceeds is paid at most once for every attempt the settings allow, the first one included.\<close>

lemma retry_cost:
  assumes step: "\<And>s. f (fst (h s)) \<le> f s + (d :: nat)"
  shows "f (fst (retry_from re cfg (race_against r h) h attempt s)) \<le> f s + d * (max (attempt + 1) (max_attempts_cfg cfg) - attempt)"
proof (induction "max_attempts_cfg cfg - attempt" arbitrary: attempt s rule: less_induct)
  case less
  obtain s' q where h: "h s = (s', q)" by fastforce
  have one: "f s' \<le> f s + d" using step [of s] h by simp
  show ?case
  proof (cases "\<exists>cause. q = Inr (Retry cause) \<and> attempt + 1 < max_attempts_cfg cfg \<and>
      \<not> race_call r attempt \<and> \<not> race_sleep r (attempt + 1)")
    case True
    then have "retry_from re cfg (race_against r h) h attempt s = retry_from re cfg (race_against r h) h (attempt + 1) s'"
      by (subst retry_from.simps) (auto simp: h race_against_def)
    moreover have "f (fst (retry_from re cfg (race_against r h) h (attempt + 1) s')) \<le>
        f s' + d * (max (attempt + 1 + 1) (max_attempts_cfg cfg) - (attempt + 1))"
      by (rule less.hyps) (use True in auto)
    moreover have "max (attempt + 1) (max_attempts_cfg cfg) - attempt = Suc (max (attempt + 1 + 1) (max_attempts_cfg cfg) - (attempt + 1))"
      using True by auto
    ultimately show ?thesis using one by (simp only: mult_Suc_right)
  next
    case False
    have "Suc 0 \<le> max (attempt + 1) (max_attempts_cfg cfg) - attempt" by linarith
    then have "f s + d \<le> f s + d * (max (attempt + 1) (max_attempts_cfg cfg) - attempt)" by simp
    moreover have "f (fst (retry_from re cfg (race_against r h) h attempt s)) \<le> f s + d"
      using False one by (subst retry_from.simps) (auto simp: h race_against_def split: sum.splits retry_step.splits)
    ultimately show ?thesis by linarith
  qed
qed

text \<open>
  The contract of a retried error type, and what a caller of the loop may conclude from it: the
  loop reports the token exactly when it lost a race to it, provided no attempt reports the token
  itself.
\<close>

locale retry_error_contract =
  fixes re :: "'e retry_error"
  assumes spent_not_cancelled: "from_spent_attempts re cause \<noteq> from_cancellation re"
    and spent_inject: "from_spent_attempts re c = from_spent_attempts re d \<Longrightarrow> c = d"
begin

lemma never_cancelled_result:
  assumes no_race: "\<And>i. \<not> cancelled_call cn i" "\<And>i. \<not> cancelled_sleep cn i"
    and handler: "\<And>s s'. h s \<noteq> (s', Inl (from_cancellation re))"
  shows "snd (retry_from re cfg cn h attempt s) \<noteq> Inl (from_cancellation re)"
  using no_race handler
proof (induction "max_attempts_cfg cfg - attempt" arbitrary: attempt s rule: less_induct)
  case less
  obtain s' r where h: "h s = (s', r)" by fastforce
  have r: "r \<noteq> Inl (from_cancellation re)" using less.prems(3) [of s s'] h by auto
  show ?case
  proof (cases "\<exists>cause. r = Inr (Retry cause) \<and> attempt + 1 < max_attempts_cfg cfg")
    case True
    with less.prems(1,2) h have "retry_from re cfg cn h attempt s =
        retry_from re cfg cn h (attempt + 1) s'"
      by (subst retry_from.simps) auto
    moreover have "snd (retry_from re cfg cn h (attempt + 1) s') \<noteq> Inl (from_cancellation re)"
      by (rule less.hyps) (use True less.prems in auto)
    ultimately show ?thesis by simp
  next
    case False
    with less.prems(1) h r spent_not_cancelled show ?thesis
      by (subst retry_from.simps) (auto split: sum.splits retry_step.splits)
  qed
qed

end

interpretation storage_retry: retry_error_contract storage_retry_error
  by unfold_locales (auto simp: storage_retry_error_def)

interpretation internal_retry: retry_error_contract internal_retry_error
  by unfold_locales (auto simp: internal_retry_error_def)

end
