(* ===== verification/JM_Task.thy ===== *)
theory JM_Task
  imports JM_Types
begin

text \<open>
  \<^verbatim>\<open>core/task.rs\<close>: the definition of a task and its validation, the task record, and every
  transition of a task with the clock reading it judges by. The invariant \<open>task_wf\<close> and what
  follows from it for a single task: the attempt budget, the absolute lifetime, terminality.
\<close>

section \<open>Task definitions\<close>

definition DEFAULT_MAX_ATTEMPTS :: u32 where
  "DEFAULT_MAX_ATTEMPTS = 5"

definition DEFAULT_LIFETIME_MULTIPLIER :: nat where
  "DEFAULT_LIFETIME_MULTIPLIER = 5"

definition FAILED_TASK_RETRY_PAUSE :: delta where
  "FAILED_TASK_RETRY_PAUSE = 10 ^ 9"

type_synonym task_code = string

record task_definition =
  def_code :: task_code
  def_input :: bytes
  def_timeout :: duration
  def_max_lifetime :: duration
  def_depends_on :: "task_ref list"
  def_max_attempts :: u32
  def_tolerance :: dependency_tolerance

definition task_definition_new :: "task_code \<Rightarrow> duration \<Rightarrow> task_definition" where
  "task_definition_new code timeout =
     \<lparr>def_code = code, def_input = [], def_timeout = timeout,
      def_max_lifetime =
        (case duration_checked_mul timeout DEFAULT_LIFETIME_MULTIPLIER of
           Some d \<Rightarrow> d | None \<Rightarrow> std_duration_max),
      def_depends_on = [], def_max_attempts = DEFAULT_MAX_ATTEMPTS,
      def_tolerance = tolerance_default\<rparr>"

definition with_input :: "bytes \<Rightarrow> task_definition \<Rightarrow> task_definition" where
  "with_input i d = d\<lparr>def_input := i\<rparr>"

definition with_dependencies :: "task_ref list \<Rightarrow> task_definition \<Rightarrow> task_definition" where
  "with_dependencies ds d = d\<lparr>def_depends_on := ds\<rparr>"

definition with_max_attempts :: "u32 \<Rightarrow> task_definition \<Rightarrow> task_definition" where
  "with_max_attempts n d = d\<lparr>def_max_attempts := n\<rparr>"

definition with_max_lifetime :: "duration \<Rightarrow> task_definition \<Rightarrow> task_definition" where
  "with_max_lifetime l d = d\<lparr>def_max_lifetime := l\<rparr>"

definition with_dependency_tolerance :: "dependency_tolerance \<Rightarrow> task_definition \<Rightarrow> task_definition" where
  "with_dependency_tolerance tol d = d\<lparr>def_tolerance := tol\<rparr>"

definition is_declares_tolerance_valid :: "task_definition \<Rightarrow> bool" where
  "is_declares_tolerance_valid d \<longleftrightarrow> \<not> (is_declared (def_tolerance d) \<and> def_depends_on d = [])"

definition validate :: "externs \<Rightarrow> task_limits \<Rightarrow> task_definition \<Rightarrow> job_error + unit" where
  "validate x limits d =
     (if def_timeout d = 0 then Inl (JobOther ''task timeout must be positive'')
      else if from_std x (def_timeout d) = None then Inl (JobOther ''task timeout is too large'')
      else if def_max_lifetime d = 0 then Inl (JobOther ''task max lifetime must be positive'')
      else if from_std x (def_max_lifetime d) = None then Inl (JobOther ''task max lifetime is too large'')
      else if def_max_lifetime d < def_timeout d
        then Inl (JobOther ''task max lifetime must not be below the task timeout'')
      else if def_max_attempts d = 0 then Inl (JobOther ''task max attempts must be positive'')
      else if length (def_input d) > max_input_bytes limits
        then Inl (JobOther ''task input size exceeds limit'')
      else Inr ())"

section \<open>Tasks\<close>

record task =
  task_id :: uuid
  task_code :: task_code
  task_status :: task_status
  processing_by_worker :: "uuid option"
  created_by_worker :: uuid
  created_by_task :: "uuid option"
  task_timeout :: delta
  task_max_lifetime :: delta
  task_started_at :: "time option"
  task_completed_at :: "time option"
  deadline_at :: "time option"
  lifetime_deadline_at :: "time option"
  attempt :: u32
  max_attempts :: u32
  task_input :: bytes
  task_output :: bytes
  resolution_reason :: string
  task_retry :: task_retry
  task_tolerance :: dependency_tolerance
  depends_on :: "uuid list"

definition task_new ::
  "externs \<Rightarrow> uuid \<Rightarrow> uuid \<Rightarrow> uuid option \<Rightarrow> task_definition \<Rightarrow> uuid list \<Rightarrow> task" where
  "task_new x new_id worker parent d deps =
     \<lparr>task_id = new_id, task_code = def_code d,
      task_status = (if deps = [] then Todo else Blocked),
      processing_by_worker = None, created_by_worker = worker, created_by_task = parent,
      task_timeout = (case from_std x (def_timeout d) of Some t \<Rightarrow> t | None \<Rightarrow> 0),
      task_max_lifetime = (case from_std x (def_max_lifetime d) of Some t \<Rightarrow> t | None \<Rightarrow> 0),
      task_started_at = None, task_completed_at = None, deadline_at = None,
      lifetime_deadline_at = None, attempt = 0, max_attempts = def_max_attempts d,
      task_input = def_input d, task_output = [], resolution_reason = [],
      task_retry = task_retry_default, task_tolerance = def_tolerance d, depends_on = deps\<rparr>"

text \<open>
  \<^verbatim>\<open>RestoredTask\<close> and \<^verbatim>\<open>Task::restore\<close>: a task read back from storage belongs to no open
  execution, so the restored task names no creating task.
\<close>

record restored_task =
  restored_id :: uuid
  restored_code :: task_code
  restored_status :: task_status
  restored_processing_by_worker :: "uuid option"
  restored_created_by_worker :: uuid
  restored_timeout :: delta
  restored_max_lifetime :: delta
  restored_started_at :: "time option"
  restored_completed_at :: "time option"
  restored_deadline_at :: "time option"
  restored_lifetime_deadline_at :: "time option"
  restored_attempt :: u32
  restored_max_attempts :: u32
  restored_input :: bytes
  restored_output :: bytes
  restored_resolution_reason :: string
  restored_retry :: task_retry
  restored_tolerance :: dependency_tolerance
  restored_depends_on :: "uuid list"

definition task_restore :: "restored_task \<Rightarrow> task" where
  "task_restore f =
     \<lparr>task_id = restored_id f, task_code = restored_code f, task_status = restored_status f,
      processing_by_worker = restored_processing_by_worker f,
      created_by_worker = restored_created_by_worker f, created_by_task = None,
      task_timeout = restored_timeout f, task_max_lifetime = restored_max_lifetime f,
      task_started_at = restored_started_at f, task_completed_at = restored_completed_at f,
      deadline_at = restored_deadline_at f,
      lifetime_deadline_at = restored_lifetime_deadline_at f,
      attempt = restored_attempt f, max_attempts = restored_max_attempts f,
      task_input = restored_input f, task_output = restored_output f,
      resolution_reason = restored_resolution_reason f, task_retry = restored_retry f,
      task_tolerance = restored_tolerance f, depends_on = restored_depends_on f\<rparr>"

definition skip_cause_of :: "task \<Rightarrow> skip_cause option" where
  "skip_cause_of t = (case task_status t of Skipped cause \<Rightarrow> Some cause | _ \<Rightarrow> None)"

definition is_expired_at :: "task \<Rightarrow> time \<Rightarrow> bool" where
  "is_expired_at t now \<longleftrightarrow> (case deadline_at t of Some d \<Rightarrow> now > d | None \<Rightarrow> False)"

definition is_lifetime_expired_at :: "task \<Rightarrow> time \<Rightarrow> bool" where
  "is_lifetime_expired_at t now \<longleftrightarrow> (case lifetime_deadline_at t of Some d \<Rightarrow> now > d | None \<Rightarrow> False)"

definition is_completed :: "task \<Rightarrow> bool" where
  "is_completed t \<longleftrightarrow> task_status t = Completed"

definition is_failed :: "task \<Rightarrow> bool" where
  "is_failed t \<longleftrightarrow> task_status t = Failed"

definition is_started :: "task \<Rightarrow> bool" where
  "is_started t \<longleftrightarrow> task_status t = Started"

definition is_skipped :: "task \<Rightarrow> bool" where
  "is_skipped t \<longleftrightarrow> (case task_status t of Skipped _ \<Rightarrow> True | _ \<Rightarrow> False)"

definition resolution :: "task \<Rightarrow> task_resolution option" where
  "resolution t = (case task_status t of
      Completed \<Rightarrow> Some ResolvedCompleted
    | Failed \<Rightarrow> Some ResolvedFailed
    | Skipped _ \<Rightarrow> Some ResolvedSkipped
    | Todo \<Rightarrow> None | Blocked \<Rightarrow> None | Started \<Rightarrow> None)"

definition is_resolved :: "task \<Rightarrow> bool" where
  "is_resolved t \<longleftrightarrow> resolution t \<noteq> None"

definition is_terminally_failed_at :: "task \<Rightarrow> time \<Rightarrow> bool" where
  "is_terminally_failed_at t now \<longleftrightarrow>
     is_failed t \<and> (task_retry t = Never \<or> attempt t \<ge> max_attempts t \<or> is_lifetime_expired_at t now)"

definition check_availability_at :: "externs \<Rightarrow> task \<Rightarrow> time \<Rightarrow> task_availability" where
  "check_availability_at x t now = (case task_status t of
      Todo \<Rightarrow> Pickable
    | Blocked \<Rightarrow> Unavailable
    | Completed \<Rightarrow> Unavailable
    | Skipped _ \<Rightarrow> Unavailable
    | Failed \<Rightarrow>
        if is_terminally_failed_at t now then Unavailable
        else (case Option.bind (task_completed_at t)
                     (\<lambda>failed_at. checked_add_signed x failed_at FAILED_TASK_RETRY_PAUSE) of
                Some retry_at \<Rightarrow> if now < retry_at then AwaitingRetry retry_at else Pickable
              | None \<Rightarrow> Pickable)
    | Started \<Rightarrow>
        if is_lifetime_expired_at t now then ExpiredPastLifetime
        else if is_expired_at t now then Pickable
        else Unavailable)"

definition judge_dependency :: "task \<Rightarrow> task \<Rightarrow> time \<Rightarrow> dependency_verdict" where
  "judge_dependency t dep now =
     (if is_completed dep then VerdictUnblocked
      else if is_terminally_failed_at dep now then
        (if allows_failed (task_tolerance t) then VerdictUnblocked
         else VerdictSkipped FailedDependency)
      else case skip_cause_of dep of
          Some cause \<Rightarrow>
            if allows_skipped (task_tolerance t) then VerdictUnblocked
            else if carries_failure cause then VerdictSkipped FailedDependency
            else VerdictSkipped SkippedDependency
        | None \<Rightarrow> VerdictBlocked)"

definition unblock :: "task \<Rightarrow> task" where
  "unblock t = (if task_status t = Blocked then t\<lparr>task_status := Todo\<rparr> else t)"

definition can_be_picked_up_at :: "externs \<Rightarrow> task \<Rightarrow> time \<Rightarrow> bool" where
  "can_be_picked_up_at x t now \<longleftrightarrow> check_availability_at x t now = Pickable"

text \<open>
  The transitions. Each of them makes all of its checks before it assigns anything, so an error
  leaves the task as it was; the model returns the new task only where the source returns \<^verbatim>\<open>Ok\<close>.
  \<open>now\<close> is the one reading of the clock the transition makes.
\<close>

definition start :: "externs \<Rightarrow> time \<Rightarrow> uuid \<Rightarrow> task \<Rightarrow> job_error + task" where
  "start x now worker t = (case check_availability_at x t now of
      AwaitingRetry retry_at \<Rightarrow> Inl (JobOther ''cannot start task: it awaits its retry'')
    | Pickable \<Rightarrow>
        (case ((case lifetime_deadline_at t of
                  Some l \<Rightarrow> Some l
                | None \<Rightarrow> checked_add_signed x now (task_max_lifetime t)),
               checked_add_signed x now (task_timeout t)) of
           (Some lifetime, Some timeout_at) \<Rightarrow>
             Inr (t\<lparr>task_status := Started,
                    processing_by_worker := Some worker,
                    task_started_at := Some now,
                    deadline_at := Some (min timeout_at lifetime),
                    lifetime_deadline_at := Some lifetime,
                    attempt := (if is_started t then attempt t else attempt t + 1)\<rparr>)
         | _ \<Rightarrow> Inl (JobOther ''cannot start task: its timeout or its maximum lifetime falls outside the range of dates''))
    | _ \<Rightarrow>
        if processing_by_worker t \<noteq> Some worker then Inl TaskWorkerMismatch
        else Inl (JobOther ''cannot start task''))"

definition complete :: "time \<Rightarrow> bytes \<Rightarrow> task \<Rightarrow> job_error + task" where
  "complete now out t =
     (if task_status t \<noteq> Started then Inl (JobOther ''cannot complete task with its status'')
      else if is_lifetime_expired_at t now
        then Inl (JobOther ''cannot complete task: it outlived its maximum lifetime'')
      else Inr (t\<lparr>task_output := out, task_status := Completed, task_completed_at := Some now\<rparr>))"

definition skip :: "time \<Rightarrow> string \<Rightarrow> skip_cause \<Rightarrow> task \<Rightarrow> job_error + task" where
  "skip now reason cause t =
     (if task_status t \<noteq> Started \<and> task_status t \<noteq> Blocked
        then Inl (JobOther ''cannot skip task with its status'')
      else if is_started t \<and> is_lifetime_expired_at t now
        then Inl (JobOther ''cannot skip task: it outlived its maximum lifetime'')
      else Inr (t\<lparr>resolution_reason := reason, task_status := Skipped cause,
                  task_completed_at := Some now\<rparr>))"

definition fail :: "time \<Rightarrow> string \<Rightarrow> task_retry \<Rightarrow> task \<Rightarrow> job_error + task" where
  "fail now msg retry t =
     (if task_status t \<noteq> Started then Inl (JobOther ''cannot fail task with its status'')
      else Inr (t\<lparr>resolution_reason := msg, task_retry := retry, task_status := Failed,
                  task_completed_at := Some now\<rparr>))"

lemmas task_check_defs =
  is_expired_at_def is_lifetime_expired_at_def is_completed_def is_failed_def is_started_def
  is_skipped_def is_terminally_failed_at_def skip_cause_of_def

section \<open>Basic facts about the checks\<close>

lemma is_resolved_iff:
  "is_resolved t \<longleftrightarrow> task_status t = Completed \<or> task_status t = Failed \<or> (\<exists>c. task_status t = Skipped c)"
  by (cases "task_status t") (auto simp: is_resolved_def resolution_def)

lemma not_resolved_iff:
  "\<not> is_resolved t \<longleftrightarrow> task_status t = Todo \<or> task_status t = Blocked \<or> task_status t = Started"
  by (cases "task_status t") (auto simp: is_resolved_def resolution_def)

lemma skip_cause_of_iff: "skip_cause_of t = Some c \<longleftrightarrow> task_status t = Skipped c"
  by (cases "task_status t") (auto simp: skip_cause_of_def)

lemma skip_cause_of_None_iff: "skip_cause_of t = None \<longleftrightarrow> (\<forall>c. task_status t \<noteq> Skipped c)"
  by (cases "task_status t") (auto simp: skip_cause_of_def)

lemma lifetime_expired_mono:
  "is_lifetime_expired_at t now \<Longrightarrow> now \<le> now' \<Longrightarrow> is_lifetime_expired_at t now'"
  by (auto simp: is_lifetime_expired_at_def split: option.splits)

lemma terminally_failed_mono:
  "is_terminally_failed_at t now \<Longrightarrow> now \<le> now' \<Longrightarrow> is_terminally_failed_at t now'"
  by (auto simp: is_terminally_failed_at_def intro: lifetime_expired_mono)

lemma availability_Pickable_iff:
  "check_availability_at x t now = Pickable \<longleftrightarrow>
     task_status t = Todo \<or>
     (task_status t = Started \<and> is_expired_at t now \<and> \<not> is_lifetime_expired_at t now) \<or>
     (task_status t = Failed \<and> \<not> is_terminally_failed_at t now \<and>
       (\<forall>failed_at retry_at. task_completed_at t = Some failed_at \<longrightarrow>
          checked_add_signed x failed_at FAILED_TASK_RETRY_PAUSE = Some retry_at \<longrightarrow> retry_at \<le> now))"
  by (cases "task_status t")
    (auto simp: check_availability_at_def split: option.splits bind_splits)

lemma availability_Unavailable_iff:
  "check_availability_at x t now = Unavailable \<longleftrightarrow>
     task_status t = Blocked \<or> task_status t = Completed \<or> (\<exists>c. task_status t = Skipped c) \<or>
     (task_status t = Failed \<and> is_terminally_failed_at t now) \<or>
     (task_status t = Started \<and> \<not> is_expired_at t now \<and> \<not> is_lifetime_expired_at t now)"
  by (cases "task_status t") (auto simp: check_availability_at_def split: option.splits)

lemma availability_Expired_iff:
  "check_availability_at x t now = ExpiredPastLifetime \<longleftrightarrow>
     task_status t = Started \<and> is_lifetime_expired_at t now"
  by (cases "task_status t") (auto simp: check_availability_at_def split: option.splits)

lemma availability_AwaitingD:
  "check_availability_at x t now = AwaitingRetry r \<Longrightarrow>
     task_status t = Failed \<and> \<not> is_terminally_failed_at t now \<and> now < r"
  by (cases "task_status t") (auto simp: check_availability_at_def split: option.splits if_splits)

text \<open>What each transition does where it succeeds.\<close>

lemma start_Inr_iff:
  "start x now worker t = Inr t' \<longleftrightarrow>
     check_availability_at x t now = Pickable \<and>
     (\<exists>lifetime timeout_at.
        (case lifetime_deadline_at t of Some l \<Rightarrow> lifetime = l
         | None \<Rightarrow> checked_add_signed x now (task_max_lifetime t) = Some lifetime) \<and>
        checked_add_signed x now (task_timeout t) = Some timeout_at \<and>
        t' = t\<lparr>task_status := Started, processing_by_worker := Some worker,
               task_started_at := Some now, deadline_at := Some (min timeout_at lifetime),
               lifetime_deadline_at := Some lifetime,
               attempt := (if is_started t then attempt t else attempt t + 1)\<rparr>)"
  unfolding start_def
  by (cases "check_availability_at x t now") (auto split: option.splits if_splits)

lemma complete_Inr_iff:
  "complete now out t = Inr t' \<longleftrightarrow>
     task_status t = Started \<and> \<not> is_lifetime_expired_at t now \<and>
     t' = t\<lparr>task_output := out, task_status := Completed, task_completed_at := Some now\<rparr>"
  by (auto simp: complete_def)

lemma skip_Inr_iff:
  "skip now reason cause t = Inr t' \<longleftrightarrow>
     (task_status t = Blocked \<or> (task_status t = Started \<and> \<not> is_lifetime_expired_at t now)) \<and>
     t' = t\<lparr>resolution_reason := reason, task_status := Skipped cause, task_completed_at := Some now\<rparr>"
  by (auto simp: skip_def is_started_def)

lemma fail_Inr_iff:
  "fail now msg retry t = Inr t' \<longleftrightarrow>
     task_status t = Started \<and>
     t' = t\<lparr>resolution_reason := msg, task_retry := retry, task_status := Failed,
            task_completed_at := Some now\<rparr>"
  by (auto simp: fail_def)

lemmas task_transition_iffs = start_Inr_iff complete_Inr_iff skip_Inr_iff fail_Inr_iff

end
