(* ===== verification/JM_Task_Props.thy ===== *)
theory JM_Task_Props
  imports JM_Task
begin

text \<open>
  The life of one task: the invariant its transitions keep, the runs of a task as sequences of
  successful transitions, and the guarantees the documentation of \<^verbatim>\<open>core/task.rs\<close> makes about the
  attempt budget, the maximum lifetime and terminal states.
\<close>

section \<open>The invariant of a task\<close>

definition never_ran :: "task \<Rightarrow> bool" where
  "never_ran t \<longleftrightarrow>
     attempt t = 0 \<and> processing_by_worker t = None \<and> task_started_at t = None \<and>
     deadline_at t = None \<and> lifetime_deadline_at t = None"

definition has_run :: "task \<Rightarrow> bool" where
  "has_run t \<longleftrightarrow>
     0 < attempt t \<and> processing_by_worker t \<noteq> None \<and> task_started_at t \<noteq> None \<and>
     (\<exists>d l. deadline_at t = Some d \<and> lifetime_deadline_at t = Some l \<and> d \<le> l)"

definition task_wf :: "task \<Rightarrow> bool" where
  "task_wf t \<longleftrightarrow>
     0 < max_attempts t \<and> attempt t \<le> max_attempts t \<and>
     (is_resolved t \<longrightarrow> task_completed_at t \<noteq> None) \<and>
     (case task_status t of
        Todo \<Rightarrow> never_ran t
      | Blocked \<Rightarrow> never_ran t \<and> depends_on t \<noteq> []
      | Skipped _ \<Rightarrow> never_ran t \<or> has_run t
      | _ \<Rightarrow> has_run t)"

lemma never_ran_not_has_run: "never_ran t \<Longrightarrow> \<not> has_run t"
  by (simp add: never_ran_def has_run_def)

lemma task_wf_new:
  "0 < def_max_attempts d \<Longrightarrow> task_wf (task_new x i w p d deps)"
  by (simp add: task_wf_def task_new_def never_ran_def is_resolved_def resolution_def)

lemma task_wf_unblock: "task_wf t \<Longrightarrow> task_wf (unblock t)"
  by (auto simp: unblock_def task_wf_def never_ran_def is_resolved_def resolution_def)

lemma u32_less_inc: "(a :: u32) < b \<Longrightarrow> 0 < a + 1 \<and> a + 1 \<le> b"
  by unat_arith

lemma task_wf_start_attempt:
  assumes "task_wf t" and "start x now w t = Inr t'"
  shows "0 < attempt t' \<and> attempt t' \<le> max_attempts t"
proof (cases "is_started t")
  case True
  with assms show ?thesis
    by (auto simp: start_Inr_iff task_wf_def has_run_def is_started_def)
next
  case False
  have "attempt t < max_attempts t"
  proof (cases "task_status t = Todo")
    case True
    with assms(1) show ?thesis by (simp add: task_wf_def never_ran_def)
  next
    case not_todo: False
    with assms(2) False have "\<not> is_terminally_failed_at t now" "task_status t = Failed"
      by (auto simp: start_Inr_iff availability_Pickable_iff is_started_def)
    then show ?thesis by (auto simp: is_terminally_failed_at_def is_failed_def)
  qed
  moreover have "attempt t' = attempt t + 1"
    using assms(2) False by (auto simp: start_Inr_iff)
  ultimately show ?thesis using u32_less_inc by metis
qed

lemma task_wf_start: "task_wf t \<Longrightarrow> start x now w t = Inr t' \<Longrightarrow> task_wf t'"
  using task_wf_start_attempt [of t x now w t']
  by (auto simp: start_Inr_iff task_wf_def has_run_def is_resolved_def resolution_def)

lemma task_wf_complete: "task_wf t \<Longrightarrow> complete now out t = Inr t' \<Longrightarrow> task_wf t'"
  by (auto simp: complete_Inr_iff task_wf_def has_run_def)

lemma task_wf_skip: "task_wf t \<Longrightarrow> skip now r c t = Inr t' \<Longrightarrow> task_wf t'"
  by (auto simp: skip_Inr_iff task_wf_def has_run_def never_ran_def)

lemma task_wf_fail: "task_wf t \<Longrightarrow> fail now m r t = Inr t' \<Longrightarrow> task_wf t'"
  by (auto simp: fail_Inr_iff task_wf_def has_run_def)

lemmas task_wf_transitions =
  task_wf_unblock task_wf_start task_wf_complete task_wf_skip task_wf_fail

section \<open>Runs of a task\<close>

datatype task_event =
    EvUnblock
  | EvStart time uuid
  | EvComplete time bytes
  | EvSkip time string skip_cause
  | EvFail time string task_retry

fun task_apply :: "externs \<Rightarrow> task_event \<Rightarrow> task \<Rightarrow> job_error + task" where
  "task_apply x EvUnblock t = Inr (unblock t)"
| "task_apply x (EvStart now w) t = start x now w t"
| "task_apply x (EvComplete now out) t = complete now out t"
| "task_apply x (EvSkip now r c) t = skip now r c t"
| "task_apply x (EvFail now m r) t = fail now m r t"

text \<open>The moment an event judges by; unblocking reads no clock.\<close>

fun event_time :: "task_event \<Rightarrow> time option" where
  "event_time EvUnblock = None"
| "event_time (EvStart now _) = Some now"
| "event_time (EvComplete now _) = Some now"
| "event_time (EvSkip now _ _) = Some now"
| "event_time (EvFail now _ _) = Some now"

fun is_refusal :: "task_event \<Rightarrow> bool" where
  "is_refusal (EvFail _ _ _) = True"
| "is_refusal _ = False"

abbreviation refusals :: "task_event list \<Rightarrow> nat" where
  "refusals evs \<equiv> length (filter is_refusal evs)"

inductive task_run :: "externs \<Rightarrow> task \<Rightarrow> task_event list \<Rightarrow> task \<Rightarrow> bool" for x t0 where
  run_nil: "task_run x t0 [] t0"
| run_snoc: "task_run x t0 evs t \<Longrightarrow> task_apply x ev t = Inr t' \<Longrightarrow> task_run x t0 (evs @ [ev]) t'"

text \<open>Runs computed event by event, for evaluation.\<close>

fun task_exec :: "externs \<Rightarrow> task_event list \<Rightarrow> task \<Rightarrow> job_error + task" where
  "task_exec x [] t = Inr t"
| "task_exec x (ev # evs) t = bindR (task_apply x ev t) (task_exec x evs)"

lemma task_run_cons:
  assumes "task_run x t1 evs t" and "task_apply x ev t0 = Inr t1"
  shows "task_run x t0 (ev # evs) t"
  using assms
proof (induction rule: task_run.induct)
  case run_nil
  then show ?case using run_snoc [OF task_run.run_nil, of x ev t0 t1] by simp
next
  case (run_snoc evs t e t')
  then show ?case using task_run.run_snoc [of x t0 "ev # evs" t e t'] by simp
qed

lemma task_exec_run: "task_exec x evs t0 = Inr t \<Longrightarrow> task_run x t0 evs t"
  by (induction evs arbitrary: t0) (auto intro: task_run.run_nil task_run_cons)

lemma task_wf_apply: "task_wf t \<Longrightarrow> task_apply x ev t = Inr t' \<Longrightarrow> task_wf t'"
  by (cases ev) (auto intro: task_wf_transitions)

lemma task_wf_run: "task_run x t0 evs t \<Longrightarrow> task_wf t0 \<Longrightarrow> task_wf t"
  by (induction rule: task_run.induct) (auto intro: task_wf_apply)

lemma max_attempts_apply: "task_apply x ev t = Inr t' \<Longrightarrow> max_attempts t' = max_attempts t"
  by (cases ev) (auto simp: task_transition_iffs unblock_def)

lemma max_attempts_run: "task_run x t0 evs t \<Longrightarrow> max_attempts t = max_attempts t0"
  by (induction rule: task_run.induct) (auto dest: max_attempts_apply)

text \<open>
  How many of the attempts a task has spent did not end in a refusal: the one it is running or
  ended with, if it is running or ended by completing or by a decision.
\<close>

definition open_attempts :: "task \<Rightarrow> nat" where
  "open_attempts t =
     (if task_status t = Started \<or> task_status t = Completed \<or> (is_skipped t \<and> has_run t) then 1 else 0)"

lemma attempts_step:
  assumes wf: "task_wf t" and ap: "task_apply x ev t = Inr t'"
  shows "unat (attempt t') + open_attempts t =
    unat (attempt t) + open_attempts t' + (if is_refusal ev then 1 else 0)"
proof (cases ev)
  case EvUnblock
  with ap show ?thesis
    by (cases "task_status t = Blocked") (auto simp: unblock_def open_attempts_def is_skipped_def)
next
  case (EvStart now w)
  with ap have st: "start x now w t = Inr t'" by simp
  have wf': "task_wf t'" by (rule task_wf_start [OF wf st])
  show ?thesis
  proof (cases "is_started t")
    case True
    with st EvStart show ?thesis by (auto simp: start_Inr_iff open_attempts_def is_started_def)
  next
    case False
    have a: "attempt t' = attempt t + 1" "open_attempts t' = 1" "open_attempts t = 0"
      using st False
      by (auto simp: start_Inr_iff open_attempts_def is_started_def is_skipped_def
          availability_Pickable_iff)
    have "0 < attempt t'" using wf' a(2) by (auto simp: task_wf_def has_run_def open_attempts_def is_skipped_def split: task_status.splits if_splits)
    then have "unat (attempt t + 1) = unat (attempt t) + 1"
      using a(1) by (metis Suc_eq_plus1 unatSuc word_neq_0_conv add.commute)
    with a EvStart show ?thesis by simp
  qed
next
  case (EvComplete now out)
  with ap show ?thesis by (auto simp: complete_Inr_iff open_attempts_def)
next
  case (EvSkip now r c)
  with ap wf show ?thesis
    by (auto simp: skip_Inr_iff open_attempts_def is_skipped_def task_wf_def has_run_def never_ran_def)
next
  case (EvFail now m r)
  with ap show ?thesis by (auto simp: fail_Inr_iff open_attempts_def is_skipped_def)
qed

lemma attempts_run:
  assumes "task_run x t0 evs t" and "task_wf t0" and "attempt t0 = 0" and "open_attempts t0 = 0"
  shows "unat (attempt t) = refusals evs + open_attempts t"
  using assms
proof (induction rule: task_run.induct)
  case run_nil
  then show ?case by simp
next
  case (run_snoc evs t ev t')
  have "task_wf t" using run_snoc by (auto intro: task_wf_run)
  from attempts_step [OF this run_snoc.hyps(2)] run_snoc.IH run_snoc.prems show ?case by simp
qed

section \<open>The budget, the lifetime, terminal states\<close>

text \<open>A task for evaluation: a five-second deadline, five attempts, the default lifetime.\<close>

definition sample_definition :: task_definition where
  "sample_definition = task_definition_new ''task'' (secs 5)"

definition sample_task :: task where
  "sample_task = task_new std_externs 1 7 None sample_definition []"

definition sample_started :: task where
  "sample_started = sample_task\<lparr>task_status := Started, processing_by_worker := Some 7,
     task_started_at := Some 0, deadline_at := Some (5 * 10 ^ 9),
     lifetime_deadline_at := Some (25 * 10 ^ 9), attempt := 1\<rparr>"

definition sample_failed :: task where
  "sample_failed = sample_started\<lparr>resolution_reason := ''boom'', task_status := Failed,
     task_completed_at := Some 1\<rparr>"

lemmas sample_defs =
  sample_definition_def sample_task_def sample_started_def sample_failed_def task_definition_new_def
  task_new_def std_externs_def date_limit_def secs_def duration_checked_mul_def std_duration_max_def
  DEFAULT_MAX_ATTEMPTS_def DEFAULT_LIFETIME_MULTIPLIER_def tolerance_default_def
  task_retry_default_def

lemma sample_start: "start std_externs 0 7 sample_task = Inr sample_started"
  by (simp add: start_def check_availability_at_def is_started_def sample_defs)

lemma sample_fail: "fail 1 ''boom'' WhileBudgetLasts sample_started = Inr sample_failed"
  by (simp add: fail_def sample_defs)

lemma sample_wf: "task_wf sample_task" "task_wf sample_started" "task_wf sample_failed"
proof -
  show a: "task_wf sample_task"
    unfolding sample_task_def by (rule task_wf_new) (simp add: sample_defs)
  show b: "task_wf sample_started" by (rule task_wf_start [OF a sample_start])
  show "task_wf sample_failed" by (rule task_wf_fail [OF b sample_fail])
qed

text \<open>C31. Attempt budget. However a freshly created task is unblocked, started, taken over, refused,
  completed or skipped, its executor is heard refusing it at most \<open>max_attempts\<close> times, and the
  attempts it has spent exceed the refusals by at most one: takeovers spend nothing.\<close>
theorem task_attempt_budget:
  assumes "0 < def_max_attempts d" and "task_run x (task_new x i w p d deps) evs t"
  shows "refusals evs \<le> unat (attempt t) \<and> unat (attempt t) \<le> refusals evs + 1 \<and>
    unat (attempt t) \<le> unat (def_max_attempts d)"
proof -
  let ?t0 = "task_new x i w p d deps"
  have wf0: "task_wf ?t0" using assms(1) by (rule task_wf_new)
  have "attempt ?t0 = 0" "open_attempts ?t0 = 0"
    by (auto simp: task_new_def open_attempts_def is_skipped_def)
  then have "unat (attempt t) = refusals evs + open_attempts t"
    using attempts_run [OF assms(2) wf0] by simp
  moreover have "open_attempts t \<le> 1" by (simp add: open_attempts_def)
  moreover have "attempt t \<le> max_attempts t"
    using task_wf_run [OF assms(2) wf0] by (simp add: task_wf_def)
  moreover have "max_attempts t = def_max_attempts d"
    using max_attempts_run [OF assms(2)] by (simp add: task_new_def)
  ultimately show ?thesis by (auto simp: word_le_nat_alt)
qed

theorem task_attempt_budget_witness:
  "0 < def_max_attempts sample_definition \<and>
   task_run std_externs (task_new std_externs 1 7 None sample_definition [])
     [EvStart 0 7, EvFail 1 ''boom'' WhileBudgetLasts] sample_failed \<and>
   1 \<le> unat (attempt sample_failed) \<and> unat (attempt sample_failed) \<le> 5"
proof -
  have p: "0 < def_max_attempts sample_definition" by (simp add: sample_defs)
  have r: "task_run std_externs (task_new std_externs 1 7 None sample_definition [])
      [EvStart 0 7, EvFail 1 ''boom'' WhileBudgetLasts] sample_failed"
    using task_exec_run [of std_externs "[EvStart 0 7, EvFail 1 ''boom'' WhileBudgetLasts]" sample_task]
    by (simp add: sample_start sample_fail) (simp add: sample_task_def)
  have "unat (def_max_attempts sample_definition) = 5" by (simp add: sample_defs)
  with p r task_attempt_budget [OF p r] show ?thesis by simp
qed

lemma lifetime_kept_apply:
  "task_apply x ev t = Inr t' \<Longrightarrow> lifetime_deadline_at t = Some l \<Longrightarrow> lifetime_deadline_at t' = Some l"
  by (cases ev) (auto simp: task_transition_iffs unblock_def)

lemma lifetime_kept_run:
  "task_run x t0 evs t \<Longrightarrow> lifetime_deadline_at t0 = Some l \<Longrightarrow> lifetime_deadline_at t = Some l"
  by (induction rule: task_run.induct) (auto intro: lifetime_kept_apply)

lemma past_lifetime_refused:
  assumes "task_wf t" and "lifetime_deadline_at t = Some l" and "l < now"
  shows "\<not> is_ok (start x now w t)" and "\<not> is_ok (complete now out t)" and "\<not> is_ok (skip now r c t)"
proof -
  have ex: "is_lifetime_expired_at t now" using assms(2,3) by (simp add: is_lifetime_expired_at_def)
  have "task_status t \<noteq> Todo" "task_status t \<noteq> Blocked"
    using assms(1,2) by (auto simp: task_wf_def never_ran_def)
  with ex show "\<not> is_ok (start x now w t)" "\<not> is_ok (complete now out t)" "\<not> is_ok (skip now r c t)"
    by (auto simp: is_ok_iff task_transition_iffs availability_Pickable_iff
        is_terminally_failed_at_def is_failed_def)
qed

text \<open>C32. Absolute lifetime. The moment a task's lifetime expires is fixed by its first start: no later
  transition moves it, every deadline the task is given lies at or before it, and once it has
  passed the task is neither started nor taken over, and no result and no decision is stored.\<close>
theorem task_lifetime_absolute:
  assumes "task_wf t0" and "lifetime_deadline_at t0 = Some l" and "task_run x t0 evs t"
  shows "lifetime_deadline_at t = Some l \<and> (\<exists>d. deadline_at t = Some d \<and> d \<le> l) \<and>
    (\<forall>now > l. \<not> is_ok (start x now w t) \<and> \<not> is_ok (complete now out t) \<and> \<not> is_ok (skip now r c t))"
proof -
  have l: "lifetime_deadline_at t = Some l" using lifetime_kept_run assms(2,3) by metis
  have wf: "task_wf t" using task_wf_run assms(1,3) by metis
  then have "\<exists>d. deadline_at t = Some d \<and> d \<le> l"
    using l by (auto simp: task_wf_def never_ran_def has_run_def split: task_status.splits)
  with l past_lifetime_refused [OF wf l] show ?thesis by blast
qed

theorem task_lifetime_absolute_witness:
  "task_wf sample_started \<and> lifetime_deadline_at sample_started = Some (25 * 10 ^ 9) \<and>
   task_run std_externs sample_started [EvFail 1 ''boom'' WhileBudgetLasts] sample_failed \<and>
   \<not> is_ok (start std_externs (26 * 10 ^ 9) 8 sample_failed)"
proof -
  have l: "lifetime_deadline_at sample_started = Some (25 * 10 ^ 9)" by (simp add: sample_defs)
  have r: "task_run std_externs sample_started [EvFail 1 ''boom'' WhileBudgetLasts] sample_failed"
    by (rule task_exec_run) (simp add: sample_fail)
  have "\<forall>now > 25 * 10 ^ 9. \<not> is_ok (start std_externs now 8 sample_failed)"
    using task_lifetime_absolute [OF sample_wf(2) l r, of 8] by blast
  moreover have "(25 * 10 ^ 9 :: time) < 26 * 10 ^ 9" by simp
  ultimately show ?thesis using sample_wf(2) l r by blast
qed

definition is_terminal_at :: "task \<Rightarrow> time \<Rightarrow> bool" where
  "is_terminal_at t now \<longleftrightarrow> is_completed t \<or> is_skipped t \<or> is_terminally_failed_at t now"

text \<open>Terminal states are final. A task that completed, was skipped or failed for good at some moment
  is left as it is by every transition attempted at that moment or later: unblocking does nothing and
  every other transition is refused.\<close>
lemma terminal_task_final:
  assumes "is_terminal_at t now" and "\<And>m. event_time ev = Some m \<Longrightarrow> now \<le> m"
  shows "task_apply x ev t = Inr t \<or> \<not> is_ok (task_apply x ev t)"
proof (cases ev)
  case EvUnblock
  with assms(1) show ?thesis
    by (auto simp: is_terminal_at_def unblock_def is_completed_def is_skipped_def
        is_terminally_failed_at_def is_failed_def split: task_status.splits)
next
  case (EvStart m w)
  with assms(2) have "now \<le> m" by simp
  then have "check_availability_at x t m \<noteq> Pickable"
    using assms(1) terminally_failed_mono [of t now m]
    by (auto simp: is_terminal_at_def availability_Pickable_iff is_completed_def is_skipped_def
        is_terminally_failed_at_def is_failed_def split: task_status.splits)
  with EvStart show ?thesis by (auto simp: is_ok_iff start_Inr_iff)
next
  case (EvComplete m out)
  with assms(1) show ?thesis
    by (auto simp: is_terminal_at_def is_ok_iff complete_Inr_iff task_check_defs split: task_status.splits)
next
  case (EvSkip m r c)
  with assms(1) show ?thesis
    by (auto simp: is_terminal_at_def is_ok_iff skip_Inr_iff task_check_defs split: task_status.splits)
next
  case (EvFail m msg r)
  with assms(1) show ?thesis
    by (auto simp: is_terminal_at_def is_ok_iff fail_Inr_iff task_check_defs split: task_status.splits)
qed

end
