(* ===== verification/JM_Cycle.thy ===== *)
theory JM_Cycle
  imports JM_Prelude
begin

text \<open>
  \<^verbatim>\<open>JobDefinition::find_dependency_cycle\<close> of \<^verbatim>\<open>core/job.rs\<close>: the iterative depth-first search over the
  positions of a job description, its termination, and its correctness: it reports a position on a
  cycle, or the graph is acyclic.
\<close>

section \<open>The search\<close>

datatype visit = Unseen | OnStack | Visited

text \<open>
  What a search ends with. \<open>IndexPanic\<close> is the panic of an index out of range; the callers check
  every reference first.
\<close>

datatype 'a cycle_search = CycleAt nat | NoCycle 'a | IndexPanic

lemma count_list_upd_le: "y \<noteq> x \<Longrightarrow> count_list (xs[i := y]) x \<le> count_list xs x"
  by (induction xs arbitrary: i) (auto split: nat.splits)

lemma count_list_upd_less:
  "i < length xs \<Longrightarrow> xs ! i = x \<Longrightarrow> y \<noteq> x \<Longrightarrow> count_list (xs[i := y]) x < count_list xs x"
proof (induction xs arbitrary: i)
  case Nil
  then show ?case by simp
next
  case (Cons a xs)
  then show ?case by (cases i) auto
qed

lemma count_upd_cases:
  assumes "y \<noteq> x"
  shows "count_list (xs[i := y]) x < count_list xs x \<or> count_list (xs[i := y]) x = count_list xs x"
  using count_list_upd_le [OF assms, of xs i] by linarith

text \<open>
  The \<^verbatim>\<open>while let\<close> loop. The stack is a list with its top first; \<open>(position, next_edge)\<close> is
  popped, and pushed back with the next edge while there is one.
\<close>

function dfs_loop :: "nat list list \<Rightarrow> (nat \<times> nat) list \<Rightarrow> visit list \<Rightarrow> visit list cycle_search" where
  "dfs_loop g [] states = NoCycle states"
| "dfs_loop g ((position, next_edge) # stack) states =
     (if position \<ge> length g \<or> position \<ge> length states then IndexPanic
      else if next_edge < length (g ! position) then
        let dependency = g ! position ! next_edge in
        if dependency \<ge> length states then IndexPanic
        else case states ! dependency of
            OnStack \<Rightarrow> CycleAt dependency
          | Unseen \<Rightarrow> dfs_loop g ((dependency, 0) # (position, next_edge + 1) # stack)
                         (states[dependency := OnStack])
          | Visited \<Rightarrow> dfs_loop g ((position, next_edge + 1) # stack) states
      else dfs_loop g stack (states[position := Visited]))"
  by pat_completeness auto

termination
proof (relation "measures [\<lambda>(g, stack, states). count_list states Unseen,
    \<lambda>(g, stack, states). sum_list (map (\<lambda>(p, e). Suc (length (g ! p) - e)) stack)]", goal_cases)
  case 1
  then show ?case by simp
next
  case (2 g position next_edge stack states dependency)
  then show ?case by (simp add: count_list_upd_less)
next
  case (3 g position next_edge stack states dependency)
  then show ?case by auto
next
  case (4 g position next_edge stack states)
  have "visit.Visited \<noteq> Unseen" by simp
  from count_upd_cases [OF this, of states position] 4 show ?case by auto
qed

fun dfs_from :: "nat list list \<Rightarrow> nat list \<Rightarrow> visit list \<Rightarrow> visit list cycle_search" where
  "dfs_from g [] states = NoCycle states"
| "dfs_from g (root # roots) states =
     (if root \<ge> length states then IndexPanic
      else if states ! root \<noteq> Unseen then dfs_from g roots states
      else case dfs_loop g [(root, 0)] (states[root := OnStack]) of
          NoCycle states' \<Rightarrow> dfs_from g roots states'
        | CycleAt p \<Rightarrow> CycleAt p
        | IndexPanic \<Rightarrow> IndexPanic)"

definition find_dependency_cycle :: "nat list list \<Rightarrow> unit cycle_search" where
  "find_dependency_cycle g =
     (case dfs_from g [0..<length g] (replicate (length g) Unseen) of
        CycleAt p \<Rightarrow> CycleAt p | NoCycle _ \<Rightarrow> NoCycle () | IndexPanic \<Rightarrow> IndexPanic)"

section \<open>Correctness\<close>

definition graph_edges :: "nat list list \<Rightarrow> (nat \<times> nat) set" where
  "graph_edges g = {(p, d). p < length g \<and> d \<in> set (g ! p)}"

definition in_range :: "nat list list \<Rightarrow> bool" where
  "in_range g \<longleftrightarrow> (\<forall>ds \<in> set g. \<forall>d \<in> set ds. d < length g)"

text \<open>
  A rank that goes down along every edge leaving \<open>D\<close>, which \<open>D\<close> contains: the search keeps one for
  the positions it has finished with.
\<close>

definition ranked :: "(nat \<times> nat) set \<Rightarrow> nat set \<Rightarrow> bool" where
  "ranked E D \<longleftrightarrow> (\<exists>rank :: nat \<Rightarrow> nat. \<forall>u v. (u, v) \<in> E \<longrightarrow> u \<in> D \<longrightarrow> v \<in> D \<and> rank v < rank u)"

lemma ranked_insert:
  assumes "ranked E D" and "p \<notin> D" and "E `` {p} \<subseteq> D" and "finite (E `` {p})"
  shows "ranked E (insert p D)"
proof -
  from assms(1) obtain rank :: "nat \<Rightarrow> nat"
    where rank: "\<And>u v. (u, v) \<in> E \<Longrightarrow> u \<in> D \<Longrightarrow> v \<in> D \<and> rank v < rank u"
    by (auto simp: ranked_def)
  define top where "top = Suc (\<Sum>v \<in> E `` {p}. rank v)"
  have below: "rank v < top" if "(p, v) \<in> E" for v
    using member_le_sum [of v "E `` {p}" rank] assms(4) that by (auto simp: top_def less_Suc_eq_le)
  have "v \<in> insert p D \<and> (rank(p := top)) v < (rank(p := top)) u"
    if e: "(u, v) \<in> E" and u: "u \<in> insert p D" for u v
  proof (cases "u = p")
    case True
    with e assms(3) have "v \<in> D" by auto
    moreover from this assms(2) have "v \<noteq> p" by auto
    moreover have "rank v < top" using below e True by simp
    ultimately show ?thesis using True by simp
  next
    case False
    with u e rank have "v \<in> D" "rank v < rank u" by auto
    moreover from this assms(2) have "v \<noteq> p" by auto
    ultimately show ?thesis using False by simp
  qed
  then show ?thesis unfolding ranked_def by blast
qed

lemma ranked_acyclic:
  assumes "ranked E D" and "Domain E \<subseteq> D"
  shows "acyclic E"
proof -
  from assms(1) obtain rank :: "nat \<Rightarrow> nat"
    where rank: "\<And>u v. (u, v) \<in> E \<Longrightarrow> u \<in> D \<Longrightarrow> v \<in> D \<and> rank v < rank u"
    by (auto simp: ranked_def)
  have "E\<inverse> \<subseteq> measure rank" using rank assms(2) by (auto simp: Domain_iff subset_iff)
  then have "acyclic (E\<inverse>)" by (meson wf_acyclic wf_measure wf_subset)
  then show ?thesis by simp
qed

text \<open>
  The frames of the stack: every edge a frame has passed leads to a finished position, or to the
  position of the frame above it.
\<close>

fun frames_ok :: "nat list list \<Rightarrow> visit list \<Rightarrow> nat option \<Rightarrow> (nat \<times> nat) list \<Rightarrow> bool" where
  "frames_ok g st ab [] = True"
| "frames_ok g st ab ((p, e) # stack) =
     (p < length g \<and> e \<le> length (g ! p) \<and>
      (\<forall>i < e. st ! (g ! p ! i) = Visited \<or> ab = Some (g ! p ! i)) \<and>
      (case ab of None \<Rightarrow> True | Some a \<Rightarrow> a \<in> set (g ! p)) \<and>
      frames_ok g st (Some p) stack)"

definition dfs_inv :: "nat list list \<Rightarrow> (nat \<times> nat) list \<Rightarrow> visit list \<Rightarrow> bool" where
  "dfs_inv g stack st \<longleftrightarrow>
     in_range g \<and> length st = length g \<and> distinct (map fst stack) \<and>
     (\<forall>i < length g. st ! i = OnStack \<longleftrightarrow> i \<in> fst ` set stack) \<and>
     frames_ok g st None stack \<and>
     ranked (graph_edges g) {i. i < length g \<and> st ! i = Visited}"

lemma frames_ok_mono:
  assumes "frames_ok g st ab stack" and "\<And>i. st ! i = Visited \<Longrightarrow> st' ! i = Visited"
  shows "frames_ok g st' ab stack"
  using assms by (induction g st ab stack rule: frames_ok.induct) auto

lemma frames_ok_reaches:
  assumes "frames_ok g st (Some a) stack" and "q \<in> fst ` set stack"
  shows "(q, a) \<in> (graph_edges g)\<^sup>+"
  using assms
proof (induction stack arbitrary: a)
  case Nil
  then show ?case by simp
next
  case (Cons f stack)
  obtain p e where f: "f = (p, e)" by fastforce
  have edge: "(p, a) \<in> graph_edges g" using Cons.prems(1) f by (auto simp: graph_edges_def)
  show ?case
  proof (cases "q = p")
    case True
    with edge show ?thesis by auto
  next
    case False
    with Cons.prems f have "(q, p) \<in> (graph_edges g)\<^sup>+" using Cons.IH [of p] by auto
    from this edge show ?thesis by (rule trancl_into_trancl)
  qed
qed

lemma frames_ok_positions: "frames_ok g st ab stack \<Longrightarrow> q \<in> fst ` set stack \<Longrightarrow> q < length g"
  by (induction g st ab stack rule: frames_ok.induct) auto

lemma dfs_inv_advance:
  assumes "dfs_inv g ((p, e) # stack) st" and "e < length (g ! p)" and "st ! (g ! p ! e) = Visited"
  shows "dfs_inv g ((p, e + 1) # stack) st"
  using assms by (auto simp: dfs_inv_def less_Suc_eq)

lemma dfs_inv_push:
  assumes inv: "dfs_inv g ((p, e) # stack) st" and "e < length (g ! p)"
    and dep: "d = g ! p ! e" "d < length g" "st ! d = Unseen"
  shows "dfs_inv g ((d, 0) # (p, e + 1) # stack) (st[d := OnStack])"
proof -
  let ?st = "st[d := OnStack]"
  have len: "length st = length g" using inv by (simp add: dfs_inv_def)
  have same: "st ! i = Visited \<Longrightarrow> ?st ! i = Visited" for i
    using dep(3) by (cases "i = d") auto
  from inv have "\<forall>i < length g. st ! i = OnStack \<longleftrightarrow> i \<in> fst ` set ((p, e) # stack)" unfolding dfs_inv_def by (elim conjE)
  with dep(2) have "st ! d = OnStack \<longleftrightarrow> d \<in> fst ` set ((p, e) # stack)" by blast
  with dep(3) have fresh: "d \<notin> fst ` set ((p, e) # stack)" by simp
  have done_eq: "{i. i < length g \<and> ?st ! i = Visited} = {i. i < length g \<and> st ! i = Visited}"
    using dep len by (auto simp: nth_list_update split: if_splits)
  have "frames_ok g ?st None ((d, 0) # (p, e + 1) # stack)"
    using inv assms(2) dep(1,2) same frames_ok_mono [of g st "Some p" stack ?st]
    by (auto simp: dfs_inv_def less_Suc_eq)
  then show ?thesis
    using inv dep len fresh done_eq by (auto simp: dfs_inv_def nth_list_update)
qed

lemma dfs_inv_pop:
  assumes inv: "dfs_inv g ((p, e) # stack) st" and "\<not> e < length (g ! p)"
  shows "dfs_inv g stack (st[p := Visited])"
proof -
  let ?st = "st[p := Visited]"
  have p: "p < length g" "length st = length g" "e = length (g ! p)"
    using inv assms(2) by (auto simp: dfs_inv_def)
  have finished: "st ! d = Visited" if "d \<in> set (g ! p)" for d
    using inv p(3) that by (auto simp: dfs_inv_def in_set_conv_nth)
  have open_p: "st ! p = OnStack" using inv p by (simp add: dfs_inv_def)
  have same: "st ! i = Visited \<Longrightarrow> ?st ! i = Visited" for i
    using p by (cases "i = p") auto
  have succ: "graph_edges g `` {p} = set (g ! p)" using p by (auto simp: graph_edges_def)
  have range: "d < length g" if "d \<in> set (g ! p)" for d
    using inv that p(1) by (force simp: dfs_inv_def in_range_def)
  have "ranked (graph_edges g) (insert p {i. i < length g \<and> st ! i = Visited})"
    by (rule ranked_insert) (use inv open_p finished range succ in \<open>auto simp: dfs_inv_def\<close>)
  moreover have "{i. i < length g \<and> ?st ! i = Visited} = insert p {i. i < length g \<and> st ! i = Visited}"
    using p by (auto simp: nth_list_update split: if_splits)
  moreover have "frames_ok g ?st None stack"
  proof (cases stack)
    case Nil
    then show ?thesis by simp
  next
    case (Cons f rest)
    obtain q k where f: "f = (q, k)" by fastforce
    have "frames_ok g st (Some p) stack" using inv by (simp add: dfs_inv_def)
    then have "frames_ok g ?st (Some p) stack" using same by (rule frames_ok_mono)
    with Cons f p show ?thesis by auto
  qed
  moreover have "\<forall>i < length g. ?st ! i = OnStack \<longleftrightarrow> i \<in> fst ` set stack"
    using inv p by (auto simp: dfs_inv_def nth_list_update)
  ultimately show ?thesis using inv p by (simp add: dfs_inv_def)
qed

text \<open>The loop: it never panics, a reported position lies on a cycle, and otherwise the invariant is left
  with an empty stack and no position forgotten.\<close>

fun dfs_post :: "nat list list \<Rightarrow> visit list \<Rightarrow> visit list cycle_search \<Rightarrow> bool" where
  "dfs_post g st (CycleAt p) \<longleftrightarrow> (p, p) \<in> (graph_edges g)\<^sup>+"
| "dfs_post g st (NoCycle st') \<longleftrightarrow> dfs_inv g [] st' \<and> (\<forall>i. st ! i \<noteq> Unseen \<longrightarrow> st' ! i \<noteq> Unseen)"
| "dfs_post g st IndexPanic \<longleftrightarrow> False"

lemma dfs_post_mono:
  "dfs_post g st' r \<Longrightarrow> (\<And>i. st ! i \<noteq> Unseen \<Longrightarrow> st' ! i \<noteq> Unseen) \<Longrightarrow> dfs_post g st r"
  by (cases r) auto

lemma list_update_keeps_seen:
  "y \<noteq> Unseen \<Longrightarrow> st ! i \<noteq> Unseen \<Longrightarrow> st[k := y] ! i \<noteq> Unseen"
  by (metis list_update_beyond not_le nth_list_update_eq nth_list_update_neq)

lemma dfs_loop_correct: "dfs_inv g stack st \<Longrightarrow> dfs_post g st (dfs_loop g stack st)"
proof (induction g stack st rule: dfs_loop.induct)
  case (1 g st)
  then show ?case by simp
next
  case (2 g p e stack st)
  have range: "p < length g" "length st = length g" "in_range g"
    using "2.prems" by (auto simp: dfs_inv_def)
  then have pre: "\<not> (p \<ge> length g \<or> p \<ge> length st)" by simp
  show ?case
  proof (cases "e < length (g ! p)")
    case False
    have "dfs_post g (st[p := Visited]) (dfs_loop g stack (st[p := Visited]))"
      using "2.IH"(3) [OF pre False dfs_inv_pop [OF "2.prems" False]] .
    then have "dfs_post g st (dfs_loop g stack (st[p := Visited]))"
      by (rule dfs_post_mono) (simp add: list_update_keeps_seen)
    with pre False show ?thesis by simp
  next
    case True
    define d where "d = g ! p ! e"
    have d: "d < length g"
      using range(3) nth_mem [OF range(1)] nth_mem [OF True] by (auto simp: in_range_def d_def)
    then have din: "\<not> d \<ge> length st" using range by simp
    show ?thesis
    proof (cases "st ! d")
      case Unseen
      have "dfs_post g (st[d := OnStack])
          (dfs_loop g ((d, 0) # (p, e + 1) # stack) (st[d := OnStack]))"
        using "2.IH"(1) [OF pre True d_def din Unseen dfs_inv_push [OF "2.prems" True d_def d Unseen]] .
      then have "dfs_post g st (dfs_loop g ((d, 0) # (p, e + 1) # stack) (st[d := OnStack]))"
        by (rule dfs_post_mono) (simp add: list_update_keeps_seen)
      with pre True din Unseen show ?thesis by (simp add: d_def [symmetric])
    next
      case OnStack
      then have on: "d \<in> fst ` set ((p, e) # stack)" using "2.prems" d by (auto simp: dfs_inv_def)
      have edge: "(p, d) \<in> graph_edges g" using range True by (auto simp: graph_edges_def d_def)
      have "(d, d) \<in> (graph_edges g)\<^sup>+"
      proof (cases "d = p")
        case True
        with edge show ?thesis by auto
      next
        case False
        with on have "d \<in> fst ` set stack" by auto
        moreover have "frames_ok g st (Some p) stack" using "2.prems" by (simp add: dfs_inv_def)
        ultimately have "(d, p) \<in> (graph_edges g)\<^sup>+" by (simp add: frames_ok_reaches)
        with edge show ?thesis by (simp add: trancl_into_trancl)
      qed
      with pre True din OnStack show ?thesis by (simp add: d_def [symmetric])
    next
      case Visited
      have "dfs_inv g ((p, e + 1) # stack) st"
        using dfs_inv_advance [OF "2.prems" True] Visited by (simp add: d_def)
      with "2.IH"(2) [OF pre True d_def din Visited] pre True din Visited show ?thesis
        by (simp add: d_def [symmetric])
    qed
  qed
qed

lemma dfs_inv_root:
  assumes "dfs_inv g [] st" and "root < length g" and "st ! root = Unseen"
  shows "dfs_inv g [(root, 0)] (st[root := OnStack])"
proof -
  have "{i. i < length g \<and> st[root := OnStack] ! i = Visited} = {i. i < length g \<and> st ! i = Visited}"
    using assms by (auto simp: nth_list_update dfs_inv_def split: if_splits)
  with assms show ?thesis by (auto simp: dfs_inv_def nth_list_update)
qed

fun roots_post :: "nat list list \<Rightarrow> nat list \<Rightarrow> visit list \<Rightarrow> visit list cycle_search \<Rightarrow> bool" where
  "roots_post g roots st (CycleAt p) \<longleftrightarrow> (p, p) \<in> (graph_edges g)\<^sup>+"
| "roots_post g roots st (NoCycle st') \<longleftrightarrow>
     dfs_inv g [] st' \<and> (\<forall>i. st ! i \<noteq> Unseen \<or> i \<in> set roots \<longrightarrow> st' ! i \<noteq> Unseen)"
| "roots_post g roots st IndexPanic \<longleftrightarrow> False"

lemma roots_post_Cons:
  assumes "roots_post g roots st' res" and "\<And>i. st ! i \<noteq> Unseen \<or> i = r \<Longrightarrow> st' ! i \<noteq> Unseen"
  shows "roots_post g (r # roots) st res"
  using assms by (cases res) auto

lemma dfs_from_correct:
  "dfs_inv g [] st \<Longrightarrow> \<forall>r \<in> set roots. r < length g \<Longrightarrow> roots_post g roots st (dfs_from g roots st)"
proof (induction roots arbitrary: st)
  case Nil
  then show ?case by simp
next
  case (Cons r roots)
  have len: "r < length st" "r < length g" using Cons.prems by (auto simp: dfs_inv_def)
  show ?case
  proof (cases "st ! r = Unseen")
    case False
    then have "roots_post g (r # roots) st (dfs_from g roots st)"
      using Cons by (intro roots_post_Cons [of g roots st]) auto
    with False len show ?thesis by simp
  next
    case True
    have post: "dfs_post g (st[r := OnStack]) (dfs_loop g [(r, 0)] (st[r := OnStack]))"
      using dfs_loop_correct [OF dfs_inv_root [OF Cons.prems(1) len(2) True]] .
    show ?thesis
    proof (cases "dfs_loop g [(r, 0)] (st[r := OnStack])")
      case (CycleAt p)
      with post True len show ?thesis by simp
    next
      case IndexPanic
      with post show ?thesis by simp
    next
      case (NoCycle st')
      with post have st': "dfs_inv g [] st'" "\<And>i. st[r := OnStack] ! i \<noteq> Unseen \<Longrightarrow> st' ! i \<noteq> Unseen"
        by auto
      have keep: "st ! i \<noteq> Unseen \<or> i = r \<Longrightarrow> st' ! i \<noteq> Unseen" for i
        using st'(2) [of i] len by (cases "i = r") auto
      have "roots_post g roots st' (dfs_from g roots st')"
        using Cons.IH [OF st'(1)] Cons.prems(2) by simp
      then have "roots_post g (r # roots) st (dfs_from g roots st')"
        using keep by (rule roots_post_Cons)
      with True len NoCycle show ?thesis by simp
    qed
  qed
qed

lemma dfs_inv_initial: "in_range g \<Longrightarrow> dfs_inv g [] (replicate (length g) Unseen)"
  by (auto simp: dfs_inv_def ranked_def)

lemma dfs_inv_final:
  assumes "dfs_inv g [] st" and "\<And>i. i < length g \<Longrightarrow> st ! i \<noteq> Unseen"
  shows "ranked (graph_edges g) {..<length g}"
proof -
  have "{i. i < length g \<and> st ! i = Visited} = {..<length g}"
    using assms by (auto simp: dfs_inv_def) (metis visit.exhaust)
  with assms(1) show ?thesis by (simp add: dfs_inv_def)
qed

lemma find_dependency_cycle_cases:
  assumes "in_range g"
  shows "(\<exists>p. find_dependency_cycle g = CycleAt p \<and> (p, p) \<in> (graph_edges g)\<^sup>+) \<or>
    (find_dependency_cycle g = NoCycle () \<and> ranked (graph_edges g) {..<length g})"
proof (cases "dfs_from g [0..<length g] (replicate (length g) Unseen)")
  case (CycleAt p)
  with dfs_from_correct [OF dfs_inv_initial [OF assms], of "[0..<length g]"] show ?thesis
    by (auto simp: find_dependency_cycle_def)
next
  case IndexPanic
  with dfs_from_correct [OF dfs_inv_initial [OF assms], of "[0..<length g]"] show ?thesis
    by auto
next
  case (NoCycle st)
  with dfs_from_correct [OF dfs_inv_initial [OF assms], of "[0..<length g]"]
  have "dfs_inv g [] st" "\<And>i. i < length g \<Longrightarrow> st ! i \<noteq> Unseen" by auto
  with dfs_inv_final NoCycle show ?thesis by (auto simp: find_dependency_cycle_def)
qed

lemma not_acyclicI: "(p, p) \<in> E\<^sup>+ \<Longrightarrow> \<not> acyclic E"
  by (auto simp: acyclic_def)

lemma find_dependency_cycle_iff:
  assumes "in_range g"
  shows "find_dependency_cycle g = NoCycle () \<longleftrightarrow> acyclic (graph_edges g)"
  using find_dependency_cycle_cases [OF assms]
proof
  assume "\<exists>p. find_dependency_cycle g = CycleAt p \<and> (p, p) \<in> (graph_edges g)\<^sup>+"
  then show ?thesis using not_acyclicI by fastforce
next
  assume a: "find_dependency_cycle g = NoCycle () \<and> ranked (graph_edges g) {..<length g}"
  moreover have "Domain (graph_edges g) \<subseteq> {..<length g}" by (auto simp: graph_edges_def)
  ultimately show ?thesis using ranked_acyclic by blast
qed

text \<open>An acyclic graph has a rank, which is the one the search builds.\<close>

lemma acyclic_ranked:
  assumes "in_range g" and "acyclic (graph_edges g)"
  shows "ranked (graph_edges g) {..<length g}"
  using find_dependency_cycle_iff [OF assms(1)] find_dependency_cycle_cases [OF assms(1)] assms(2) by auto

text \<open>C30. Cycle detection. On every dependency graph whose references are in range, the search ends without an
  index panic; it answers that there is no cycle exactly when the graph is acyclic, and a position it
  reports lies on a cycle.\<close>
theorem find_dependency_cycle_correct:
  assumes "in_range g"
  shows "find_dependency_cycle g \<noteq> IndexPanic \<and>
    (find_dependency_cycle g = NoCycle () \<longleftrightarrow> acyclic (graph_edges g)) \<and>
    (\<forall>p. find_dependency_cycle g = CycleAt p \<longrightarrow> (p, p) \<in> (graph_edges g)\<^sup>+)"
  using find_dependency_cycle_iff [OF assms] find_dependency_cycle_cases [OF assms] by fastforce

theorem find_dependency_cycle_correct_witness:
  "in_range [[], [0], [1, 3], [2]] \<and> find_dependency_cycle [[], [0], [1, 3], [2]] = CycleAt 2 \<and>
   (2, 2) \<in> (graph_edges [[], [0], [1, 3], [2]])\<^sup>+"
proof -
  have r: "in_range [[], [0], [1, 3], [2]]" by (auto simp: in_range_def)
  have c: "find_dependency_cycle [[], [0], [1, 3], [2]] = CycleAt 2" by code_simp
  show ?thesis using r c find_dependency_cycle_correct [OF r] by simp
qed

end
