(* ===== verification/JM_Definition.thy ===== *)
theory JM_Definition
  imports JM_Task_Props JM_Errors JM_Cycle
begin

text \<open>
  \<^verbatim>\<open>JobDefinition\<close> of \<^verbatim>\<open>core/job.rs\<close>: assembling a job description from its initial tasks, runtime
  executors and declared dependencies, and the checks it passes. An executor is a shared pointer the
  sources only compare and copy (\<^verbatim>\<open>Arc::ptr_eq\<close>), so it is modelled by its identity.
\<close>

section \<open>Job descriptions\<close>

type_synonym job_code = string
type_synonym executor = nat

definition DEFAULT_ITERATION_RETENTION :: u64 where
  "DEFAULT_ITERATION_RETENTION = 100"

definition MIN_ITERATION_RETENTION :: u64 where
  "MIN_ITERATION_RETENTION = 5"

record job_definition =
  jd_code :: job_code
  initial_tasks :: "task_definition list"
  task_executors :: "(task_code \<times> executor) list"
  jd_max_iterations :: "u64 option"
  jd_iteration_interval :: "duration option"
  jd_task_limits :: task_limits
  iteration_retention :: u64

definition register_executor ::
  "task_code \<times> executor \<Rightarrow> (task_code \<times> executor) list \<Rightarrow> error + (task_code \<times> executor) list" where
  "register_executor = (\<lambda>(code, executor) executors_by_code.
     case map_of executors_by_code code of
       Some registered \<Rightarrow>
         if registered = executor then Inr executors_by_code
         else Inl (ErrOther ''job registers two different executors for task'')
     | None \<Rightarrow> Inr (AList.update code executor executors_by_code))"

fun resolve_initial_position :: "job_definition_id \<Rightarrow> nat \<Rightarrow> task_ref \<Rightarrow> error + nat" where
  "resolve_initial_position jid count (Initial job_definition position) =
     (if job_definition \<noteq> jid then Inl (ErrOther ''job declares a dependency on a task outside its own job'')
      else if position \<ge> count
        then Inl (ErrOther ''job declares a dependency on initial task position which it does not have'')
      else Inr position)"
| "resolve_initial_position jid count (Created created) =
     Inl (ErrOther ''job declares an initial task depending on task created at runtime'')"

definition extend_dependencies ::
  "job_definition_id \<Rightarrow> nat \<Rightarrow> task_ref \<times> task_ref list \<Rightarrow> task_ref list list \<Rightarrow> error + task_ref list list" where
  "extend_dependencies jid count = (\<lambda>(task, dependencies) by_position.
     bindR (resolve_initial_position jid count task)
       (\<lambda>p. Inr (by_position[p := by_position ! p @ dependencies])))"

definition merge_declared_dependencies ::
  "job_definition_id \<Rightarrow> task_definition list \<Rightarrow> (task_ref \<times> task_ref list) list \<Rightarrow> error + task_definition list" where
  "merge_declared_dependencies jid tasks declared =
     bindR (foldR (extend_dependencies jid (length tasks)) declared (map def_depends_on tasks))
       (\<lambda>by_position. Inr (map (\<lambda>(d, deps). if deps = def_depends_on d then d else with_dependencies deps d)
          (zip tasks by_position)))"

definition initial_positions :: "job_definition_id \<Rightarrow> nat \<Rightarrow> task_definition \<Rightarrow> error + nat list" where
  "initial_positions jid count d =
     (if \<not> is_declares_tolerance_valid d
        then Inl (ErrOther ''initial task: dependency tolerance without dependencies'')
      else mapR (resolve_initial_position jid count) (def_depends_on d))"

text \<open>The panic of an index out of range is an error of its own text; it is shown not to happen.\<close>

definition validate_initial_task_dependencies ::
  "job_definition_id \<Rightarrow> task_definition list \<Rightarrow> error + unit" where
  "validate_initial_task_dependencies jid tasks =
     bindR (mapR (initial_positions jid (length tasks)) tasks)
       (\<lambda>positions_by_task. case find_dependency_cycle positions_by_task of
            CycleAt position \<Rightarrow> Inl (ErrOther ''job has a dependency cycle'')
          | IndexPanic \<Rightarrow> Inl (ErrOther ''panic: index out of bounds'')
          | NoCycle _ \<Rightarrow> Inr ())"

definition check_and_register ::
  "externs \<Rightarrow> task_limits \<Rightarrow> task_definition \<times> executor \<Rightarrow> (task_code \<times> executor) list \<Rightarrow>
   error + (task_code \<times> executor) list" where
  "check_and_register x limits = (\<lambda>(d, executor) executors.
     bindR (map_err (\<lambda>e. ErrOther ''job initial task is invalid'') (validate x limits d))
       (\<lambda>_. register_executor (def_code d, executor) executors))"

definition job_definition_new ::
  "externs \<Rightarrow> job_definition_id \<Rightarrow> job_code \<Rightarrow> (task_definition \<times> executor) list \<Rightarrow>
   (task_code \<times> executor) list \<Rightarrow> (task_ref \<times> task_ref list) list \<Rightarrow> task_limits \<Rightarrow> error + job_definition" where
  "job_definition_new x jid code tasks runtime declared limits =
     (if tasks = [] then Inl (ErrOther ''job has no initial task'')
      else bindR (foldR (check_and_register x limits) tasks [])
       (\<lambda>executors. bindR (foldR register_executor runtime executors)
       (\<lambda>executors. bindR (merge_declared_dependencies jid (map fst tasks) declared)
       (\<lambda>definitions. bindR (validate_initial_task_dependencies jid definitions)
       (\<lambda>_. Inr \<lparr>jd_code = code, initial_tasks = definitions, task_executors = executors,
                  jd_max_iterations = None, jd_iteration_interval = None, jd_task_limits = limits,
                  iteration_retention = DEFAULT_ITERATION_RETENTION\<rparr>)))))"

definition calculate_retention_boundary :: "job_definition \<Rightarrow> u64 \<Rightarrow> u64 option" where
  "calculate_retention_boundary d iter_num =
     (if iter_num < iteration_retention d then None
      else if iter_num - iteration_retention d = 0 then None
      else Some (iter_num - iteration_retention d))"

definition with_max_iterations :: "u64 \<Rightarrow> job_definition \<Rightarrow> error + job_definition" where
  "with_max_iterations n d =
     (if n = 0 then Inl (ErrOther ''job max iterations must be positive'')
      else Inr (d\<lparr>jd_max_iterations := Some n\<rparr>))"

definition with_iteration_retention :: "u64 \<Rightarrow> job_definition \<Rightarrow> error + job_definition" where
  "with_iteration_retention n d =
     (if n < MIN_ITERATION_RETENTION then Inl (ErrOther ''job iteration retention must be at least 5'')
      else Inr (d\<lparr>iteration_retention := n\<rparr>))"

definition with_iteration_interval :: "externs \<Rightarrow> duration \<Rightarrow> job_definition \<Rightarrow> error + job_definition" where
  "with_iteration_interval x interval d =
     (if interval = 0 then Inl (ErrOther ''job iteration interval must be positive'')
      else if from_std x interval = None then Inl (ErrOther ''job iteration interval is too large'')
      else Inr (d\<lparr>jd_iteration_interval := Some interval\<rparr>))"

section \<open>What a description that exists satisfies\<close>

text \<open>The positions a task's references name, read without the checks.\<close>

fun ref_position :: "task_ref \<Rightarrow> nat" where
  "ref_position (Initial _ p) = p"
| "ref_position (Created _) = 0"

definition position_graph :: "task_definition list \<Rightarrow> nat list list" where
  "position_graph ds = map (\<lambda>d. map ref_position (def_depends_on d)) ds"

definition refs_ok :: "job_definition_id \<Rightarrow> task_definition list \<Rightarrow> bool" where
  "refs_ok jid ds \<longleftrightarrow> (\<forall>d \<in> set ds. \<forall>r \<in> set (def_depends_on d). \<exists>p < length ds. r = Initial jid p)"

definition dependencies_ok :: "job_definition_id \<Rightarrow> task_definition list \<Rightarrow> bool" where
  "dependencies_ok jid ds \<longleftrightarrow>
     refs_ok jid ds \<and> (\<forall>d \<in> set ds. is_declares_tolerance_valid d) \<and> acyclic (graph_edges (position_graph ds))"

definition consistent_executors :: "(task_code \<times> executor) list \<Rightarrow> bool" where
  "consistent_executors es \<longleftrightarrow> (\<forall>c e e'. (c, e) \<in> set es \<longrightarrow> (c, e') \<in> set es \<longrightarrow> e = e')"

lemma resolve_initial_position_Inr_iff:
  "resolve_initial_position jid n r = Inr p \<longleftrightarrow> r = Initial jid p \<and> p < n"
  by (cases r) auto

lemma resolve_initial_position_ok_iff:
  "is_ok (resolve_initial_position jid n r) \<longleftrightarrow> (\<exists>p < n. r = Initial jid p)"
  by (auto simp: is_ok_iff resolve_initial_position_Inr_iff)

lemma mapR_positions:
  "mapR (resolve_initial_position jid n) rs = Inr ps \<longleftrightarrow>
     (\<forall>r \<in> set rs. \<exists>p < n. r = Initial jid p) \<and> ps = map ref_position rs"
proof (induction rs arbitrary: ps)
  case Nil
  then show ?case by auto
next
  case (Cons r rs)
  have "mapR (resolve_initial_position jid n) (r # rs) = Inr ps \<longleftrightarrow>
      (\<exists>p qs. r = Initial jid p \<and> p < n \<and> mapR (resolve_initial_position jid n) rs = Inr qs \<and> ps = p # qs)"
    by (auto simp: resolve_initial_position_Inr_iff)
  then show ?case unfolding Cons.IH by auto
qed

lemma mapR_initial_positions:
  "mapR (initial_positions jid n) ds = Inr g \<longleftrightarrow>
     (\<forall>d \<in> set ds. is_declares_tolerance_valid d \<and>
        (\<forall>r \<in> set (def_depends_on d). \<exists>p < n. r = Initial jid p)) \<and>
     g = position_graph ds"
proof (induction ds arbitrary: g)
  case Nil
  then show ?case by (auto simp: position_graph_def)
next
  case (Cons d ds)
  have "initial_positions jid n d = Inr ps \<longleftrightarrow>
      is_declares_tolerance_valid d \<and> (\<forall>r \<in> set (def_depends_on d). \<exists>p < n. r = Initial jid p) \<and>
      ps = map ref_position (def_depends_on d)" for ps
    by (simp add: initial_positions_def mapR_positions)
  then have "mapR (initial_positions jid n) (d # ds) = Inr g \<longleftrightarrow>
      is_declares_tolerance_valid d \<and> (\<forall>r \<in> set (def_depends_on d). \<exists>p < n. r = Initial jid p) \<and>
      (\<exists>gs. mapR (initial_positions jid n) ds = Inr gs \<and> g = map ref_position (def_depends_on d) # gs)"
    by auto
  then show ?case unfolding Cons.IH by (simp add: position_graph_def)
qed

lemma refs_in_range: "refs_ok jid ds \<Longrightarrow> in_range (position_graph ds)"
  by (fastforce simp: refs_ok_def in_range_def position_graph_def)

lemma validate_initial_task_dependencies_iff:
  "validate_initial_task_dependencies jid ds = Inr () \<longleftrightarrow> dependencies_ok jid ds"
proof -
  let ?g = "position_graph ds"
  have "validate_initial_task_dependencies jid ds = Inr () \<longleftrightarrow>
      refs_ok jid ds \<and> (\<forall>d \<in> set ds. is_declares_tolerance_valid d) \<and> find_dependency_cycle ?g = NoCycle ()"
    by (auto simp: validate_initial_task_dependencies_def mapR_initial_positions refs_ok_def
        split: cycle_search.splits)
  moreover have "find_dependency_cycle ?g = NoCycle () \<longleftrightarrow> acyclic (graph_edges ?g)" if "refs_ok jid ds"
    using find_dependency_cycle_iff [OF refs_in_range [OF that]] .
  ultimately show ?thesis unfolding dependencies_ok_def by blast
qed

lemma foldR_check_and_register:
  "foldR (check_and_register x limits) tasks acc = Inr out \<longleftrightarrow>
     (\<forall>(d, e) \<in> set tasks. validate x limits d = Inr ()) \<and>
     foldR register_executor (map (\<lambda>(d, e). (def_code d, e)) tasks) acc = Inr out"
  by (induction tasks arbitrary: acc) (auto simp: check_and_register_def)

lemma register_executor_Inr:
  assumes "distinct (map fst acc)" and "register_executor (c, e) acc = Inr out"
  shows "distinct (map fst out) \<and> set out = insert (c, e) (set acc)"
proof (cases "map_of acc c")
  case None
  then have "c \<notin> fst ` set acc" by (simp add: map_of_eq_None_iff)
  moreover from None assms(2) have "out = AList.update c e acc" by (simp add: register_executor_def)
  ultimately show ?thesis using assms(1) by (auto simp: set_update_distinct rev_image_eqI)
next
  case (Some e')
  with assms(2) have "e' = e" "out = acc" by (auto simp: register_executor_def split: if_splits)
  with Some assms(1) show ?thesis by (auto dest: map_of_SomeD)
qed

lemma register_executor_ok_iff:
  assumes "distinct (map fst acc)"
  shows "is_ok (register_executor (c, e) acc) \<longleftrightarrow> (\<forall>e'. (c, e') \<in> set acc \<longrightarrow> e' = e)"
  by (cases "map_of acc c") (auto simp: in_set_iff_map_of [OF assms] register_executor_def)

lemma foldR_register:
  assumes "distinct (map fst acc)"
  shows "(\<forall>out. foldR register_executor es acc = Inr out \<longrightarrow> distinct (map fst out) \<and> set out = set acc \<union> set es) \<and>
    (is_ok (foldR register_executor es acc) \<longleftrightarrow> consistent_executors (acc @ es))"
  using assms
proof (induction es arbitrary: acc)
  case Nil
  then show ?case by (auto simp: consistent_executors_def dest: eq_key_imp_eq_value)
next
  case (Cons p es)
  obtain c e where p: "p = (c, e)" by fastforce
  show ?case
  proof (cases "register_executor (c, e) acc")
    case (Inl err)
    then have "\<not> consistent_executors (acc @ p # es)"
      using register_executor_ok_iff [OF Cons.prems, of c e]
      by (auto simp: p consistent_executors_def is_ok_iff)
    with Inl show ?thesis by (simp add: p)
  next
    case (Inr acc')
    from register_executor_Inr [OF Cons.prems Inr] have a: "distinct (map fst acc')"
      and s: "set acc' = insert (c, e) (set acc)" by auto
    have "consistent_executors (acc' @ es) \<longleftrightarrow> consistent_executors (acc @ p # es)"
      using s by (auto simp: p consistent_executors_def)
    with Cons.IH [OF a] Inr s show ?thesis by (simp add: p)
  qed
qed

lemmas foldR_register_ok_iff = foldR_register [THEN conjunct2]
lemmas foldR_register_set = foldR_register [THEN conjunct1, rule_format]

text \<open>What the declarations add to the references of the task at a position.\<close>

definition declared_for :: "job_definition_id \<Rightarrow> (task_ref \<times> task_ref list) list \<Rightarrow> nat \<Rightarrow> task_ref list" where
  "declared_for jid declared p = concat (map snd (filter (\<lambda>(t, _). t = Initial jid p) declared))"

definition merged_definitions ::
  "job_definition_id \<Rightarrow> task_definition list \<Rightarrow> (task_ref \<times> task_ref list) list \<Rightarrow> task_definition list" where
  "merged_definitions jid ds declared =
     map (\<lambda>p. with_dependencies (def_depends_on (ds ! p) @ declared_for jid declared p) (ds ! p))
       [0..<length ds]"

definition declarations_ok :: "job_definition_id \<Rightarrow> nat \<Rightarrow> (task_ref \<times> task_ref list) list \<Rightarrow> bool" where
  "declarations_ok jid n declared \<longleftrightarrow> (\<forall>(t, _) \<in> set declared. \<exists>p < n. t = Initial jid p)"

lemma foldR_extend_dependencies:
  assumes "length acc = n"
  shows "foldR (extend_dependencies jid n) declared acc = Inr out \<longleftrightarrow>
    declarations_ok jid n declared \<and> out = map (\<lambda>p. acc ! p @ declared_for jid declared p) [0..<n]"
  using assms
proof (induction declared arbitrary: acc)
  case Nil
  then show ?case by (auto simp: declarations_ok_def declared_for_def map_nth)
next
  case (Cons td declared)
  obtain t deps where td: "td = (t, deps)" by fastforce
  show ?case
  proof (cases "\<exists>p < n. t = Initial jid p")
    case False
    then have "\<not> is_ok (resolve_initial_position jid n t)" by (simp add: resolve_initial_position_ok_iff)
    then have "\<not> is_ok (extend_dependencies jid n td acc)"
      by (cases "resolve_initial_position jid n t") (auto simp: extend_dependencies_def td)
    then have "foldR (extend_dependencies jid n) (td # declared) acc \<noteq> Inr out"
      by (auto simp: is_ok_iff)
    with False show ?thesis by (auto simp: declarations_ok_def td)
  next
    case True
    then obtain p where p: "p < n" "t = Initial jid p" by auto
    let ?acc = "acc[p := acc ! p @ deps]"
    have "map (\<lambda>q. ?acc ! q @ declared_for jid declared q) [0..<n] =
        map (\<lambda>q. acc ! q @ declared_for jid (td # declared) q) [0..<n]"
      using p Cons.prems by (auto simp: declared_for_def td nth_list_update)
    moreover have "declarations_ok jid n (td # declared) = declarations_ok jid n declared"
      using p by (auto simp: declarations_ok_def td)
    moreover have "foldR (extend_dependencies jid n) (td # declared) acc =
        foldR (extend_dependencies jid n) declared ?acc"
      using p by (simp add: extend_dependencies_def td)
    moreover have "length ?acc = n" using Cons.prems by simp
    ultimately show ?thesis using Cons.IH [of ?acc] by metis
  qed
qed

lemma with_dependencies_same: "with_dependencies (def_depends_on d) d = d"
  by (simp add: with_dependencies_def)

lemma merge_declared_dependencies_Inr_iff:
  "merge_declared_dependencies jid ds declared = Inr out \<longleftrightarrow>
     declarations_ok jid (length ds) declared \<and> out = merged_definitions jid ds declared"
proof -
  let ?deps = "map (\<lambda>p. def_depends_on (ds ! p) @ declared_for jid declared p) [0..<length ds]"
  have "map (\<lambda>(d, deps). if deps = def_depends_on d then d else with_dependencies deps d) (zip ds ?deps) =
      merged_definitions jid ds declared"
    by (rule nth_equalityI) (auto simp: merged_definitions_def with_dependencies_same)
  moreover have "map (\<lambda>p. map def_depends_on ds ! p @ declared_for jid declared p) [0..<length ds] = ?deps"
    by simp
  moreover have "foldR (extend_dependencies jid (length ds)) declared (map def_depends_on ds) = Inr bp \<longleftrightarrow>
      declarations_ok jid (length ds) declared \<and>
      bp = map (\<lambda>p. map def_depends_on ds ! p @ declared_for jid declared p) [0..<length ds]" for bp
    by (rule foldR_extend_dependencies) simp
  ultimately show ?thesis
    unfolding merge_declared_dependencies_def bindR_Inr_iff sum.inject by (simp only:) blast
qed

text \<open>What a description is accepted for, said without the order the checks are made in.\<close>

definition description_ok ::
  "externs \<Rightarrow> job_definition_id \<Rightarrow> (task_definition \<times> executor) list \<Rightarrow> (task_code \<times> executor) list \<Rightarrow>
   (task_ref \<times> task_ref list) list \<Rightarrow> task_limits \<Rightarrow> bool" where
  "description_ok x jid tasks runtime declared limits \<longleftrightarrow>
     tasks \<noteq> [] \<and>
     (\<forall>(d, e) \<in> set tasks. validate x limits d = Inr ()) \<and>
     consistent_executors (map (\<lambda>(d, e). (def_code d, e)) tasks @ runtime) \<and>
     declarations_ok jid (length tasks) declared \<and>
     dependencies_ok jid (merged_definitions jid (map fst tasks) declared)"

lemma job_definition_new_Inr_iff:
  "job_definition_new x jid code tasks runtime declared limits = Inr jd \<longleftrightarrow>
     tasks \<noteq> [] \<and> (\<forall>(d, e) \<in> set tasks. validate x limits d = Inr ()) \<and>
     declarations_ok jid (length tasks) declared \<and>
     dependencies_ok jid (merged_definitions jid (map fst tasks) declared) \<and>
     (\<exists>es. foldR register_executor (map (\<lambda>(d, e). (def_code d, e)) tasks @ runtime) [] = Inr es \<and>
        jd = \<lparr>jd_code = code, initial_tasks = merged_definitions jid (map fst tasks) declared,
              task_executors = es, jd_max_iterations = None, jd_iteration_interval = None,
              jd_task_limits = limits, iteration_retention = DEFAULT_ITERATION_RETENTION\<rparr>)"
proof (cases "tasks = []")
  case True
  then show ?thesis by (simp add: job_definition_new_def)
next
  case False
  have e: "(\<exists>es. foldR (check_and_register x limits) tasks [] = Inr es \<and> foldR register_executor runtime es = Inr out) \<longleftrightarrow>
      (\<forall>(d, e) \<in> set tasks. validate x limits d = Inr ()) \<and>
      foldR register_executor (map (\<lambda>(d, e). (def_code d, e)) tasks @ runtime) [] = Inr out" for out
    by (simp only: foldR_append bindR_Inr_iff foldR_check_and_register) blast
  have "job_definition_new x jid code tasks runtime declared limits = Inr jd \<longleftrightarrow>
      (\<exists>out. (\<exists>es. foldR (check_and_register x limits) tasks [] = Inr es \<and> foldR register_executor runtime es = Inr out) \<and>
        declarations_ok jid (length tasks) declared \<and>
        dependencies_ok jid (merged_definitions jid (map fst tasks) declared) \<and>
        jd = \<lparr>jd_code = code, initial_tasks = merged_definitions jid (map fst tasks) declared,
              task_executors = out, jd_max_iterations = None, jd_iteration_interval = None,
              jd_task_limits = limits, iteration_retention = DEFAULT_ITERATION_RETENTION\<rparr>)"
    using False
    by (simp add: job_definition_new_def merge_declared_dependencies_Inr_iff
        validate_initial_task_dependencies_iff) blast
  with False show ?thesis unfolding e by blast
qed

lemma job_definition_new_ok_iff:
  "is_ok (job_definition_new x jid code tasks runtime declared limits) \<longleftrightarrow> description_ok x jid tasks runtime declared limits"
  using foldR_register_ok_iff [of "[]" "map (\<lambda>(d, e). (def_code d, e)) tasks @ runtime"]
  unfolding is_ok_iff job_definition_new_Inr_iff description_ok_def by simp blast

text \<open>Job descriptions. A description is accepted exactly when it has an initial task, each of its tasks passes its
  own checks, no task code is bound to two executors, every declared dependency names a task of the
  description, every tolerance comes with a dependency and the dependencies form no cycle; and an
  accepted description holds each task with the union of the references its definition and the
  declarations carry, and exactly the executors that were registered.\<close>
lemma job_definition_new_accepts:
  "(is_ok (job_definition_new x jid code tasks runtime declared limits) =
     description_ok x jid tasks runtime declared limits) \<and>
   (\<forall>jd. job_definition_new x jid code tasks runtime declared limits = Inr jd \<longrightarrow>
     initial_tasks jd = merged_definitions jid (map fst tasks) declared \<and>
     distinct (map fst (task_executors jd)) \<and>
     set (task_executors jd) = set (map (\<lambda>(d, e). (def_code d, e)) tasks) \<union> set runtime)"
proof -
  let ?es = "map (\<lambda>(d, e). (def_code d, e)) tasks @ runtime"
  have b: "foldR register_executor ?es [] = Inr out \<Longrightarrow> distinct (map fst out) \<and> set out = set ?es" for out
    using foldR_register_set [of "[]" ?es out] by simp
  show ?thesis
  proof (intro conjI allI impI)
    show "is_ok (job_definition_new x jid code tasks runtime declared limits) =
        description_ok x jid tasks runtime declared limits"
      by (rule job_definition_new_ok_iff)
  next
    fix jd assume "job_definition_new x jid code tasks runtime declared limits = Inr jd"
    then obtain es where es: "foldR register_executor ?es [] = Inr es" "task_executors jd = es"
      and i: "initial_tasks jd = merged_definitions jid (map fst tasks) declared"
      unfolding job_definition_new_Inr_iff by auto
    show "initial_tasks jd = merged_definitions jid (map fst tasks) declared" by (rule i)
    show "distinct (map fst (task_executors jd))" using b [OF es(1)] es(2) by simp
    show "set (task_executors jd) = set (map (\<lambda>(d, e). (def_code d, e)) tasks) \<union> set runtime"
      using b [OF es(1)] es(2) by simp
  qed
qed

text \<open>A description for evaluation: two tasks of one code, the second declared to wait for the first.\<close>

definition sample_tasks :: "(task_definition \<times> executor) list" where
  "sample_tasks = [(sample_definition, 7), (sample_definition, 7)]"

definition sample_declared :: "(task_ref \<times> task_ref list) list" where
  "sample_declared = [(Initial 1 1, [Initial 1 0])]"

definition sample_jd :: job_definition where
  "sample_jd = \<lparr>jd_code = ''job'',
     initial_tasks = [sample_definition, with_dependencies [Initial 1 0] sample_definition],
     task_executors = [(''task'', 7)], jd_max_iterations = None, jd_iteration_interval = None,
     jd_task_limits = task_limits_default, iteration_retention = DEFAULT_ITERATION_RETENTION\<rparr>"

lemma sample_acyclic: "find_dependency_cycle [[], [0]] = NoCycle ()"
  by code_simp

lemma sample_valid: "validate std_externs task_limits_default sample_definition = Inr ()"
  by (simp add: validate_def sample_defs task_limits_default_def)

lemma sample_depends: "def_depends_on sample_definition = []" "def_code sample_definition = ''task''"
  "def_tolerance sample_definition = tolerance_default"
  by (simp_all add: sample_definition_def task_definition_new_def)

lemma sample_jd_new:
  "job_definition_new std_externs 1 ''job'' sample_tasks [] sample_declared task_limits_default = Inr sample_jd"
  by (simp add: job_definition_new_def sample_tasks_def sample_declared_def sample_jd_def check_and_register_def
      sample_valid register_executor_def merge_declared_dependencies_def extend_dependencies_def
      validate_initial_task_dependencies_def initial_positions_def is_declares_tolerance_valid_def
      sample_depends tolerance_default_def is_declared_def with_dependencies_def sample_acyclic)

end
