(* ===== verification/JM_Job.thy ===== *)
theory JM_Job
  imports JM_Definition
begin

text \<open>
  \<^verbatim>\<open>Job\<close> of \<^verbatim>\<open>core/job.rs\<close>: the state of one job iteration and every operation on it. The map
  \<^verbatim>\<open>tasks_by_id\<close> is an association list whose order is the order the map is visited in. A method on
  \<^verbatim>\<open>&mut self\<close> that can fail is a function to the state it leaves and its result. The readings of
  the clock are a parameter: \<open>read c n\<close> is the \<open>n\<close>-th reading an operation makes itself, and
  \<open>stamp c i\<close> the reading made inside the transition of task \<open>i\<close>. Freshly minted identifiers are
  parameters too.
\<close>

section \<open>State\<close>

record job =
  job_id :: uuid
  job_code :: job_code
  iter_num :: u64
  job_status :: job_status
  tasks_by_id :: "(uuid \<times> task) list"
  updated_by_worker_id :: uuid
  started_at :: time
  running_at :: "time option"
  completed_at :: "time option"
  next_start_at :: "time option"
  metadata :: "(string \<times> json_value) list"
  version :: string
  max_iterations :: "u64 option"
  iteration_interval :: "duration option"
  job_limits :: task_limits

record clock =
  read :: "nat \<Rightarrow> time"
  stamp :: "uuid \<Rightarrow> time"

text \<open>The readings of a later part of an operation.\<close>

definition later :: "nat \<Rightarrow> clock \<Rightarrow> clock" where
  "later n c = c\<lparr>read := (\<lambda>i. read c (n + i))\<rparr>"

type_synonym 'a job_op = "(job, job_error, 'a) sresult"

section \<open>Access to tasks\<close>

definition get_task_arc :: "uuid \<Rightarrow> job \<Rightarrow> job_error + task" where
  "get_task_arc i j = (case map_of (tasks_by_id j) i of Some t \<Rightarrow> Inr t | None \<Rightarrow> Inl TaskNotFound)"

abbreviation find_task :: "uuid \<Rightarrow> job \<Rightarrow> job_error + task" where
  "find_task \<equiv> get_task_arc"

definition put_task :: "uuid \<Rightarrow> task \<Rightarrow> job \<Rightarrow> job" where
  "put_task i t j = j\<lparr>tasks_by_id := AList.update i t (tasks_by_id j)\<rparr>"

text \<open>\<^verbatim>\<open>get_task_arc_mut\<close>, \<^verbatim>\<open>Arc::make_mut\<close> and a transition of the task: the task is written where the
  transition succeeds.\<close>

definition with_task :: "uuid \<Rightarrow> (task \<Rightarrow> job_error + task) \<Rightarrow> unit job_op" where
  "with_task i f j = (case get_task_arc i j of
      Inl e \<Rightarrow> (j, Inl e)
    | Inr t \<Rightarrow> (case f t of Inl e \<Rightarrow> (j, Inl e) | Inr t' \<Rightarrow> (put_task i t' j, Inr ())))"

definition tasks_as_iter :: "job \<Rightarrow> task list" where
  "tasks_as_iter j = map snd (tasks_by_id j)"

definition check_task_owner :: "task \<Rightarrow> uuid \<Rightarrow> job_error + unit" where
  "check_task_owner t worker =
     (case processing_by_worker t of
        Some owner \<Rightarrow> if owner \<noteq> worker then Inl TaskWorkerMismatch else Inr ()
      | None \<Rightarrow> Inr ())"

definition check_task_stolen :: "uuid \<Rightarrow> uuid \<Rightarrow> job \<Rightarrow> job_error + unit" where
  "check_task_stolen i worker j = bindR (get_task_arc i j) (\<lambda>t. check_task_owner t worker)"

definition get_tasks_by_code :: "task_code \<Rightarrow> job \<Rightarrow> task list" where
  "get_tasks_by_code c j = filter (\<lambda>t. task_code t = c) (tasks_as_iter j)"

definition all_tasks_resolved :: "job \<Rightarrow> bool" where
  "all_tasks_resolved j \<longleftrightarrow> tasks_by_id j \<noteq> [] \<and> (\<forall>t \<in> set (tasks_as_iter j). is_resolved t)"

definition has_started_task :: "job \<Rightarrow> bool" where
  "has_started_task j \<longleftrightarrow> (\<exists>t \<in> set (tasks_as_iter j). task_status t = Started)"

definition task_summary :: "externs \<Rightarrow> uuid \<times> task \<Rightarrow> string" where
  "task_summary x = (\<lambda>(i, t). ''id: '' @ show_uuid x i @ ''; code: '' @ task_code t @ ''; status: '' @
     task_status_display (task_status t) @ ''; '')"

definition tasks_as_string :: "externs \<Rightarrow> job \<Rightarrow> string" where
  "tasks_as_string x j = concat (map (task_summary x) (take 4 (tasks_by_id j))) @
     (if length (tasks_by_id j) > 3 then ''...'' else [])"

section \<open>Creation\<close>

fun resolve_initial_dependency :: "uuid list \<Rightarrow> task_ref \<Rightarrow> job_error + uuid" where
  "resolve_initial_dependency ids (Initial _ position) =
     (if position < length ids then Inr (ids ! position)
      else Inl (JobOther ''dependency reference is out of range''))"
| "resolve_initial_dependency ids (Created _) =
     Inl (JobOther ''initial task cannot depend on task created at runtime'')"

definition insert_initial_task ::
  "externs \<Rightarrow> uuid \<Rightarrow> uuid list \<Rightarrow> nat \<times> task_definition \<Rightarrow> (uuid \<times> task) list \<Rightarrow> job_error + (uuid \<times> task) list" where
  "insert_initial_task x worker ids = (\<lambda>(position, d) tasks.
     bindR (mapR (resolve_initial_dependency ids) (def_depends_on d)) (\<lambda>resolved.
       if position < length ids
       then Inr (AList.update (ids ! position) (task_new x (ids ! position) worker None d resolved) tasks)
       else Inl (JobOther ''initial task has no identifier'')))"

text \<open>\<open>fresh n\<close> is the identifier minted for the initial task at position \<open>n\<close>.\<close>

definition job_new ::
  "externs \<Rightarrow> time \<Rightarrow> uuid \<Rightarrow> (nat \<Rightarrow> uuid) \<Rightarrow> job_definition \<Rightarrow> (string \<times> json_value) list \<Rightarrow> uuid \<Rightarrow>
   job_error + job" where
  "job_new x now new_id fresh jd meta worker =
     (let defs = initial_tasks jd; ids_by_position = map fresh [0..<length defs] in
      bindR (foldR (insert_initial_task x worker ids_by_position) (enumerate 0 defs) [])
        (\<lambda>tasks. Inr \<lparr>job_id = new_id, job_code = jd_code jd, iter_num = 1, job_status = JobStarted,
           tasks_by_id = tasks, updated_by_worker_id = worker, started_at = now, running_at = None,
           completed_at = None, next_start_at = None, metadata = meta, version = [],
           max_iterations = jd_max_iterations jd, iteration_interval = jd_iteration_interval jd,
           job_limits = jd_task_limits jd\<rparr>))"

definition restore ::
  "uuid \<Rightarrow> job_code \<Rightarrow> string \<Rightarrow> u64 \<Rightarrow> job_status \<Rightarrow> task list \<Rightarrow> uuid \<Rightarrow> time \<Rightarrow> time option \<Rightarrow> time option \<Rightarrow>
   time option \<Rightarrow> (string \<times> json_value) list \<Rightarrow> u64 option \<Rightarrow> duration option \<Rightarrow> task_limits \<Rightarrow> job" where
  "restore i code ver iter status tasks updated_by started running done next meta max_iter interval limits =
     \<lparr>job_id = i, job_code = code, iter_num = iter, job_status = status,
      tasks_by_id = fold (\<lambda>t m. AList.update (task_id t) t m) tasks [],
      updated_by_worker_id = updated_by, started_at = started, running_at = running,
      completed_at = done, next_start_at = next, metadata = meta, version = ver,
      max_iterations = max_iter, iteration_interval = interval, job_limits = limits\<rparr>"

section \<open>The state of an iteration and the next one\<close>

definition iteration_verdict :: "job \<Rightarrow> iteration_verdict option" where
  "iteration_verdict j = (case job_status j of
      JobCompleted \<Rightarrow> Some IterationCompleted
    | JobFailed \<Rightarrow> Some IterationFailed
    | JobStarted \<Rightarrow> None | JobRunning \<Rightarrow> None)"

definition is_processed :: "job \<Rightarrow> bool" where
  "is_processed j \<longleftrightarrow> iteration_verdict j \<noteq> None"

definition is_ready_for_processing :: "job \<Rightarrow> bool" where
  "is_ready_for_processing j \<longleftrightarrow> job_status j = JobStarted \<or> job_status j = JobRunning"

definition is_iteration_limit_reached :: "job \<Rightarrow> bool" where
  "is_iteration_limit_reached j \<longleftrightarrow>
     (case max_iterations j of Some m \<Rightarrow> iter_num j \<ge> m | None \<Rightarrow> False)"

definition next_iteration_start_at :: "externs \<Rightarrow> job \<Rightarrow> time option" where
  "next_iteration_start_at x j =
     (if \<not> is_processed j \<or> is_iteration_limit_reached j then None
      else case next_start_at j of
          Some at \<Rightarrow> Some at
        | None \<Rightarrow> (case iteration_interval j of
              None \<Rightarrow> Some (started_at j)
            | Some interval \<Rightarrow>
                Option.bind (from_std x interval) (\<lambda>d. checked_add_signed x (started_at j) d)))"

definition find_iteration_status :: "externs \<Rightarrow> time \<Rightarrow> job \<Rightarrow> iteration_status" where
  "find_iteration_status x now j =
     (if \<not> is_processed j then InProgress
      else if is_iteration_limit_reached j then Closed BudgetSpent
      else Closed (case next_iteration_start_at x j of
          Some due \<Rightarrow> if now \<ge> due then Ready else DueAt due
        | None \<Rightarrow> Unscheduled))"

definition is_ready_to_next_iteration :: "externs \<Rightarrow> time \<Rightarrow> job \<Rightarrow> bool" where
  "is_ready_to_next_iteration x now j \<longleftrightarrow> find_iteration_status x now j = Closed Ready"

definition next_iteration ::
  "externs \<Rightarrow> clock \<Rightarrow> uuid \<Rightarrow> (nat \<Rightarrow> uuid) \<Rightarrow> job_definition \<Rightarrow> uuid \<Rightarrow> unit job_op" where
  "next_iteration x c new_id fresh jd worker j =
     (if \<not> is_ready_to_next_iteration x (read c 0) j
        then (j, Inl (JobOther ''job is not ready to next iteration''))
      else case can_transition_to (job_status j) JobStarted of
          Inl e \<Rightarrow> (j, Inl e)
        | Inr _ \<Rightarrow> (case job_new x (read c 1) new_id fresh jd (metadata j) worker of
              Inl e \<Rightarrow> (j, Inl e)
            | Inr new_job \<Rightarrow>
                (new_job\<lparr>job_id := job_id j, iter_num := iter_num j + 1, started_at := read c 2\<rparr>, Inr ())))"

definition update_version :: "string \<Rightarrow> job \<Rightarrow> job" where
  "update_version v j = j\<lparr>version := v\<rparr>"

definition set_next_start_at :: "time \<Rightarrow> job \<Rightarrow> job" where
  "set_next_start_at at j = j\<lparr>next_start_at := Some at\<rparr>"

definition start_work :: "time \<Rightarrow> uuid \<Rightarrow> unit job_op" where
  "start_work now worker j = (case transition_to (job_status j) JobRunning of
      Inl e \<Rightarrow> (j, Inl e)
    | Inr s \<Rightarrow> (j\<lparr>job_status := s, updated_by_worker_id := worker, running_at := Some now\<rparr>, Inr ()))"

section \<open>Operations of an execution\<close>

fun resolve_runtime_dependency :: "job \<Rightarrow> task_ref \<Rightarrow> job_error + uuid" where
  "resolve_runtime_dependency j (Initial _ position) =
     Inl (JobOther ''task created at runtime cannot depend on initial task position'')"
| "resolve_runtime_dependency j (Created dependency_id) =
     (if map_of (tasks_by_id j) dependency_id = None then Inl (JobOther ''dependency task not found'')
      else Inr dependency_id)"

definition check_parent :: "uuid option \<Rightarrow> job \<Rightarrow> job_error + unit" where
  "check_parent created_by j = (case created_by of
      None \<Rightarrow> Inr ()
    | Some parent_id \<Rightarrow> bindR (get_task_arc parent_id j) (\<lambda>parent.
        if is_failed parent
        then Inl (JobOther ''task cannot create a task: its execution failed and what it created was rolled back'')
        else Inr ()))"

definition add_task ::
  "externs \<Rightarrow> uuid \<Rightarrow> task_definition \<Rightarrow> uuid \<Rightarrow> uuid option \<Rightarrow> uuid job_op" where
  "add_task x new_id d worker created_by j =
     (case bindR (validate x (job_limits j) d) (\<lambda>_.
        if \<not> is_declares_tolerance_valid d
        then Inl (JobOther ''task declares a dependency tolerance without dependencies'')
        else bindR (check_parent created_by j) (\<lambda>_.
          mapR (resolve_runtime_dependency j) (def_depends_on d))) of
        Inl e \<Rightarrow> (j, Inl e)
      | Inr resolved \<Rightarrow> (put_task new_id (task_new x new_id worker created_by d resolved) j, Inr new_id))"

definition start_task :: "externs \<Rightarrow> time \<Rightarrow> uuid \<Rightarrow> uuid \<Rightarrow> unit job_op" where
  "start_task x now i worker =
     bindS (with_task i (start x now worker))
       (\<lambda>_. modifyS (\<lambda>j. j\<lparr>updated_by_worker_id := worker\<rparr>))"

definition validate_task_output :: "bytes \<Rightarrow> task_limits \<Rightarrow> job_error + unit" where
  "validate_task_output out limits =
     (if length out > max_output_bytes limits then Inl (JobOther ''task output size exceeds limit'')
      else Inr ())"

definition complete_task :: "time \<Rightarrow> uuid \<Rightarrow> bytes \<Rightarrow> uuid \<Rightarrow> unit job_op" where
  "complete_task now i out worker j = (case validate_task_output out (job_limits j) of
      Inl e \<Rightarrow> (j, Inl e)
    | Inr _ \<Rightarrow> with_task i (\<lambda>t. bindR (check_task_owner t worker) (\<lambda>_. complete now out t)) j)"

text \<open>The failure of the task comes first, then the rollback of what its execution created.\<close>

definition drop_created_by :: "uuid \<Rightarrow> job \<Rightarrow> job" where
  "drop_created_by i j =
     j\<lparr>tasks_by_id := filter (\<lambda>(_, t). created_by_task t \<noteq> Some i) (tasks_by_id j)\<rparr>"

definition fail_task :: "time \<Rightarrow> uuid \<Rightarrow> string \<Rightarrow> task_retry \<Rightarrow> uuid \<Rightarrow> nat job_op" where
  "fail_task now i msg retry worker =
     bindS (with_task i (\<lambda>t. bindR (check_task_owner t worker) (\<lambda>_. fail now msg retry t)))
       (\<lambda>_ j. (drop_created_by i j,
          Inr (length (tasks_by_id j) - length (tasks_by_id (drop_created_by i j)))))"

definition skip_task_by_executor :: "time \<Rightarrow> uuid \<Rightarrow> string \<Rightarrow> uuid \<Rightarrow> unit job_op" where
  "skip_task_by_executor now i reason worker =
     with_task i (\<lambda>t. bindR (check_task_owner t worker) (\<lambda>_. skip now reason ExecutorDecision t))"

definition record_task_execution_failure ::
  "time \<Rightarrow> uuid \<Rightarrow> string \<Rightarrow> task_retry \<Rightarrow> uuid \<Rightarrow> nat job_op" where
  "record_task_execution_failure now i msg retry worker j = (case find_task i j of
      Inl e \<Rightarrow> (j, Inl e)
    | Inr t \<Rightarrow> if is_resolved t then (j, Inr 0) else fail_task now i msg retry worker j)"

section \<open>Tasks past their lifetime, unreachable tasks, unblocking\<close>

definition describe_outlived_lifetime :: "externs \<Rightarrow> task \<Rightarrow> string" where
  "describe_outlived_lifetime x t =
     ''task outlived its maximum lifetime of '' @ show_int (num_milliseconds x (task_max_lifetime t)) @
     '' ms (lifetime deadline '' @
     (case lifetime_deadline_at t of None \<Rightarrow> ''unset'' | Some d \<Rightarrow> show_time x d) @ '')''"

definition expired_tasks :: "externs \<Rightarrow> time \<Rightarrow> job \<Rightarrow> uuid list" where
  "expired_tasks x now j =
     map fst (filter (\<lambda>(_, t). check_availability_at x t now = ExpiredPastLifetime) (tasks_by_id j))"

definition fail_tasks_by_lifetime :: "externs \<Rightarrow> clock \<Rightarrow> unit job_op" where
  "fail_tasks_by_lifetime x c j =
     forS (\<lambda>i. with_task i (\<lambda>t. fail (stamp c i) (describe_outlived_lifetime x t) WhileBudgetLasts t))
       (expired_tasks x (read c 0) j) j"

record unreachable_task =
  unreachable_id :: uuid
  unreachable_cause :: skip_cause
  unreachable_dependency :: uuid

text \<open>\<^verbatim>\<open>Iterator::max_by_key\<close>: the last of the elements with the greatest key.\<close>

definition max_by_key :: "('a \<Rightarrow> 'k :: linorder) \<Rightarrow> 'a list \<Rightarrow> 'a option" where
  "max_by_key key xs = fold (\<lambda>v best. case best of
      None \<Rightarrow> Some v | Some b \<Rightarrow> if key b \<le> key v then Some v else Some b) xs None"

definition unreachable_via :: "job \<Rightarrow> time \<Rightarrow> task \<Rightarrow> uuid \<Rightarrow> unreachable_task option" where
  "unreachable_via j now t dependency_id = (case map_of (tasks_by_id j) dependency_id of
      None \<Rightarrow> None
    | Some dependency \<Rightarrow> (case judge_dependency t dependency now of
          VerdictSkipped cause \<Rightarrow>
            Some \<lparr>unreachable_id = task_id t, unreachable_cause = cause,
                  unreachable_dependency = dependency_id\<rparr>
        | VerdictUnblocked \<Rightarrow> None
        | VerdictBlocked \<Rightarrow> None))"

definition find_unreachable_dependency_of :: "job \<Rightarrow> time \<Rightarrow> task \<Rightarrow> unreachable_task option" where
  "find_unreachable_dependency_of j now t =
     max_by_key (\<lambda>u. carries_failure (unreachable_cause u))
       (List.map_filter (unreachable_via j now t) (depends_on t))"

definition blocked_tasks :: "job \<Rightarrow> task list" where
  "blocked_tasks j = filter (\<lambda>t. task_status t = Blocked) (tasks_as_iter j)"

definition find_unreachable_tasks :: "job \<Rightarrow> time \<Rightarrow> unreachable_task list" where
  "find_unreachable_tasks j now = List.map_filter (find_unreachable_dependency_of j now) (blocked_tasks j)"

definition dependents_of :: "(uuid \<times> uuid list) list \<Rightarrow> uuid \<Rightarrow> uuid list" where
  "dependents_of index i = (case map_of index i of Some v \<Rightarrow> v | None \<Rightarrow> [])"

definition push_dependent :: "uuid \<Rightarrow> uuid \<Rightarrow> (uuid \<times> uuid list) list \<Rightarrow> (uuid \<times> uuid list) list" where
  "push_dependent dependent dependency index =
     AList.update dependency (dependents_of index dependency @ [dependent]) index"

definition index_blocked_dependents :: "job \<Rightarrow> (uuid \<times> uuid list) list" where
  "index_blocked_dependents j =
     fold (\<lambda>t index. fold (push_dependent (task_id t)) (depends_on t) index) (blocked_tasks j) []"

definition unreachable_reason :: "externs \<Rightarrow> unreachable_task \<Rightarrow> string" where
  "unreachable_reason x u = ''dependency '' @ [CHR 0x27] @ show_uuid x (unreachable_dependency u) @
     [CHR 0x27] @ '' is unreachable''"

definition skip_unreachable :: "externs \<Rightarrow> clock \<Rightarrow> unreachable_task \<Rightarrow> unit job_op" where
  "skip_unreachable x c u =
     with_task (unreachable_id u)
       (skip (stamp c (unreachable_id u)) (unreachable_reason x u) (unreachable_cause u))"

text \<open>
  The candidates of a generation are a \<^verbatim>\<open>HashSet\<close> in the source; the members of one generation are
  judged on the state its predecessor left, so the order they are put out in does not matter.
\<close>

definition candidates :: "(uuid \<times> uuid list) list \<Rightarrow> unreachable_task list \<Rightarrow> job \<Rightarrow> uuid list" where
  "candidates index us j =
     remdups (filter (\<lambda>i. case map_of (tasks_by_id j) i of Some t \<Rightarrow> task_status t = Blocked | None \<Rightarrow> False)
       (concat (map (\<lambda>u. dependents_of index (unreachable_id u)) us)))"

definition next_generation ::
  "(uuid \<times> uuid list) list \<Rightarrow> time \<Rightarrow> unreachable_task list \<Rightarrow> job \<Rightarrow> unreachable_task list" where
  "next_generation index now us j =
     List.map_filter (find_unreachable_dependency_of j now)
       (List.map_filter (map_of (tasks_by_id j)) (candidates index us j))"

text \<open>Tasks a skip can still be recorded on; the cascade leaves fewer of them after every generation.\<close>

definition skippable :: "task \<Rightarrow> bool" where
  "skippable t \<longleftrightarrow> task_status t = Blocked \<or> task_status t = Started"

lemma with_task_Inr_iff:
  "with_task i f j = (j', Inr ()) \<longleftrightarrow>
     (\<exists>t t'. map_of (tasks_by_id j) i = Some t \<and> f t = Inr t' \<and> j' = put_task i t' j)"
  by (auto simp: with_task_def get_task_arc_def split: option.splits sum.splits)

lemma with_task_Inl: "with_task i f j = (j', Inl e) \<Longrightarrow> j' = j"
  by (auto simp: with_task_def split: option.splits sum.splits)

lemma skip_unreachable_decreases:
  assumes "skip_unreachable x c u j = (j', Inr ())"
  shows "count_values skippable (tasks_by_id j') < count_values skippable (tasks_by_id j)"
proof -
  from assms obtain t t' where t: "map_of (tasks_by_id j) (unreachable_id u) = Some t"
    and s: "skip (stamp c (unreachable_id u)) (unreachable_reason x u) (unreachable_cause u) t = Inr t'"
    and j': "j' = put_task (unreachable_id u) t' j"
    by (auto simp: skip_unreachable_def with_task_Inr_iff)
  from s have "skippable t" "\<not> skippable t'" by (auto simp: skip_Inr_iff skippable_def)
  with count_values_update [OF t, of skippable t'] show ?thesis by (simp add: j' put_task_def)
qed

lemma forS_skip_decreases:
  assumes "forS (skip_unreachable x c) us j = (j', Inr ())"
  shows "count_values skippable (tasks_by_id j') + length us \<le> count_values skippable (tasks_by_id j)"
  using assms
proof (induction us arbitrary: j)
  case Nil
  then show ?case by simp
next
  case (Cons u us)
  then obtain j1 where 1: "skip_unreachable x c u j = (j1, Inr ())"
    and 2: "forS (skip_unreachable x c) us j1 = (j', Inr ())"
    by (auto split: prod.splits sum.splits)
  from skip_unreachable_decreases [OF 1] Cons.IH [OF 2] show ?case by simp
qed

function skip_generations ::
  "externs \<Rightarrow> clock \<Rightarrow> (uuid \<times> uuid list) list \<Rightarrow> time \<Rightarrow> unreachable_task list \<Rightarrow> nat \<Rightarrow> nat job_op" where
  "skip_generations x c index now us skipped_count j =
     (if us = [] then (j, Inr skipped_count)
      else case forS (skip_unreachable x c) us j of
          (j', Inl e) \<Rightarrow> (j', Inl e)
        | (j', Inr _) \<Rightarrow>
            skip_generations x c index now (next_generation index now us j') (skipped_count + length us) j')"
  by pat_completeness auto

termination
proof (relation "measure (\<lambda>(x, c, index, now, us, n, j). count_values skippable (tasks_by_id j))", goal_cases)
  case 1
  then show ?case by simp
next
  case (2 x c index now us n j j' r u)
  then have "forS (skip_unreachable x c) us j = (j', Inr ())" by simp
  from forS_skip_decreases [OF this] \<open>us \<noteq> []\<close> show ?case by (cases us) auto
qed

declare skip_generations.simps [simp del]

definition skip_unreachable_tasks :: "externs \<Rightarrow> clock \<Rightarrow> time \<Rightarrow> nat job_op" where
  "skip_unreachable_tasks x c now j =
     (let us = find_unreachable_tasks j now in
      if us = [] then (j, Inr 0)
      else skip_generations x c (index_blocked_dependents j) now us 0 j)"

definition dependencies_satisfied :: "job \<Rightarrow> time \<Rightarrow> task \<Rightarrow> bool" where
  "dependencies_satisfied j now t \<longleftrightarrow>
     (\<forall>d \<in> set (depends_on t). case map_of (tasks_by_id j) d of
        None \<Rightarrow> False
      | Some dependency \<Rightarrow> judge_dependency t dependency now = VerdictUnblocked)"

definition unblock_satisfied_tasks :: "time \<Rightarrow> unit job_op" where
  "unblock_satisfied_tasks now j =
     forS (\<lambda>i. with_task i (\<lambda>t. Inr (unblock t)))
       (map task_id (filter (dependencies_satisfied j now) (blocked_tasks j))) j"

section \<open>Settling an iteration\<close>

definition derive_iteration_verdict :: "job \<Rightarrow> time \<Rightarrow> iteration_verdict" where
  "derive_iteration_verdict j now =
     (if \<exists>t \<in> set (tasks_as_iter j). case skip_cause_of t of Some c \<Rightarrow> carries_failure c | None \<Rightarrow> False
      then IterationFailed
      else let unhandled = map task_id (filter (\<lambda>t. is_terminally_failed_at t now) (tasks_as_iter j)) in
        if unhandled = [] then IterationCompleted
        else let left = fold (\<lambda>t unhandled.
               if \<not> allows_failed (task_tolerance t) \<or>
                  \<not> (is_completed t \<or> skip_cause_of t = Some ExecutorDecision) then unhandled
               else fold removeAll (depends_on t) unhandled) (tasks_as_iter j) unhandled in
          if left = [] then IterationCompleted else IterationFailed)"

definition keeps_open :: "externs \<Rightarrow> time \<Rightarrow> task \<Rightarrow> bool" where
  "keeps_open x now t \<longleftrightarrow> (case check_availability_at x t now of
      Pickable \<Rightarrow> True | AwaitingRetry _ \<Rightarrow> True | _ \<Rightarrow> False)"

definition close_iteration :: "externs \<Rightarrow> clock \<Rightarrow> uuid \<Rightarrow> bool job_op" where
  "close_iteration x c worker j =
     (if has_started_task j \<or> (\<exists>t \<in> set (tasks_as_iter j). keeps_open x (read c 0) t) then (j, Inr False)
      else if \<not> all_tasks_resolved j then (j, Inl (IterationDeadlock (job_code j) (tasks_as_string x j)))
      else case transition_to (job_status j) (job_status_of_verdict (derive_iteration_verdict j (read c 0))) of
          Inl e \<Rightarrow> (j, Inl e)
        | Inr s \<Rightarrow> (j\<lparr>job_status := s, updated_by_worker_id := worker, completed_at := Some (read c 1)\<rparr>, Inr True))"

definition try_settle_iteration :: "externs \<Rightarrow> clock \<Rightarrow> uuid \<Rightarrow> bool job_op" where
  "try_settle_iteration x c worker =
     bindS (skip_unreachable_tasks x c (read c 0)) (\<lambda>_.
     bindS (unblock_satisfied_tasks (read c 0)) (\<lambda>_.
     close_iteration x c worker))"

section \<open>Picking a task\<close>

definition find_pickable_task :: "externs \<Rightarrow> time \<Rightarrow> job \<Rightarrow> uuid option" where
  "find_pickable_task x now j = map_option fst (find (\<lambda>(_, t). can_be_picked_up_at x t now) (tasks_by_id j))"

definition min_option :: "time list \<Rightarrow> time option" where
  "min_option xs = fold (\<lambda>v best. case best of None \<Rightarrow> Some v | Some b \<Rightarrow> Some (min b v)) xs None"

definition find_earliest_retry_at :: "externs \<Rightarrow> time \<Rightarrow> job \<Rightarrow> time option" where
  "find_earliest_retry_at x now j =
     min_option (List.map_filter (\<lambda>t. case check_availability_at x t now of
        AwaitingRetry retry_at \<Rightarrow> Some retry_at | _ \<Rightarrow> None) (tasks_as_iter j))"

definition has_pickable_task :: "externs \<Rightarrow> time \<Rightarrow> job \<Rightarrow> bool" where
  "has_pickable_task x now j \<longleftrightarrow> (\<exists>t \<in> set (tasks_as_iter j). can_be_picked_up_at x t now)"

definition ensure_running :: "time \<Rightarrow> uuid \<Rightarrow> unit job_op" where
  "ensure_running now worker j = (if job_status j \<noteq> JobRunning then start_work now worker j else (j, Inr ()))"

definition pick_task_to_execute :: "externs \<Rightarrow> clock \<Rightarrow> uuid \<Rightarrow> task_pickup job_op" where
  "pick_task_to_execute x c worker =
     bindS (ensure_running (read c 0) worker) (\<lambda>_.
     bindS (fail_tasks_by_lifetime x (later 1 c)) (\<lambda>_ j.
       case find_pickable_task x (read c 2) j of
         Some i \<Rightarrow> (j, Inr (PickReady i))
       | None \<Rightarrow>
           bindS (try_settle_iteration x (later 3 c) worker) (\<lambda>settled j.
             if settled then (j, Inr IterationSettled)
             else case find_pickable_task x (read c 5) j of
                 Some i \<Rightarrow> (j, Inr (PickReady i))
               | None \<Rightarrow> (j, Inr (PickWaiting (find_earliest_retry_at x (read c 6) j)))) j))"

section \<open>Merging after a lost race\<close>

definition merge_with_picked_task :: "externs \<Rightarrow> clock \<Rightarrow> job \<Rightarrow> uuid \<Rightarrow> uuid \<Rightarrow> unit job_op" where
  "merge_with_picked_task x c worker_job worker i j =
     (if job_id j \<noteq> job_id worker_job
        then (j, Inl (JobOther ''merge picked task for job failed - IDs are different''))
      else case check_task_stolen i worker j of
        Inl e \<Rightarrow> (j, Inl e)
      | Inr _ \<Rightarrow> (case get_task_arc i worker_job of
          Inl e \<Rightarrow> (j, Inl e)
        | Inr worker_task \<Rightarrow>
            if \<not> is_started worker_task
            then (j, Inl (JobOther ''merge picked task for job failed - worker task is not started by worker''))
            else case transition_to (job_status j) (job_status worker_job) of
              Inl e \<Rightarrow> (j, Inl (JobOther ''merge picked task for job status failed''))
            | Inr s \<Rightarrow>
                bindS (fail_tasks_by_lifetime x c) (\<lambda>_.
                bindS (skip_unreachable_tasks x c (read c 1)) (\<lambda>_.
                modifyS (\<lambda>j. (put_task i worker_task j)
                  \<lparr>updated_by_worker_id := worker,
                   running_at := (if running_at j = None then running_at worker_job else running_at j)\<rparr>)))
                  (j\<lparr>job_status := s\<rparr>)))"

definition merges_over :: "job \<Rightarrow> uuid \<Rightarrow> uuid \<Rightarrow> task \<Rightarrow> bool" where
  "merges_over stored worker i t \<longleftrightarrow>
     (created_by_worker t = worker \<and> processing_by_worker t = None \<and> map_of (tasks_by_id stored) i = None) \<or>
     processing_by_worker t = Some worker"

definition merge_tasks :: "job \<Rightarrow> uuid \<Rightarrow> job \<Rightarrow> job" where
  "merge_tasks worker_job worker j =
     fold (\<lambda>(i, t) j. if merges_over j worker i t then put_task i t j else j) (tasks_by_id worker_job) j"

definition merge_with_processed_task :: "externs \<Rightarrow> clock \<Rightarrow> job \<Rightarrow> uuid \<Rightarrow> uuid \<Rightarrow> unit job_op" where
  "merge_with_processed_task x c worker_job worker i j =
     (if job_id j \<noteq> job_id worker_job then (j, Inl (JobOther ''merge job failed - IDs are different''))
      else case check_task_stolen i worker j of
        Inl e \<Rightarrow> (j, Inl e)
      | Inr _ \<Rightarrow>
          if is_processed j then (j, Inl (IterationAlreadySettled (job_code j)))
          else
            bindS (ensure_running (read c 0) worker) (\<lambda>_.
            bindS (modifyS (\<lambda>j. j\<lparr>
                running_at := (case running_at worker_job of Some r \<Rightarrow> Some r | None \<Rightarrow> running_at j),
                next_start_at := (case next_start_at worker_job of Some n \<Rightarrow> Some n | None \<Rightarrow> next_start_at j)\<rparr>)) (\<lambda>_.
            bindS (try_settle_iteration x (later 1 c) worker) (\<lambda>_. returnS ())))
              ((merge_tasks worker_job worker j)\<lparr>updated_by_worker_id := worker\<rparr>))"

end
