(* ===== verification/JM_Job_Wf.thy ===== *)
theory JM_Job_Wf
  imports JM_Job JM_Task_Props
begin

text \<open>
  The invariant of a job iteration: the map is keyed by the tasks' own identifiers, every task
  satisfies its own invariant, and the dependencies of the tasks stay within the iteration and form
  no cycle. It holds of a job created from an accepted description and every operation keeps it.
\<close>

section \<open>The invariant\<close>

abbreviation task_at :: "job \<Rightarrow> uuid \<Rightarrow> task option" where
  "task_at j i \<equiv> map_of (tasks_by_id j) i"

definition dependency_edges :: "job \<Rightarrow> (uuid \<times> uuid) set" where
  "dependency_edges j = {(i, d). \<exists>t. task_at j i = Some t \<and> d \<in> set (depends_on t)}"

definition job_wf :: "job \<Rightarrow> bool" where
  "job_wf j \<longleftrightarrow>
     distinct (map fst (tasks_by_id j)) \<and>
     (\<forall>i t. task_at j i = Some t \<longrightarrow> task_id t = i \<and> task_wf t) \<and>
     ranked (dependency_edges j) (dom (task_at j))"

lemma job_wf_distinct: "job_wf j \<Longrightarrow> distinct (map fst (tasks_by_id j))"
  by (simp add: job_wf_def)

lemma job_wf_task: "job_wf j \<Longrightarrow> task_at j i = Some t \<Longrightarrow> task_id t = i \<and> task_wf t"
  by (simp add: job_wf_def)

lemma job_wf_dependency:
  assumes "job_wf j" and "task_at j i = Some t" and "d \<in> set (depends_on t)"
  shows "\<exists>dep. task_at j d = Some dep"
proof -
  have "(i, d) \<in> dependency_edges j" using assms(2,3) by (auto simp: dependency_edges_def)
  moreover have "i \<in> dom (task_at j)" using assms(2) by auto
  ultimately have "d \<in> dom (task_at j)" using assms(1) unfolding job_wf_def ranked_def by blast
  then show ?thesis by auto
qed

lemma in_tasks_iff:
  "job_wf j \<Longrightarrow> t \<in> set (tasks_as_iter j) \<longleftrightarrow> (\<exists>i. task_at j i = Some t)"
  using in_values_iff [OF job_wf_distinct] by (simp add: tasks_as_iter_def)

lemma in_tasks_task_at: "job_wf j \<Longrightarrow> t \<in> set (tasks_as_iter j) \<longleftrightarrow> task_at j (task_id t) = Some t"
  using in_tasks_iff job_wf_task by metis

text \<open>Two jobs with the same keys and, under each key, the same identifier and dependencies.\<close>

definition same_shape :: "job \<Rightarrow> job \<Rightarrow> bool" where
  "same_shape j j' \<longleftrightarrow> map fst (tasks_by_id j') = map fst (tasks_by_id j) \<and>
     (\<forall>i t'. task_at j' i = Some t' \<longrightarrow>
        (\<exists>t. task_at j i = Some t \<and> task_id t' = task_id t \<and> depends_on t' = depends_on t))"

lemma same_shape_refl: "same_shape j j"
  by (simp add: same_shape_def)

lemma same_shape_trans: "same_shape a b \<Longrightarrow> same_shape b c \<Longrightarrow> same_shape a c"
  unfolding same_shape_def by metis

lemma same_shape_dom: "same_shape j j' \<Longrightarrow> dom (task_at j') = dom (task_at j)"
  unfolding same_shape_def dom_map_of_conv_image_fst by (metis set_map)

lemma same_shape_edges: "same_shape j j' \<Longrightarrow> dependency_edges j' = dependency_edges j"
proof -
  assume s: "same_shape j j'"
  have "\<exists>t'. task_at j' i = Some t' \<and> depends_on t' = depends_on t" if "task_at j i = Some t" for i t
  proof -
    have "i \<in> dom (task_at j')" using that same_shape_dom [OF s] by auto
    then obtain t' where "task_at j' i = Some t'" by auto
    with s that show ?thesis by (fastforce simp: same_shape_def)
  qed
  with s show ?thesis by (fastforce simp: same_shape_def dependency_edges_def)
qed

lemma job_wf_same_shape:
  assumes "job_wf j" and "same_shape j j'" and "\<And>i t. task_at j' i = Some t \<Longrightarrow> task_wf t"
  shows "job_wf j'"
  using assms same_shape_dom [OF assms(2)] same_shape_edges [OF assms(2)]
  unfolding job_wf_def same_shape_def by metis

text \<open>Only the map of tasks matters to the invariant.\<close>

lemma job_wf_updates [simp]:
  "job_wf (j\<lparr>job_status := s\<rparr>) = job_wf j"
  "job_wf (j\<lparr>updated_by_worker_id := w\<rparr>) = job_wf j"
  "job_wf (j\<lparr>running_at := a\<rparr>) = job_wf j"
  "job_wf (j\<lparr>completed_at := b\<rparr>) = job_wf j"
  "job_wf (j\<lparr>next_start_at := n\<rparr>) = job_wf j"
  "job_wf (j\<lparr>version := v\<rparr>) = job_wf j"
  "job_wf (j\<lparr>job_id := i\<rparr>) = job_wf j"
  "job_wf (j\<lparr>iter_num := m\<rparr>) = job_wf j"
  "job_wf (j\<lparr>started_at := d\<rparr>) = job_wf j"
  by (simp_all add: job_wf_def dependency_edges_def)

lemma tasks_put_task [simp]: "tasks_by_id (put_task i t j) = AList.update i t (tasks_by_id j)"
  by (simp add: put_task_def)

lemma same_shape_put_task:
  assumes "task_at j i = Some t" and "task_id t' = task_id t" and "depends_on t' = depends_on t"
  shows "same_shape j (put_task i t' j)"
proof -
  have "i \<in> fst ` set (tasks_by_id j)" using assms(1) by (metis domI dom_map_of_conv_image_fst)
  then show ?thesis using assms by (auto simp: same_shape_def keys_update_present)
qed

section \<open>Transitions of tasks keep the shape\<close>

text \<open>What a transition of a task may not touch, and that it keeps the task's invariant.\<close>

definition keeps :: "(task \<Rightarrow> job_error + task) \<Rightarrow> bool" where
  "keeps f \<longleftrightarrow> (\<forall>t t'. f t = Inr t' \<longrightarrow>
     task_id t' = task_id t \<and> depends_on t' = depends_on t \<and> created_by_task t' = created_by_task t \<and>
     (task_wf t \<longrightarrow> task_wf t'))"

named_theorems keeps_intros

lemma keeps_start [keeps_intros]: "keeps (start x now w)"
  using task_wf_start by (auto simp: keeps_def start_Inr_iff)

lemma keeps_complete [keeps_intros]: "keeps (complete now out)"
  using task_wf_complete by (auto simp: keeps_def complete_Inr_iff)

lemma keeps_skip [keeps_intros]: "keeps (skip now r c)"
  using task_wf_skip by (auto simp: keeps_def skip_Inr_iff)

lemma keeps_fail [keeps_intros]: "keeps (\<lambda>t. fail now (msg t) retry t)"
  using task_wf_fail by (auto simp: keeps_def fail_Inr_iff)

lemma keeps_unblock [keeps_intros]: "keeps (\<lambda>t. Inr (unblock t))"
  using task_wf_unblock by (auto simp: keeps_def unblock_def)

lemma keeps_owned [keeps_intros]: "keeps f \<Longrightarrow> keeps (\<lambda>t. bindR (check_task_owner t w) (\<lambda>_. f t))"
  by (auto simp: keeps_def)

lemma with_task_cases:
  obtains e where "with_task i f j = (j, Inl e)"
  | t t' where "task_at j i = Some t" "f t = Inr t'" "with_task i f j = (put_task i t' j, Inr ())"
proof (cases "task_at j i")
  case None
  then have "with_task i f j = (j, Inl TaskNotFound)" by (simp add: with_task_def get_task_arc_def)
  then show ?thesis by (rule that(1))
next
  case (Some t)
  show ?thesis
  proof (cases "f t")
    case (Inl e)
    with Some have "with_task i f j = (j, Inl e)" by (simp add: with_task_def get_task_arc_def)
    then show ?thesis by (rule that(1))
  next
    case (Inr t')
    with Some have "with_task i f j = (put_task i t' j, Inr ())"
      by (simp add: with_task_def get_task_arc_def)
    with Some Inr show ?thesis by (rule that(2))
  qed
qed

lemma job_wf_put_task:
  assumes "job_wf j" and "task_at j i = Some t" and "task_id t' = task_id t"
    and "depends_on t' = depends_on t" and "task_wf t'"
  shows "job_wf (put_task i t' j)"
proof (rule job_wf_same_shape [OF assms(1) same_shape_put_task [OF assms(2-4)]])
  fix k u assume "task_at (put_task i t' j) k = Some u"
  then show "task_wf u"
    using assms(5) job_wf_task [OF assms(1)] by (auto split: if_splits)
qed

lemma same_shape_with_task:
  assumes "keeps f"
  shows "same_shape j (fst (with_task i f j))"
proof (rule with_task_cases [of i f j])
  fix e assume "with_task i f j = (j, Inl e)"
  then show ?thesis by (simp add: same_shape_refl)
next
  fix t t' assume t: "task_at j i = Some t" "f t = Inr t'"
    and w: "with_task i f j = (put_task i t' j, Inr ())"
  with assms same_shape_put_task [OF t(1)] show ?thesis by (simp add: keeps_def)
qed

section \<open>Preservation by the operations\<close>

text \<open>
  A property of a job's map of tasks that every transition of a task keeps is kept by every operation
  that only moves tasks through their transitions, whether it succeeds or stops at an error.
\<close>

locale kept_by_transitions =
  fixes P :: "job \<Rightarrow> bool"
  assumes put: "P j \<Longrightarrow> task_at j i = Some t \<Longrightarrow> keeps f \<Longrightarrow> f t = Inr t' \<Longrightarrow> P (put_task i t' j)"
    and only_tasks: "P j \<Longrightarrow> tasks_by_id j' = tasks_by_id j \<Longrightarrow> job_code j' = job_code j \<Longrightarrow> P j'"
begin

lemma kept_with_task:
  assumes "P j" and "keeps f"
  shows "P (fst (with_task i f j))"
  by (rule with_task_cases [of i f j]) (use assms put in auto)

lemma kept_bindS:
  assumes "\<And>j. P j \<Longrightarrow> P (fst (m j))" and "\<And>a j. P j \<Longrightarrow> P (fst (f a j))" and "P j"
  shows "P (fst (bindS m f j))"
proof -
  obtain j' r where m: "m j = (j', r)" by fastforce
  with assms(1) [OF assms(3)] have "P j'" by simp
  with assms(2) m show ?thesis by (cases r) (auto simp: bindS_def)
qed

lemma kept_modifyS: "(\<And>j. tasks_by_id (f j) = tasks_by_id j \<and> job_code (f j) = job_code j) \<Longrightarrow> P j \<Longrightarrow> P (fst (modifyS f j))"
  using only_tasks by (auto simp: modifyS_def)

lemma kept_start_work: "P j \<Longrightarrow> P (fst (start_work now w j))"
  using only_tasks by (auto simp: start_work_def split: sum.splits)

lemma kept_ensure_running: "P j \<Longrightarrow> P (fst (ensure_running now w j))"
  by (simp add: ensure_running_def kept_start_work)

lemma kept_start_task: "P j \<Longrightarrow> P (fst (start_task x now i w j))"
  unfolding start_task_def
  by (rule kept_bindS) (auto intro!: kept_modifyS kept_with_task keeps_intros)

lemma kept_complete_task: "P j \<Longrightarrow> P (fst (complete_task now i out w j))"
  by (auto simp: complete_task_def intro!: kept_with_task keeps_intros split: sum.splits)

lemma kept_skip_task_by_executor: "P j \<Longrightarrow> P (fst (skip_task_by_executor now i r w j))"
  by (auto simp: skip_task_by_executor_def intro!: kept_with_task keeps_intros)

lemma kept_fail_tasks_by_lifetime: "P j \<Longrightarrow> P (fst (fail_tasks_by_lifetime x c j))"
  unfolding fail_tasks_by_lifetime_def
  by (rule forS_invariant) (auto intro!: kept_with_task keeps_intros)

lemma kept_skip_unreachable: "P j \<Longrightarrow> P (fst (skip_unreachable x c u j))"
  by (auto simp: skip_unreachable_def intro!: kept_with_task keeps_intros)

lemma kept_skip_generations: "P j \<Longrightarrow> P (fst (skip_generations x c index now us n j))"
proof (induction x c index now us n j rule: skip_generations.induct)
  case (1 x c index now us n j)
  obtain j' r where g: "forS (skip_unreachable x c) us j = (j', r)" by fastforce
  have "P (fst (forS (skip_unreachable x c) us j))"
    by (rule forS_invariant) (use "1.prems" kept_skip_unreachable in auto)
  with g have "P j'" by simp
  with "1.IH" [OF _ g [symmetric]] "1.prems" g show ?case
    by (subst skip_generations.simps) (auto split: sum.splits)
qed

lemma kept_skip_unreachable_tasks: "P j \<Longrightarrow> P (fst (skip_unreachable_tasks x c now j))"
  by (simp add: skip_unreachable_tasks_def Let_def kept_skip_generations)

lemma kept_unblock_satisfied_tasks: "P j \<Longrightarrow> P (fst (unblock_satisfied_tasks now j))"
  unfolding unblock_satisfied_tasks_def
  by (rule forS_invariant) (auto intro!: kept_with_task keeps_intros)

lemma kept_close_iteration: "P j \<Longrightarrow> P (fst (close_iteration x c w j))"
  using only_tasks by (auto simp: close_iteration_def split: sum.splits)

lemma kept_try_settle_iteration: "P j \<Longrightarrow> P (fst (try_settle_iteration x c w j))"
  unfolding try_settle_iteration_def
  by (intro kept_bindS kept_skip_unreachable_tasks kept_unblock_satisfied_tasks kept_close_iteration)

lemma kept_pick_task_to_execute: "P j \<Longrightarrow> P (fst (pick_task_to_execute x c w j))"
  unfolding pick_task_to_execute_def
  by (intro kept_bindS)
    (auto intro!: kept_bindS kept_ensure_running kept_fail_tasks_by_lifetime
      kept_try_settle_iteration split: option.splits)

end

interpretation wf: kept_by_transitions job_wf
proof unfold_locales
  show "job_wf (put_task i t' j)" if "job_wf j" "task_at j i = Some t" "keeps f" "f t = Inr t'" for j i t f t'
    by (rule job_wf_put_task [OF that(1,2)]) (use that(3,4) job_wf_task [OF that(1,2)] in \<open>auto simp: keeps_def\<close>)
  show "job_wf j'" if "job_wf j" "tasks_by_id j' = tasks_by_id j" for j j'
    using that unfolding job_wf_def dependency_edges_def by metis
qed

lemmas job_wf_with_task = wf.kept_with_task
lemmas job_wf_try_settle_iteration = wf.kept_try_settle_iteration
lemmas job_wf_pick_task_to_execute = wf.kept_pick_task_to_execute
lemmas job_wf_fail_tasks_by_lifetime = wf.kept_fail_tasks_by_lifetime
lemmas job_wf_ensure_running = wf.kept_ensure_running
lemmas job_wf_skip_unreachable = wf.kept_skip_unreachable
lemmas job_wf_unblock_satisfied_tasks = wf.kept_unblock_satisfied_tasks

text \<open>A map keyed by the tasks' own identifiers, which is what a load from storage rebuilds.\<close>

definition keys_ok :: "job \<Rightarrow> bool" where
  "keys_ok j \<longleftrightarrow> distinct (map fst (tasks_by_id j)) \<and> (\<forall>i t. task_at j i = Some t \<longrightarrow> task_id t = i)"

lemma job_wf_keys: "job_wf j \<Longrightarrow> keys_ok j"
  by (simp add: job_wf_def keys_ok_def)

interpretation keys: kept_by_transitions keys_ok
proof unfold_locales
  show "keys_ok (put_task i t' j)" if "keys_ok j" "task_at j i = Some t" "keeps f" "f t = Inr t'" for j i t f t'
    using that by (auto simp: keys_ok_def keeps_def)
  show "keys_ok j'" if "keys_ok j" "tasks_by_id j' = tasks_by_id j" for j j'
    using that by (simp add: keys_ok_def)
qed

text \<open>No such operation changes the code of the job.\<close>

interpretation code: kept_by_transitions "\<lambda>j. job_code j = c"
  by unfold_locales (auto simp: put_task_def)

section \<open>Creation\<close>

text \<open>The task a description's position becomes.\<close>

definition initial_task :: "externs \<Rightarrow> uuid \<Rightarrow> (nat \<Rightarrow> uuid) \<Rightarrow> task_definition list \<Rightarrow> nat \<Rightarrow> task" where
  "initial_task x worker fresh defs p =
     task_new x (fresh p) worker None (defs ! p) (map (\<lambda>r. fresh (ref_position r)) (def_depends_on (defs ! p)))"

lemma mapR_resolve_initial:
  assumes "\<forall>r \<in> set rs. \<exists>p < n. r = Initial jid p"
  shows "mapR (resolve_initial_dependency (map fresh [0..<n])) rs = Inr (map (\<lambda>r. fresh (ref_position r)) rs)"
  using assms by (induction rs) auto

lemma foldR_insert_initial:
  assumes "inj_on fresh {..<length defs}" and "refs_ok jid defs" and "k \<le> length defs"
  shows "foldR (insert_initial_task x w (map fresh [0..<length defs])) (enumerate 0 (take k defs)) [] =
    Inr (map (\<lambda>p. (fresh p, initial_task x w fresh defs p)) [0..<k])"
  using assms(3)
proof (induction k)
  case 0
  then show ?case by simp
next
  case (Suc k)
  let ?ts = "map (\<lambda>p. (fresh p, initial_task x w fresh defs p)) [0..<k]"
  have k: "k < length defs" using Suc.prems by simp
  have "\<forall>r \<in> set (def_depends_on (defs ! k)). \<exists>p < length defs. r = Initial jid p"
    using assms(2) nth_mem [OF k] unfolding refs_ok_def by blast
  note deps = mapR_resolve_initial [OF this, of fresh]
  have "fresh k \<noteq> fresh q" if "q < k" for q
    using inj_onD [OF assms(1), of k q] k that by auto
  then have "fresh k \<notin> fst ` set ?ts" by force
  then have "insert_initial_task x w (map fresh [0..<length defs]) (k, defs ! k) ?ts =
      Inr (?ts @ [(fresh k, initial_task x w fresh defs k)])"
    using k by (simp add: insert_initial_task_def deps update_absent initial_task_def)
  with Suc k show ?case
    by (simp add: take_Suc_conv_app_nth enumerate_append_eq foldR_append)
qed

lemma job_new_tasks:
  assumes "inj_on fresh {..<length (initial_tasks jd)}" and "refs_ok jid (initial_tasks jd)"
  shows "\<exists>j. job_new x now new_id fresh jd meta w = Inr j \<and>
    tasks_by_id j = map (\<lambda>p. (fresh p, initial_task x w fresh (initial_tasks jd) p)) [0..<length (initial_tasks jd)] \<and>
    job_id j = new_id \<and> job_code j = jd_code jd \<and> iter_num j = 1 \<and> job_status j = JobStarted \<and>
    metadata j = meta \<and> next_start_at j = None \<and> started_at j = now \<and> running_at j = None"
  using foldR_insert_initial [OF assms order_refl, of x w] by (simp add: job_new_def Let_def)

lemma task_at_initial:
  assumes "inj_on fresh {..<n}" and "tasks_by_id j = map (\<lambda>p. (fresh p, f p)) [0..<n]"
  shows "task_at j i = Some t \<longleftrightarrow> (\<exists>p < n. i = fresh p \<and> t = f p)"
proof -
  have "distinct (map fst (tasks_by_id j))"
    using assms by (auto simp: distinct_map inj_on_def comp_def)
  from in_set_iff_map_of [OF this, of i t] have "task_at j i = Some t \<longleftrightarrow> (i, t) \<in> set (tasks_by_id j)" ..
  also have "\<dots> \<longleftrightarrow> (\<exists>p < n. i = fresh p \<and> t = f p)" by (auto simp: assms(2))
  finally show ?thesis .
qed

lemma ranked_image:
  assumes r: "ranked E {..<n}" and inj: "inj_on f {..<n}"
    and sub: "\<And>a b. (a, b) \<in> E' \<Longrightarrow> \<exists>u v. a = f u \<and> b = f v \<and> u < n \<and> (u, v) \<in> E"
  shows "ranked E' (f ` {..<n})"
proof -
  from r obtain rank :: "nat \<Rightarrow> nat"
    where rank: "\<And>u v. (u, v) \<in> E \<Longrightarrow> u < n \<Longrightarrow> v < n \<and> rank v < rank u"
    by (auto simp: ranked_def)
  have "b \<in> f ` {..<n} \<and> rank (inv_into {..<n} f b) < rank (inv_into {..<n} f a)" if e: "(a, b) \<in> E'" for a b
  proof -
    from sub [OF e] obtain u v where uv: "a = f u" "b = f v" "u < n" "(u, v) \<in> E" by auto
    with rank have v: "v < n" "rank v < rank u" by auto
    moreover have "inv_into {..<n} f b = v" "inv_into {..<n} f a = u"
      using uv v inj by (auto intro: inv_into_f_f)
    ultimately show ?thesis using uv by auto
  qed
  then show ?thesis unfolding ranked_def by (intro exI [of _ "\<lambda>a. rank (inv_into {..<n} f a)"]) blast
qed

text \<open>What an accepted description gives for the creation of an iteration.\<close>

definition definition_wf :: "job_definition \<Rightarrow> bool" where
  "definition_wf jd \<longleftrightarrow> initial_tasks jd \<noteq> [] \<and> (\<exists>jid. dependencies_ok jid (initial_tasks jd)) \<and>
     (\<forall>d \<in> set (initial_tasks jd). 0 < def_max_attempts d)"

lemma validate_attempts: "validate x limits d = Inr () \<Longrightarrow> 0 < def_max_attempts d"
  by (auto simp: validate_def word_neq_0_conv split: if_splits)

lemma job_definition_new_wf:
  assumes "job_definition_new x jid code tasks runtime declared limits = Inr jd"
  shows "definition_wf jd"
proof -
  from assms have nonempty: "tasks \<noteq> []" and ok: "dependencies_ok jid (initial_tasks jd)"
    and valid: "\<And>d. d \<in> set (map fst tasks) \<Longrightarrow> validate x limits d = Inr ()"
    and i: "initial_tasks jd = merged_definitions jid (map fst tasks) declared"
    unfolding job_definition_new_Inr_iff by auto
  have "0 < def_max_attempts d" if d: "d \<in> set (initial_tasks jd)" for d
  proof -
    from d obtain p where "p < length tasks" "def_max_attempts d = def_max_attempts (map fst tasks ! p)"
      by (auto simp: i merged_definitions_def with_dependencies_def)
    with valid [OF nth_mem, of p] show ?thesis using validate_attempts by fastforce
  qed
  with nonempty ok show ?thesis by (auto simp: definition_wf_def i merged_definitions_def)
qed

lemma job_wf_initial:
  assumes wf: "definition_wf jd" and inj: "inj_on fresh {..<length (initial_tasks jd)}"
    and tasks: "tasks_by_id j = map (\<lambda>p. (fresh p, initial_task x w fresh (initial_tasks jd) p)) [0..<length (initial_tasks jd)]"
  shows "job_wf j"
proof -
  let ?ds = "initial_tasks jd" and ?n = "length (initial_tasks jd)"
  from wf obtain jid where refs: "refs_ok jid ?ds" and acyc: "acyclic (graph_edges (position_graph ?ds))"
    by (auto simp: definition_wf_def dependencies_ok_def)
  note at = task_at_initial [OF inj tasks]
  have "length (position_graph ?ds) = ?n" by (simp add: position_graph_def)
  with acyclic_ranked [OF refs_in_range [OF refs] acyc]
  have r: "ranked (graph_edges (position_graph ?ds)) {..<?n}" by simp
  have dom: "dom (task_at j) = fresh ` {..<?n}" by (auto simp: dom_def at)
  have edges: "\<exists>u v. a = fresh u \<and> b = fresh v \<and> u < ?n \<and> (u, v) \<in> graph_edges (position_graph ?ds)"
    if "(a, b) \<in> dependency_edges j" for a b
    using that by (fastforce simp: dependency_edges_def at initial_task_def task_new_def graph_edges_def position_graph_def)
  have "task_wf (initial_task x w fresh ?ds p)" if "p < ?n" for p
    unfolding initial_task_def by (rule task_wf_new) (use wf that in \<open>auto simp: definition_wf_def\<close>)
  moreover have "task_id (initial_task x w fresh ?ds p) = fresh p" for p
    by (simp add: initial_task_def task_new_def)
  moreover have "distinct (map fst (tasks_by_id j))"
    using inj by (auto simp: tasks distinct_map inj_on_def comp_def)
  ultimately show ?thesis
    using ranked_image [OF r inj edges] by (auto simp: job_wf_def at dom)
qed

section \<open>Adding and rolling back tasks\<close>

lemma mapR_resolve_runtime:
  "mapR (resolve_runtime_dependency j) rs = Inr ids \<Longrightarrow> set ids \<subseteq> dom (task_at j)"
proof (induction rs arbitrary: ids)
  case Nil
  then show ?case by simp
next
  case (Cons r rs)
  then show ?case by (cases r) (auto split: if_splits)
qed

lemma add_task_Inr_iff:
  "add_task x new_id d w created_by j = (j', Inr i) \<longleftrightarrow>
     validate x (job_limits j) d = Inr () \<and> is_declares_tolerance_valid d \<and>
     check_parent created_by j = Inr () \<and> i = new_id \<and>
     (\<exists>ids. mapR (resolve_runtime_dependency j) (def_depends_on d) = Inr ids \<and>
        j' = put_task new_id (task_new x new_id w created_by d ids) j)"
  by (auto simp: add_task_def split: sum.splits if_splits)

lemma add_task_Inl: "add_task x new_id d w created_by j = (j', Inl e) \<Longrightarrow> j' = j"
  by (auto simp: add_task_def split: sum.splits)

lemma ranked_extend:
  assumes "ranked E D" and "p \<notin> D" and "finite S" and "S \<subseteq> D"
    and "\<And>u v. (u, v) \<in> E' \<Longrightarrow> u = p \<and> v \<in> S \<or> u \<in> D \<and> (u, v) \<in> E"
  shows "ranked E' (insert p D)"
proof (rule ranked_insert [OF _ assms(2)])
  show "ranked E' D" using assms(1,2,5) unfolding ranked_def by metis
  have "E' `` {p} \<subseteq> S" using assms(2,5) by auto
  then show "E' `` {p} \<subseteq> D" "finite (E' `` {p})" using assms(3,4) by (auto intro: finite_subset)
qed

lemma job_wf_insert:
  assumes wf: "job_wf j" and fresh: "task_at j i = None" and t: "task_id t = i" "task_wf t"
    and deps: "set (depends_on t) \<subseteq> dom (task_at j)"
  shows "job_wf (put_task i t j)"
proof -
  have "ranked (dependency_edges (put_task i t j)) (insert i (dom (task_at j)))"
  proof (rule ranked_extend [where S = "set (depends_on t)"])
    show "ranked (dependency_edges j) (dom (task_at j))" using wf by (simp add: job_wf_def)
    show "i \<notin> dom (task_at j)" using fresh by auto
    show "finite (set (depends_on t))" by simp
    show "set (depends_on t) \<subseteq> dom (task_at j)" by (rule deps)
    show "u = i \<and> v \<in> set (depends_on t) \<or> u \<in> dom (task_at j) \<and> (u, v) \<in> dependency_edges j"
      if "(u, v) \<in> dependency_edges (put_task i t j)" for u v
      using that by (auto simp: dependency_edges_def split: if_splits)
  qed
  moreover have "dom (task_at (put_task i t j)) = insert i (dom (task_at j))"
    by (auto split: if_splits)
  moreover have "\<forall>k u. task_at (put_task i t j) k = Some u \<longrightarrow> task_id u = k \<and> task_wf u"
    using job_wf_task [OF wf] t by simp
  moreover have "distinct (map fst (tasks_by_id (put_task i t j)))" using job_wf_distinct [OF wf] by simp
  ultimately show ?thesis unfolding job_wf_def by metis
qed

lemma job_wf_add_task:
  assumes "job_wf j" and "task_at j new_id = None"
  shows "job_wf (fst (add_task x new_id d w created_by j))"
proof (cases "add_task x new_id d w created_by j")
  case (Pair j' r)
  show ?thesis
  proof (cases r)
    case (Inl e)
    with Pair add_task_Inl assms(1) show ?thesis by fastforce
  next
    case (Inr i)
    with Pair obtain ids where v: "validate x (job_limits j) d = Inr ()"
      and ids: "mapR (resolve_runtime_dependency j) (def_depends_on d) = Inr ids"
      and j': "j' = put_task new_id (task_new x new_id w created_by d ids) j"
      by (auto simp: add_task_Inr_iff)
    have "job_wf (put_task new_id (task_new x new_id w created_by d ids) j)"
    proof (rule job_wf_insert [OF assms])
      show "task_id (task_new x new_id w created_by d ids) = new_id" by (simp add: task_new_def)
      show "task_wf (task_new x new_id w created_by d ids)"
        by (rule task_wf_new) (rule validate_attempts [OF v])
      show "set (depends_on (task_new x new_id w created_by d ids)) \<subseteq> dom (task_at j)"
        using mapR_resolve_runtime [OF ids] by (simp add: task_new_def)
    qed
    with Pair Inr j' show ?thesis by simp
  qed
qed

text \<open>
  While task \<open>p\<close> executes, the copy of the job its worker holds attributes tasks to no other
  execution, and only tasks \<open>p\<close> created depend on tasks \<open>p\<close> created.
\<close>

definition execution_of :: "uuid \<Rightarrow> job \<Rightarrow> bool" where
  "execution_of p j \<longleftrightarrow>
     (\<forall>i t. task_at j i = Some t \<longrightarrow> created_by_task t = None \<or> created_by_task t = Some p) \<and>
     (\<forall>i t d u. task_at j i = Some t \<longrightarrow> d \<in> set (depends_on t) \<longrightarrow> task_at j d = Some u \<longrightarrow>
        created_by_task u = Some p \<longrightarrow> created_by_task t = Some p)"

lemma task_at_drop:
  assumes "distinct (map fst (tasks_by_id j))"
  shows "task_at (drop_created_by p j) i =
    (case task_at j i of None \<Rightarrow> None | Some t \<Rightarrow> if created_by_task t \<noteq> Some p then Some t else None)"
  using map_of_filter_distinct [OF assms, of "\<lambda>t. created_by_task t \<noteq> Some p" i]
  by (simp add: drop_created_by_def)

lemma ranked_restrict:
  assumes "ranked E D" and "\<And>u v. (u, v) \<in> E' \<Longrightarrow> u \<in> D' \<Longrightarrow> u \<in> D \<and> (u, v) \<in> E \<and> (v \<in> D \<longrightarrow> v \<in> D')"
  shows "ranked E' D'"
  using assms unfolding ranked_def by metis

lemma job_wf_drop_created_by:
  assumes wf: "job_wf j" and ex: "execution_of p j"
  shows "job_wf (drop_created_by p j)"
proof -
  note at = task_at_drop [OF job_wf_distinct [OF wf], of p]
  have "distinct (map fst (tasks_by_id (drop_created_by p j)))"
    using wf by (simp add: job_wf_def drop_created_by_def distinct_map_filter)
  moreover have "ranked (dependency_edges (drop_created_by p j)) (dom (task_at (drop_created_by p j)))"
  proof (rule ranked_restrict)
    show "ranked (dependency_edges j) (dom (task_at j))" using wf by (simp add: job_wf_def)
  next
    fix u v assume "(u, v) \<in> dependency_edges (drop_created_by p j)"
    then obtain t where t: "task_at j u = Some t" "created_by_task t \<noteq> Some p" "v \<in> set (depends_on t)"
      by (auto simp: dependency_edges_def at split: option.splits if_splits)
    moreover have "v \<in> dom (task_at (drop_created_by p j))" if v: "task_at j v = Some s" for s
      using ex t v by (auto simp: execution_of_def at)
    ultimately show "u \<in> dom (task_at j) \<and> (u, v) \<in> dependency_edges j \<and>
        (v \<in> dom (task_at j) \<longrightarrow> v \<in> dom (task_at (drop_created_by p j)))"
      by (auto simp: dependency_edges_def)
  qed
  ultimately show ?thesis
    using job_wf_task [OF wf] by (auto simp: job_wf_def at split: option.splits if_splits)
qed

section \<open>An iteration created from an accepted description\<close>

lemma definition_wf_initial_tasks:
  "definition_wf jd \<Longrightarrow> initial_tasks jd' = initial_tasks jd \<Longrightarrow> definition_wf jd'"
  by (simp add: definition_wf_def)

lemma job_new_wf:
  assumes wf: "definition_wf jd" and inj: "inj_on fresh {..<length (initial_tasks jd)}"
  shows "\<exists>j. job_new x now new_id fresh jd meta w = Inr j \<and> job_wf j \<and> tasks_by_id j \<noteq> [] \<and>
    job_id j = new_id \<and> iter_num j = 1 \<and> job_status j = JobStarted \<and> metadata j = meta \<and>
    (\<forall>i t. task_at j i = Some t \<longleftrightarrow>
       (\<exists>p < length (initial_tasks jd). i = fresh p \<and> t = initial_task x w fresh (initial_tasks jd) p))"
proof -
  from wf obtain jid where refs: "refs_ok jid (initial_tasks jd)"
    by (auto simp: definition_wf_def dependencies_ok_def)
  from job_new_tasks [OF inj refs, of x now new_id meta w] obtain j where
    j: "job_new x now new_id fresh jd meta w = Inr j"
    and ts: "tasks_by_id j = map (\<lambda>p. (fresh p, initial_task x w fresh (initial_tasks jd) p)) [0..<length (initial_tasks jd)]"
    and rest: "job_id j = new_id" "iter_num j = 1" "job_status j = JobStarted" "metadata j = meta" by auto
  have ne: "initial_tasks jd \<noteq> []" using wf by (simp add: definition_wf_def)
  show ?thesis
    using j rest job_wf_initial [OF wf inj ts] task_at_initial [OF inj ts] ts ne by auto
qed


text \<open>An iteration for evaluation: task 10, and task 11 blocked behind it.\<close>

definition sample_fresh :: "nat \<Rightarrow> uuid" where
  "sample_fresh p = p + 10"

definition sample_waiting :: task where
  "sample_waiting = sample_task\<lparr>task_id := 11, task_status := Blocked, depends_on := [10]\<rparr>"

definition sample_job :: job where
  "sample_job = \<lparr>job_id = 99, job_code = ''job'', iter_num = 1, job_status = JobStarted,
     tasks_by_id = [(10, sample_task\<lparr>task_id := 10\<rparr>), (11, sample_waiting)],
     updated_by_worker_id = 7, started_at = 0, running_at = None, completed_at = None,
     next_start_at = None, metadata = [], version = [], max_iterations = None,
     iteration_interval = None, job_limits = task_limits_default\<rparr>"

lemma sample_inj: "inj_on sample_fresh S"
  by (simp add: inj_on_def sample_fresh_def)

lemma sample_job_new: "job_new std_externs 0 99 sample_fresh sample_jd [] 7 = Inr sample_job"
  by (simp add: job_new_def sample_jd_def sample_fresh_def sample_job_def insert_initial_task_def
      sample_depends with_dependencies_def sample_waiting_def sample_task_def task_new_def Let_def)

lemma sample_definition_wf: "definition_wf sample_jd"
  by (rule job_definition_new_wf [OF sample_jd_new])

lemma sample_job_wf: "job_wf sample_job"
  using job_new_wf [OF sample_definition_wf sample_inj, of std_externs 0 99 "[]" 7] sample_job_new by auto


end
