(* ===== verification/JM_Cascade.thy ===== *)
theory JM_Cascade
  imports JM_Job_Wf
begin

text \<open>
  The cascade of \<^verbatim>\<open>Job::skip_unreachable_tasks\<close> (\<^verbatim>\<open>core/job.rs\<close>) against its specification: the
  generation-by-generation walk over an index of the blocked tasks puts out exactly the tasks that
  are unreachable, defined inductively on the state it starts from.
\<close>

section \<open>The dependency a skip is read from\<close>

lemma max_by_key_fold:
  fixes key :: "'a \<Rightarrow> 'k :: linorder"
  shows "fold (\<lambda>v best. case best of None \<Rightarrow> Some v | Some b \<Rightarrow> if key b \<le> key v then Some v else Some b) xs (Some a) = r
    \<Longrightarrow> \<exists>v. r = Some v \<and> v \<in> insert a (set xs) \<and> (\<forall>w \<in> insert a (set xs). key w \<le> key v)"
proof (induction xs arbitrary: a)
  case Nil
  then show ?case by auto
next
  case (Cons y ys)
  show ?case
  proof (cases "key a \<le> key y")
    case True
    with Cons.prems have "fold (\<lambda>v best. case best of None \<Rightarrow> Some v | Some b \<Rightarrow> if key b \<le> key v then Some v else Some b)
        ys (Some y) = r" by simp
    from Cons.IH [OF this] True show ?thesis by (auto intro: order_trans)
  next
    case False
    with Cons.prems have "fold (\<lambda>v best. case best of None \<Rightarrow> Some v | Some b \<Rightarrow> if key b \<le> key v then Some v else Some b)
        ys (Some a) = r" by simp
    from Cons.IH [OF this] False show ?thesis by (auto intro: order_trans)
  qed
qed

lemma max_by_key_Some:
  "max_by_key key xs = Some v \<Longrightarrow> v \<in> set xs \<and> (\<forall>w \<in> set xs. key w \<le> key v)"
  using max_by_key_fold [of key "tl xs" "hd xs" "Some v"] by (cases xs) (auto simp: max_by_key_def)

lemma max_by_key_None: "max_by_key key xs = None \<longleftrightarrow> xs = []"
  using max_by_key_fold [of key "tl xs" "hd xs" None] by (cases xs) (auto simp: max_by_key_def)

lemma in_map_filter: "y \<in> set (List.map_filter f xs) \<longleftrightarrow> (\<exists>a \<in> set xs. f a = Some y)"
  by (force simp: map_filter_def)

lemma distinct_map_filter_keys:
  assumes "distinct (map g xs)" and "\<And>a y. a \<in> set xs \<Longrightarrow> f a = Some y \<Longrightarrow> h y = g a"
  shows "distinct (map h (List.map_filter f xs))"
  using assms
proof (induction xs)
  case Nil
  then show ?case by (simp add: map_filter_def)
next
  case (Cons a xs)
  have "g a \<notin> h ` set (List.map_filter f xs)"
    using Cons.prems by (force simp: in_map_filter)
  moreover have "distinct (map h (List.map_filter f xs))" using Cons by simp
  moreover have "h y = g a" if "f a = Some y" for y using Cons.prems(2) that by simp
  ultimately show ?case by (cases "f a") (simp_all add: map_filter_simps)
qed

definition unreachable :: "job \<Rightarrow> time \<Rightarrow> task \<Rightarrow> bool" where
  "unreachable j now t \<longleftrightarrow> (\<exists>d dep cause. d \<in> set (depends_on t) \<and> task_at j d = Some dep \<and>
     judge_dependency t dep now = VerdictSkipped cause)"

lemma unreachable_via_Some_iff:
  "unreachable_via j now t d = Some u \<longleftrightarrow>
     (\<exists>dep cause. task_at j d = Some dep \<and> judge_dependency t dep now = VerdictSkipped cause \<and>
        u = \<lparr>unreachable_id = task_id t, unreachable_cause = cause, unreachable_dependency = d\<rparr>)"
  by (auto simp: unreachable_via_def split: option.splits dependency_verdict.splits)

lemma find_unreachable_None_iff: "find_unreachable_dependency_of j now t = None \<longleftrightarrow> \<not> unreachable j now t"
proof -
  have "List.map_filter (unreachable_via j now t) (depends_on t) = [] \<longleftrightarrow>
      (\<forall>u. u \<notin> set (List.map_filter (unreachable_via j now t) (depends_on t)))" by auto
  also have "\<dots> \<longleftrightarrow> \<not> unreachable j now t"
    unfolding in_map_filter unreachable_via_Some_iff unreachable_def by blast
  finally show ?thesis by (simp add: find_unreachable_dependency_of_def max_by_key_None)
qed

lemma find_unreachable_Some:
  assumes "find_unreachable_dependency_of j now t = Some u"
  shows "unreachable_id u = task_id t" and "unreachable j now t"
    and "\<exists>dep. unreachable_dependency u \<in> set (depends_on t) \<and> task_at j (unreachable_dependency u) = Some dep \<and>
      judge_dependency t dep now = VerdictSkipped (unreachable_cause u)"
    and "d \<in> set (depends_on t) \<Longrightarrow> task_at j d = Some dep \<Longrightarrow>
      judge_dependency t dep now = VerdictSkipped c \<Longrightarrow> carries_failure c \<Longrightarrow> carries_failure (unreachable_cause u)"
proof -
  let ?xs = "List.map_filter (unreachable_via j now t) (depends_on t)"
  have m: "u \<in> set ?xs" "\<And>w. w \<in> set ?xs \<Longrightarrow> carries_failure (unreachable_cause w) \<le> carries_failure (unreachable_cause u)"
    using max_by_key_Some assms unfolding find_unreachable_dependency_of_def by fastforce+
  from m(1) obtain e where e: "e \<in> set (depends_on t)" "unreachable_via j now t e = Some u"
    by (auto simp: in_map_filter)
  then show "unreachable_id u = task_id t" by (auto simp: unreachable_via_Some_iff)
  show "unreachable j now t" using e by (auto simp: unreachable_via_Some_iff unreachable_def)
  show "\<exists>dep. unreachable_dependency u \<in> set (depends_on t) \<and> task_at j (unreachable_dependency u) = Some dep \<and>
      judge_dependency t dep now = VerdictSkipped (unreachable_cause u)"
    using e by (auto simp: unreachable_via_Some_iff)
  assume d: "d \<in> set (depends_on t)" "task_at j d = Some dep" "judge_dependency t dep now = VerdictSkipped c"
    and c: "carries_failure c"
  let ?w = "\<lparr>unreachable_id = task_id t, unreachable_cause = c, unreachable_dependency = d\<rparr>"
  have "unreachable_via j now t d = Some ?w" using d by (auto simp: unreachable_via_Some_iff)
  with d(1) have "?w \<in> set ?xs" by (auto simp: in_map_filter)
  with m(2) c show "carries_failure (unreachable_cause u)" by force
qed

section \<open>The index of blocked dependents\<close>

lemma dependents_push:
  "set (dependents_of (push_dependent i d' index) d) =
     (if d = d' then insert i (set (dependents_of index d)) else set (dependents_of index d))"
  by (auto simp: push_dependent_def dependents_of_def split: option.splits)

lemma dependents_push_all:
  "k \<in> set (dependents_of (fold (push_dependent i) ds index) d) \<longleftrightarrow>
     k \<in> set (dependents_of index d) \<or> k = i \<and> d \<in> set ds"
  by (induction ds arbitrary: index) (auto simp: dependents_push)

lemma dependents_fold:
  "k \<in> set (dependents_of (fold (\<lambda>t index. fold (push_dependent (task_id t)) (depends_on t) index) ts index) d) \<longleftrightarrow>
     k \<in> set (dependents_of index d) \<or> (\<exists>t \<in> set ts. k = task_id t \<and> d \<in> set (depends_on t))"
  by (induction ts arbitrary: index) (auto simp: dependents_push_all)

lemma index_blocked_dependents_iff:
  "k \<in> set (dependents_of (index_blocked_dependents j) d) \<longleftrightarrow>
     (\<exists>t \<in> set (blocked_tasks j). k = task_id t \<and> d \<in> set (depends_on t))"
  unfolding index_blocked_dependents_def dependents_fold by (simp add: dependents_of_def)

lemma blocked_tasks_iff:
  "job_wf j \<Longrightarrow> t \<in> set (blocked_tasks j) \<longleftrightarrow> task_at j (task_id t) = Some t \<and> task_status t = Blocked"
  by (auto simp: blocked_tasks_def in_tasks_task_at)

section \<open>One generation\<close>

definition put_out :: "externs \<Rightarrow> clock \<Rightarrow> unreachable_task \<Rightarrow> task \<Rightarrow> task" where
  "put_out x c u t = t\<lparr>resolution_reason := unreachable_reason x u, task_status := Skipped (unreachable_cause u),
     task_completed_at := Some (stamp c (unreachable_id u))\<rparr>"

definition after_generation :: "externs \<Rightarrow> clock \<Rightarrow> unreachable_task list \<Rightarrow> job \<Rightarrow> uuid \<Rightarrow> task option" where
  "after_generation x c us j i = (case find (\<lambda>u. unreachable_id u = i) us of
      None \<Rightarrow> task_at j i | Some u \<Rightarrow> map_option (put_out x c u) (task_at j i))"

lemma skip_unreachable_blocked:
  assumes "task_at j (unreachable_id u) = Some t" and "task_status t = Blocked"
  shows "skip_unreachable x c u j = (put_task (unreachable_id u) (put_out x c u t) j, Inr ())"
  using assms by (simp add: skip_unreachable_def with_task_def get_task_arc_def skip_def is_started_def put_out_def)

lemma find_None_notin: "i \<notin> unreachable_id ` set us \<Longrightarrow> find (\<lambda>u. unreachable_id u = i) us = None"
  by (auto simp: find_None_iff)

text \<open>The map of tasks changes and nothing else.\<close>

definition only_tasks_differ :: "job \<Rightarrow> job \<Rightarrow> bool" where
  "only_tasks_differ j j' \<longleftrightarrow> j' = j\<lparr>tasks_by_id := tasks_by_id j'\<rparr>"

lemma only_tasks_differ_refl: "only_tasks_differ j j"
  by (simp add: only_tasks_differ_def)

lemma only_tasks_differ_trans: "only_tasks_differ a b \<Longrightarrow> only_tasks_differ b c \<Longrightarrow> only_tasks_differ a c"
  unfolding only_tasks_differ_def by (metis job.surjective job.update_convs(5))

lemma only_tasks_differ_put: "only_tasks_differ j (put_task i t j)"
  by (simp add: only_tasks_differ_def put_task_def)

lemma skip_generation:
  assumes "distinct (map unreachable_id us)"
    and "\<And>u. u \<in> set us \<Longrightarrow> \<exists>t. task_at j (unreachable_id u) = Some t \<and> task_status t = Blocked"
  shows "\<exists>j'. forS (skip_unreachable x c) us j = (j', Inr ()) \<and>
    only_tasks_differ j j' \<and> (\<forall>i. task_at j' i = after_generation x c us j i)"
  using assms
proof (induction us arbitrary: j)
  case Nil
  then show ?case by (simp add: after_generation_def only_tasks_differ_refl)
next
  case (Cons u us)
  from Cons.prems(2) obtain t where t: "task_at j (unreachable_id u) = Some t" "task_status t = Blocked" by auto
  let ?j = "put_task (unreachable_id u) (put_out x c u t) j"
  note step = skip_unreachable_blocked [OF t, of x c]
  have rest: "\<exists>s. task_at ?j (unreachable_id v) = Some s \<and> task_status s = Blocked" if "v \<in> set us" for v
  proof -
    have "unreachable_id v \<noteq> unreachable_id u" using Cons.prems(1) that by (auto simp: rev_image_eqI)
    with Cons.prems(2) [of v] that show ?thesis by simp
  qed
  from Cons.prems(1) have "distinct (map unreachable_id us)" by simp
  from Cons.IH [OF this rest] obtain j' where j': "forS (skip_unreachable x c) us ?j = (j', Inr ())"
    "only_tasks_differ ?j j'" "\<And>i. task_at j' i = after_generation x c us ?j i" by auto
  have "task_at j' i = after_generation x c (u # us) j i" for i
  proof (cases "i = unreachable_id u")
    case True
    have "find (\<lambda>v. unreachable_id v = i) us = None"
      by (rule find_None_notin) (use Cons.prems(1) True in auto)
    with True t show ?thesis by (simp add: j'(3) after_generation_def)
  next
    case False
    then show ?thesis by (auto simp: j'(3) after_generation_def split: option.splits)
  qed
  with j' step only_tasks_differ_trans [OF only_tasks_differ_put j'(2)] show ?case by auto
qed

section \<open>The specification of the cascade\<close>

text \<open>
  A blocked task is doomed if one of its dependencies ended in a way it does not accept, or will be
  skipped itself while the task does not accept a skipped dependency.
\<close>

inductive doomed :: "job \<Rightarrow> time \<Rightarrow> uuid \<Rightarrow> bool" for j now where
  doomed_direct: "task_at j i = Some t \<Longrightarrow> task_status t = Blocked \<Longrightarrow> unreachable j now t \<Longrightarrow> doomed j now i"
| doomed_chain: "task_at j i = Some t \<Longrightarrow> task_status t = Blocked \<Longrightarrow> d \<in> set (depends_on t) \<Longrightarrow>
    doomed j now d \<Longrightarrow> \<not> allows_skipped (task_tolerance t) \<Longrightarrow> doomed j now i"

lemma doomed_blocked: "doomed j now i \<Longrightarrow> \<exists>t. task_at j i = Some t \<and> task_status t = Blocked"
  by (induction rule: doomed.induct) auto

text \<open>A task the cascade put out: still the same task, now skipped.\<close>

definition put_out_of :: "task \<Rightarrow> task \<Rightarrow> bool" where
  "put_out_of t t' \<longleftrightarrow> (\<exists>r cause at. t' = t\<lparr>resolution_reason := r, task_status := Skipped cause, task_completed_at := at\<rparr>)"

definition cascade_inv :: "job \<Rightarrow> time \<Rightarrow> unreachable_task list \<Rightarrow> job \<Rightarrow> bool" where
  "cascade_inv j0 now us j \<longleftrightarrow>
     job_wf j \<and> only_tasks_differ j0 j \<and>
     (\<forall>i. task_at j i = task_at j0 i \<or>
       (doomed j0 now i \<and> (\<exists>t t'. task_at j0 i = Some t \<and> task_at j i = Some t' \<and> put_out_of t t'))) \<and>
     distinct (map unreachable_id us) \<and>
     (\<forall>u \<in> set us. \<exists>t. task_at j (unreachable_id u) = Some t \<and> task_status t = Blocked \<and>
        find_unreachable_dependency_of j now t = Some u) \<and>
     (\<forall>i t. task_at j i = Some t \<longrightarrow> task_status t = Blocked \<longrightarrow> unreachable j now t \<longrightarrow>
        i \<in> unreachable_id ` set us)"

lemma put_out_of_judged:
  assumes "put_out_of t t'" and "judge_dependency s t' now = VerdictSkipped c"
  shows "\<not> allows_skipped (task_tolerance s)"
  using assms
  by (auto simp: put_out_of_def judge_dependency_def task_check_defs split: if_splits)

lemma cascade_doomed:
  assumes inv: "cascade_inv j0 now us j" and t: "task_at j i = Some t" "task_status t = Blocked"
    and un: "unreachable j now t"
  shows "doomed j0 now i"
proof -
  have same: "task_at j k = task_at j0 k \<or>
      (doomed j0 now k \<and> (\<exists>t t'. task_at j0 k = Some t \<and> task_at j k = Some t' \<and> put_out_of t t'))" for k
    using inv by (simp add: cascade_inv_def)
  have t0: "task_at j0 i = Some t" using same [of i] t by (auto simp: put_out_of_def)
  from un obtain d dep cause where d: "d \<in> set (depends_on t)" "task_at j d = Some dep"
    "judge_dependency t dep now = VerdictSkipped cause" by (auto simp: unreachable_def)
  show ?thesis
  proof (cases "task_at j d = task_at j0 d")
    case True
    with d have "unreachable j0 now t" by (auto simp: unreachable_def)
    with t0 t(2) show ?thesis by (rule doomed_direct)
  next
    case False
    with same [of d] d(2) obtain s where "doomed j0 now d" "put_out_of s dep" by auto
    with put_out_of_judged d(3) have "\<not> allows_skipped (task_tolerance t)" by blast
    with t0 t(2) d(1) \<open>doomed j0 now d\<close> show ?thesis by (rule doomed_chain)
  qed
qed

lemma cascade_inv_initial:
  assumes "job_wf j"
  shows "cascade_inv j now (find_unreachable_tasks j now) j"
proof -
  let ?us = "find_unreachable_tasks j now"
  have ids: "distinct (map task_id (blocked_tasks j))"
  proof -
    have "map task_id (tasks_as_iter j) = map fst (tasks_by_id j)"
      using assms by (auto simp: tasks_as_iter_def job_wf_def)
    then show ?thesis using job_wf_distinct [OF assms] by (simp add: blocked_tasks_def distinct_map_filter)
  qed
  have in_us: "u \<in> set ?us \<longleftrightarrow> (\<exists>t \<in> set (blocked_tasks j). find_unreachable_dependency_of j now t = Some u)" for u
    by (simp add: find_unreachable_tasks_def in_map_filter)
  have "distinct (map unreachable_id ?us)"
    unfolding find_unreachable_tasks_def
    by (rule distinct_map_filter_keys [OF ids]) (rule find_unreachable_Some(1))
  moreover have "\<exists>t. task_at j (unreachable_id u) = Some t \<and> task_status t = Blocked \<and>
      find_unreachable_dependency_of j now t = Some u" if "u \<in> set ?us" for u
  proof -
    from that obtain t where t: "t \<in> set (blocked_tasks j)" "find_unreachable_dependency_of j now t = Some u"
      by (auto simp: in_us)
    then show ?thesis
      using blocked_tasks_iff [OF assms] find_unreachable_Some(1) [OF t(2)] by (metis)
  qed
  moreover have "i \<in> unreachable_id ` set ?us"
    if t: "task_at j i = Some t" "task_status t = Blocked" "unreachable j now t" for i t
  proof -
    have i: "task_id t = i" using job_wf_task [OF assms t(1)] by simp
    from t(3) obtain u where u: "find_unreachable_dependency_of j now t = Some u"
      using find_unreachable_None_iff [of j now t] by auto
    moreover have "t \<in> set (blocked_tasks j)" using blocked_tasks_iff [OF assms] t i by simp
    ultimately have "u \<in> set ?us" using in_us by auto
    with find_unreachable_Some(1) [OF u] i show ?thesis by force
  qed
  ultimately show ?thesis using assms by (simp add: cascade_inv_def only_tasks_differ_refl)
qed

lemma after_generation_cases:
  assumes "distinct (map unreachable_id us)"
  shows "i \<notin> unreachable_id ` set us \<Longrightarrow> after_generation x c us j i = task_at j i"
    and "u \<in> set us \<Longrightarrow> after_generation x c us j (unreachable_id u) =
      map_option (put_out x c u) (task_at j (unreachable_id u))"
proof -
  show "i \<notin> unreachable_id ` set us \<Longrightarrow> after_generation x c us j i = task_at j i"
    by (simp add: after_generation_def find_None_notin)
  assume u: "u \<in> set us"
  have "find (\<lambda>v. unreachable_id v = unreachable_id u) us = Some u"
    using assms u by (induction us) (auto simp: image_iff)
  then show "after_generation x c us j (unreachable_id u) =
      map_option (put_out x c u) (task_at j (unreachable_id u))" by (simp add: after_generation_def)
qed

lemma put_out_of_put_out: "put_out_of t (put_out x c u t)"
  unfolding put_out_of_def put_out_def by blast

text \<open>A task a generation leaves blocked was not part of it, and is what it was.\<close>

lemma blocked_after_generation:
  assumes d: "distinct (map unreachable_id us)"
    and b: "after_generation x c us j i = Some t" "task_status t = Blocked"
  shows "i \<notin> unreachable_id ` set us \<and> task_at j i = Some t"
proof (cases "i \<in> unreachable_id ` set us")
  case True
  then obtain u where "u \<in> set us" "i = unreachable_id u" by auto
  with b after_generation_cases(2) [OF d this(1), of x c j] show ?thesis by (auto simp: put_out_def)
next
  case False
  with b after_generation_cases(1) [OF d this, of x c j] show ?thesis by simp
qed

lemma candidates_iff:
  "i \<in> set (candidates index us j) \<longleftrightarrow>
     i \<in> set (concat (map (\<lambda>u. dependents_of index (unreachable_id u)) us)) \<and>
     (\<exists>t. task_at j i = Some t \<and> task_status t = Blocked)"
  by (auto simp: candidates_def split: option.splits)

lemma next_generation_iff:
  "u \<in> set (next_generation index now us j) \<longleftrightarrow>
    (\<exists>i t. i \<in> set (concat (map (\<lambda>u. dependents_of index (unreachable_id u)) us)) \<and>
       task_at j i = Some t \<and> task_status t = Blocked \<and> find_unreachable_dependency_of j now t = Some u)"
  (is "_ \<longleftrightarrow> ?rhs")
proof -
  have "u \<in> set (next_generation index now us j) \<longleftrightarrow>
      (\<exists>i t. i \<in> set (candidates index us j) \<and> task_at j i = Some t \<and> find_unreachable_dependency_of j now t = Some u)"
    unfolding next_generation_def in_map_filter Bex_def by blast
  also have "\<dots> \<longleftrightarrow> ?rhs" unfolding candidates_iff by force
  finally show ?thesis .
qed

lemma next_generation_distinct:
  assumes wf: "job_wf j"
  shows "distinct (map unreachable_id (next_generation index now us j))"
proof -
  have "distinct (map (\<lambda>i. i) (candidates index us j))" by (simp add: candidates_def)
  then have "distinct (map task_id (List.map_filter (map_of (tasks_by_id j)) (candidates index us j)))"
    by (rule distinct_map_filter_keys) (use job_wf_task [OF wf] in auto)
  then show ?thesis
    unfolding next_generation_def by (rule distinct_map_filter_keys) (rule find_unreachable_Some(1))
qed

lemma cascade_inv_step:
  assumes inv: "cascade_inv j0 now us j" and wf0: "job_wf j0"
    and gen: "forS (skip_unreachable x c) us j = (j', Inr ())"
    and only: "only_tasks_differ j j'" and at: "\<And>i. task_at j' i = after_generation x c us j i"
  shows "cascade_inv j0 now (next_generation (index_blocked_dependents j0) now us j') j'"
proof -
  let ?index = "index_blocked_dependents j0"
  let ?us' = "next_generation ?index now us j'"
  have dist: "distinct (map unreachable_id us)"
    and us: "\<And>u. u \<in> set us \<Longrightarrow> \<exists>t. task_at j (unreachable_id u) = Some t \<and> task_status t = Blocked \<and>
      find_unreachable_dependency_of j now t = Some u"
    and full: "\<And>i t. task_at j i = Some t \<Longrightarrow> task_status t = Blocked \<Longrightarrow> unreachable j now t \<Longrightarrow>
      i \<in> unreachable_id ` set us"
    and same: "\<And>i. task_at j i = task_at j0 i \<or> (doomed j0 now i \<and>
      (\<exists>t t'. task_at j0 i = Some t \<and> task_at j i = Some t' \<and> put_out_of t t'))"
    and wf: "job_wf j" and only0: "only_tasks_differ j0 j"
    using inv unfolding cascade_inv_def by blast+
  have "job_wf (fst (forS (skip_unreachable x c) us j))"
    by (rule forS_invariant [where P = job_wf]) (use wf job_wf_skip_unreachable in auto)
  then have wf': "job_wf j'" by (simp add: gen)
  have "task_at j' i = task_at j0 i \<or> (doomed j0 now i \<and>
      (\<exists>t t'. task_at j0 i = Some t \<and> task_at j' i = Some t' \<and> put_out_of t t'))" for i
  proof (cases "i \<in> unreachable_id ` set us")
    case False
    with same [of i] show ?thesis by (simp add: at after_generation_cases(1) [OF dist])
  next
    case True
    then obtain u where u: "u \<in> set us" "i = unreachable_id u" by auto
    from us [OF u(1)] obtain t where t: "task_at j i = Some t" "task_status t = Blocked"
      "find_unreachable_dependency_of j now t = Some u" by (auto simp: u(2))
    have "task_at j0 i = Some t" using same [of i] t by (auto simp: put_out_of_def)
    moreover have "task_at j' i = Some (put_out x c u t)"
      using t u by (simp add: at after_generation_cases(2) [OF dist])
    moreover have "doomed j0 now i"
      using cascade_doomed [OF inv t(1,2)] find_unreachable_Some(2) [OF t(3)] by blast
    ultimately show ?thesis using put_out_of_put_out by blast
  qed
  moreover have "\<exists>t. task_at j' (unreachable_id u) = Some t \<and> task_status t = Blocked \<and>
      find_unreachable_dependency_of j' now t = Some u" if "u \<in> set ?us'" for u
  proof -
    from that obtain i t where t: "task_at j' i = Some t" "task_status t = Blocked"
      "find_unreachable_dependency_of j' now t = Some u" by (auto simp: next_generation_iff)
    with find_unreachable_Some(1) [OF t(3)] job_wf_task [OF wf' t(1)] show ?thesis by metis
  qed
  moreover have "i \<in> unreachable_id ` set ?us'"
    if t: "task_at j' i = Some t" "task_status t = Blocked" "unreachable j' now t" for i t
  proof -
    have old: "i \<notin> unreachable_id ` set us" "task_at j i = Some t"
      using blocked_after_generation [OF dist, of x c j i t] t by (auto simp: at)
    from t(3) obtain d dep cause where d: "d \<in> set (depends_on t)" "task_at j' d = Some dep"
      "judge_dependency t dep now = VerdictSkipped cause" by (auto simp: unreachable_def)
    have "d \<in> unreachable_id ` set us"
    proof (rule ccontr)
      assume "d \<notin> unreachable_id ` set us"
      then have "task_at j d = Some dep" using d(2) by (simp add: at after_generation_cases(1) [OF dist])
      with d have "unreachable j now t" by (auto simp: unreachable_def)
      with full [OF old(2) t(2)] old(1) show False by simp
    qed
    moreover have "task_at j0 i = Some t" using same [of i] old(2) t(2) by (auto simp: put_out_of_def)
    then have "i \<in> set (dependents_of ?index d)"
      using t(2) d(1) job_wf_task [OF wf0] blocked_tasks_iff [OF wf0]
      by (metis index_blocked_dependents_iff)
    ultimately have cand: "i \<in> set (concat (map (\<lambda>u. dependents_of ?index (unreachable_id u)) us))" by auto
    from t(3) obtain u where u: "find_unreachable_dependency_of j' now t = Some u"
      using find_unreachable_None_iff [of j' now t] by auto
    with cand t have "u \<in> set ?us'" unfolding next_generation_iff by blast
    moreover have "unreachable_id u = i" using find_unreachable_Some(1) [OF u] job_wf_task [OF wf' t(1)] by simp
    ultimately show ?thesis by blast
  qed
  ultimately show ?thesis
    using wf' next_generation_distinct [OF wf'] only_tasks_differ_trans [OF only0 only]
    unfolding cascade_inv_def by blast
qed

lemma skip_generations_correct:
  assumes "cascade_inv j0 now us j" and "job_wf j0"
  shows "\<exists>n' j'. skip_generations x c (index_blocked_dependents j0) now us n j = (j', Inr n') \<and>
    cascade_inv j0 now [] j'"
  using assms
proof (induction "count_values skippable (tasks_by_id j)" arbitrary: us n j rule: less_induct)
  case less
  show ?case
  proof (cases "us = []")
    case True
    with less.prems show ?thesis by (subst skip_generations.simps) simp
  next
    case False
    have "distinct (map unreachable_id us)"
      and "\<And>u. u \<in> set us \<Longrightarrow> \<exists>t. task_at j (unreachable_id u) = Some t \<and> task_status t = Blocked"
      using less.prems(1) unfolding cascade_inv_def by blast+
    from skip_generation [OF this, of x c] obtain j' where
      gen: "forS (skip_unreachable x c) us j = (j', Inr ())"
      and rest: "only_tasks_differ j j'" "\<And>i. task_at j' i = after_generation x c us j i" by blast
    have smaller: "count_values skippable (tasks_by_id j') < count_values skippable (tasks_by_id j)"
      using forS_skip_decreases [OF gen] False by (cases us) auto
    from less.hyps [OF smaller cascade_inv_step [OF less.prems gen rest] less.prems(2)] gen False
    show ?thesis by (subst skip_generations.simps) simp
  qed
qed

lemma cascade_final:
  assumes inv: "cascade_inv j0 now [] j"
  shows "doomed j0 now i \<Longrightarrow> \<exists>t t'. task_at j0 i = Some t \<and> task_at j i = Some t' \<and> put_out_of t t'"
proof (induction rule: doomed.induct)
  case (doomed_direct i t)
  have same: "task_at j k = task_at j0 k \<or> (doomed j0 now k \<and>
      (\<exists>t t'. task_at j0 k = Some t \<and> task_at j k = Some t' \<and> put_out_of t t'))" for k
    using inv by (simp add: cascade_inv_def)
  have settled: "\<not> unreachable j now t" if "task_at j i = Some t"
    using inv doomed_direct(2) that by (auto simp: cascade_inv_def)
  from doomed_direct(3) obtain d dep cause where d: "d \<in> set (depends_on t)" "task_at j0 d = Some dep"
    "judge_dependency t dep now = VerdictSkipped cause" by (auto simp: unreachable_def)
  have "task_status dep \<noteq> Blocked"
    using d(3) by (auto simp: judge_dependency_def task_check_defs split: if_splits)
  then have "\<not> doomed j0 now d" using doomed_blocked d(2) by fastforce
  with same [of d] have "task_at j d = Some dep" using d(2) by auto
  with d have "unreachable j now t" by (auto simp: unreachable_def)
  with settled same [of i] doomed_direct(1) show ?case by auto
next
  case (doomed_chain i t d)
  have same: "task_at j k = task_at j0 k \<or> (doomed j0 now k \<and>
      (\<exists>t t'. task_at j0 k = Some t \<and> task_at j k = Some t' \<and> put_out_of t t'))" for k
    using inv by (simp add: cascade_inv_def)
  have settled: "\<not> unreachable j now t" if "task_at j i = Some t"
    using inv doomed_chain(2) that by (auto simp: cascade_inv_def)
  from doomed_chain.IH obtain s s' where "task_at j d = Some s'" "put_out_of s s'" by auto
  moreover from this have "\<exists>cause. judge_dependency t s' now = VerdictSkipped cause"
    using doomed_chain(5) by (auto simp: put_out_of_def judge_dependency_def task_check_defs)
  ultimately have "unreachable j now t" using doomed_chain(3) by (auto simp: unreachable_def)
  with settled same [of i] doomed_chain(1) show ?case by auto
qed

lemma skip_unreachable_tasks_correct:
  assumes "job_wf j"
  shows "\<exists>n j'. skip_unreachable_tasks x c now j = (j', Inr n) \<and> cascade_inv j now [] j'"
proof (cases "find_unreachable_tasks j now = []")
  case True
  with cascade_inv_initial [OF assms, of now] show ?thesis by (simp add: skip_unreachable_tasks_def)
next
  case False
  with skip_generations_correct [OF cascade_inv_initial [OF assms, of now] assms, of x c 0] show ?thesis
    by (simp add: skip_unreachable_tasks_def Let_def)
qed

lemma put_out_of_status: "put_out_of t t' \<Longrightarrow> \<exists>cause. task_status t' = Skipped cause"
  by (auto simp: put_out_of_def)


text \<open>The sample iteration after its first task was refused for good.\<close>

definition sample_refused :: task where
  "sample_refused = sample_failed\<lparr>task_id := 10, task_retry := Never\<rparr>"

definition sample_broken :: job where
  "sample_broken = (put_task 10 sample_refused sample_job)\<lparr>job_status := JobRunning\<rparr>"

lemma sample_refused_wf: "task_wf sample_refused"
  using sample_wf(3)
  by (auto simp: sample_refused_def task_wf_def has_run_def never_ran_def is_resolved_iff split: task_status.splits)

lemma sample_broken_wf: "job_wf sample_broken"
proof -
  have "job_wf (put_task 10 sample_refused sample_job)"
    by (rule job_wf_put_task [OF sample_job_wf _ _ _ sample_refused_wf])
      (auto simp: sample_job_def sample_refused_def sample_failed_def sample_started_def sample_task_def task_new_def)
  then show ?thesis by (simp add: sample_broken_def)
qed

lemma sample_broken_tasks: "tasks_by_id sample_broken = [(10, sample_refused), (11, sample_waiting)]"
  by (simp add: sample_broken_def sample_job_def)

lemma sample_doomed: "doomed sample_broken now 11"
proof (rule doomed_direct)
  show "task_at sample_broken 11 = Some sample_waiting" by (simp add: sample_broken_tasks)
  show "task_status sample_waiting = Blocked" by (simp add: sample_waiting_def)
  have "judge_dependency sample_waiting sample_refused now = VerdictSkipped FailedDependency"
    by (simp add: judge_dependency_def task_check_defs sample_refused_def sample_waiting_def sample_defs)
  then show "unreachable sample_broken now sample_waiting"
    by (auto simp: unreachable_def sample_broken_tasks sample_waiting_def intro!: exI [of _ 10])
qed


end
