(* ===== verification/JM_Settle.thy ===== *)
theory JM_Settle
  imports JM_Cascade
begin

text \<open>
  Settling an iteration (\<^verbatim>\<open>Job::try_settle_iteration\<close>, \<^verbatim>\<open>derive_iteration_verdict\<close>) and picking a task
  (\<^verbatim>\<open>pick_task_to_execute\<close>) of \<^verbatim>\<open>core/job.rs\<close>: on an iteration that satisfies its invariant neither
  reports a deadlock, an iteration is closed exactly when nothing can move any more, and the verdict
  it is closed with is the one its specification names.
\<close>

section \<open>Loops over tasks\<close>

lemma forS_with_task:
  assumes "distinct ids" and "\<And>i. i \<in> set ids \<Longrightarrow> \<exists>t. task_at j i = Some t \<and> f i t = Inr (g i t)"
  shows "\<exists>j'. forS (\<lambda>i. with_task i (f i)) ids j = (j', Inr ()) \<and> only_tasks_differ j j' \<and>
    (\<forall>k. task_at j' k = (if k \<in> set ids then map_option (g k) (task_at j k) else task_at j k))"
  using assms
proof (induction ids arbitrary: j)
  case Nil
  then show ?case by (simp add: only_tasks_differ_refl)
next
  case (Cons i ids)
  from Cons.prems(2) obtain t where t: "task_at j i = Some t" "f i t = Inr (g i t)" by auto
  let ?j = "put_task i (g i t) j"
  have step: "with_task i (f i) j = (?j, Inr ())" using t by (simp add: with_task_def get_task_arc_def)
  have "\<exists>s. task_at ?j k = Some s \<and> f k s = Inr (g k s)" if "k \<in> set ids" for k
    using Cons.prems that by auto
  with Cons.IH [of ?j] Cons.prems(1) obtain j' where
    j': "forS (\<lambda>i. with_task i (f i)) ids ?j = (j', Inr ())" "only_tasks_differ ?j j'"
    "\<And>k. task_at j' k = (if k \<in> set ids then map_option (g k) (task_at ?j k) else task_at ?j k)" by auto
  have "task_at j' k = (if k \<in> set (i # ids) then map_option (g k) (task_at j k) else task_at j k)" for k
    using t Cons.prems(1) by (auto simp: j'(3))
  with step j' only_tasks_differ_trans [OF only_tasks_differ_put j'(2)] show ?case by auto
qed

lemma only_tasks_differ_fields:
  "only_tasks_differ j j' \<Longrightarrow> job_status j' = job_status j \<and> job_id j' = job_id j \<and> job_code j' = job_code j"
  unfolding only_tasks_differ_def by (metis job.select_convs job.surjective job.update_convs(5))

lemma blocked_ids_distinct: "job_wf j \<Longrightarrow> distinct (map task_id (blocked_tasks j))"
proof -
  assume wf: "job_wf j"
  have "map task_id (tasks_as_iter j) = map fst (tasks_by_id j)"
    using wf by (auto simp: tasks_as_iter_def job_wf_def)
  then show ?thesis using job_wf_distinct [OF wf] by (simp add: blocked_tasks_def distinct_map_filter)
qed

definition released :: "job \<Rightarrow> time \<Rightarrow> task \<Rightarrow> task" where
  "released j now t = (if task_status t = Blocked \<and> dependencies_satisfied j now t then unblock t else t)"

lemma unblock_satisfied_tasks_correct:
  assumes wf: "job_wf j"
  shows "\<exists>j'. unblock_satisfied_tasks now j = (j', Inr ()) \<and> only_tasks_differ j j' \<and>
    (\<forall>k. task_at j' k = map_option (released j now) (task_at j k))"
proof -
  let ?ids = "map task_id (filter (dependencies_satisfied j now) (blocked_tasks j))"
  have "distinct ?ids" using blocked_ids_distinct [OF wf] by (rule distinct_map_filter)
  moreover have "\<exists>t. task_at j i = Some t \<and> Inr (unblock t) = Inr (unblock t)" if "i \<in> set ?ids" for i
    using that blocked_tasks_iff [OF wf] by auto
  ultimately obtain j' where j': "forS (\<lambda>i. with_task i (\<lambda>t. Inr (unblock t))) ?ids j = (j', Inr ())"
    "only_tasks_differ j j'"
    "\<And>k. task_at j' k = (if k \<in> set ?ids then map_option unblock (task_at j k) else task_at j k)"
    using forS_with_task [of ?ids j "\<lambda>_ t. Inr (unblock t)" "\<lambda>_. unblock"] by auto
  have "k \<in> set ?ids \<longleftrightarrow> task_status t = Blocked \<and> dependencies_satisfied j now t"
    if t: "task_at j k = Some t" for k t
  proof
    assume "k \<in> set ?ids"
    then obtain s where "s \<in> set (blocked_tasks j)" "task_id s = k" "dependencies_satisfied j now s" by auto
    with t blocked_tasks_iff [OF wf, of s] show "task_status t = Blocked \<and> dependencies_satisfied j now t" by auto
  next
    assume "task_status t = Blocked \<and> dependencies_satisfied j now t"
    with t job_wf_task [OF wf t] blocked_tasks_iff [OF wf, of t] show "k \<in> set ?ids" by force
  qed
  then have "task_at j' k = map_option (released j now) (task_at j k)" for k
    by (cases "task_at j k") (auto simp: j'(3) released_def)
  with j' show ?thesis by (auto simp: unblock_satisfied_tasks_def)
qed

section \<open>The verdict of an iteration\<close>

text \<open>A failure nobody answered for, as the documentation of the verdict words it.\<close>

definition failure_handled :: "job \<Rightarrow> uuid \<Rightarrow> bool" where
  "failure_handled j i \<longleftrightarrow> (\<exists>k s. task_at j k = Some s \<and> i \<in> set (depends_on s) \<and>
     allows_failed (task_tolerance s) \<and> (is_completed s \<or> skip_cause_of s = Some ExecutorDecision))"

definition failure_unanswered :: "job \<Rightarrow> time \<Rightarrow> bool" where
  "failure_unanswered j now \<longleftrightarrow>
     (\<exists>i t cause. task_at j i = Some t \<and> task_status t = Skipped cause \<and> carries_failure cause) \<or>
     (\<exists>i t. task_at j i = Some t \<and> is_terminally_failed_at t now \<and> \<not> failure_handled j i)"

lemma set_fold_removeAll: "set (fold removeAll ds xs) = set xs - set ds"
  by (induction ds arbitrary: xs) auto

lemma set_fold_handled:
  "set (fold (\<lambda>t u. if bad t then u else fold removeAll (depends_on t) u) ts xs) =
     set xs - {d. \<exists>t \<in> set ts. \<not> bad t \<and> d \<in> set (depends_on t)}"
  by (induction ts arbitrary: xs) (auto simp: set_fold_removeAll)

lemma derive_iteration_verdict_iff:
  assumes wf: "job_wf j"
  shows "derive_iteration_verdict j now = IterationFailed \<longleftrightarrow> failure_unanswered j now"
proof -
  let ?ts = "tasks_as_iter j"
  let ?bad = "\<lambda>t. \<not> allows_failed (task_tolerance t) \<or> \<not> (is_completed t \<or> skip_cause_of t = Some ExecutorDecision)"
  let ?unhandled = "map task_id (filter (\<lambda>t. is_terminally_failed_at t now) ?ts)"
  let ?left = "fold (\<lambda>t u. if ?bad t then u else fold removeAll (depends_on t) u) ?ts ?unhandled"
  have skipped: "(\<exists>t \<in> set ?ts. case skip_cause_of t of Some c \<Rightarrow> carries_failure c | None \<Rightarrow> False) \<longleftrightarrow>
      (\<exists>i t cause. task_at j i = Some t \<and> task_status t = Skipped cause \<and> carries_failure cause)"
    unfolding Bex_def in_tasks_iff [OF wf] by (fastforce simp: skip_cause_of_iff split: option.splits)
  have "?left \<noteq> [] \<longleftrightarrow> (\<exists>d. d \<in> set ?left)" by (cases ?left) auto
  also have "\<dots> \<longleftrightarrow> (\<exists>t. t \<in> set ?ts \<and> is_terminally_failed_at t now \<and>
      \<not> (\<exists>s. s \<in> set ?ts \<and> \<not> ?bad s \<and> task_id t \<in> set (depends_on s)))"
    unfolding set_fold_handled by auto
  also have "\<dots> \<longleftrightarrow> (\<exists>i t. task_at j i = Some t \<and> is_terminally_failed_at t now \<and> \<not> failure_handled j i)"
  proof -
    have h: "(\<exists>s. s \<in> set ?ts \<and> \<not> ?bad s \<and> i \<in> set (depends_on s)) \<longleftrightarrow> failure_handled j i" for i
      unfolding failure_handled_def in_tasks_iff [OF wf] by blast
    have "task_at j i = Some t \<Longrightarrow> failure_handled j (task_id t) \<longleftrightarrow> failure_handled j i" for i t
      using job_wf_task [OF wf, of i t] by simp
    then show ?thesis unfolding h unfolding in_tasks_iff [OF wf] by blast
  qed
  finally have left: "?left \<noteq> [] \<longleftrightarrow> (\<exists>i t. task_at j i = Some t \<and> is_terminally_failed_at t now \<and> \<not> failure_handled j i)" .
  have "?unhandled = [] \<Longrightarrow> ?left = []"
  proof -
    assume "?unhandled = []"
    then have "set ?left = {}" unfolding set_fold_handled by (metis empty_Diff set_empty)
    then show "?left = []" by (simp only: set_empty)
  qed
  then have "derive_iteration_verdict j now = IterationFailed \<longleftrightarrow>
      (\<exists>t \<in> set ?ts. case skip_cause_of t of Some c \<Rightarrow> carries_failure c | None \<Rightarrow> False) \<or> ?left \<noteq> []"
    unfolding derive_iteration_verdict_def Let_def by auto
  with skipped left show ?thesis unfolding failure_unanswered_def by blast
qed

section \<open>No deadlock\<close>

text \<open>The state the verdict is derived from: the cascade has run, then the unblocking.\<close>

definition prepared :: "job \<Rightarrow> time \<Rightarrow> job \<Rightarrow> job \<Rightarrow> bool" where
  "prepared j now j1 j2 \<longleftrightarrow> job_wf j1 \<and> job_wf j2 \<and> cascade_inv j now [] j1 \<and> only_tasks_differ j j2 \<and>
     (\<forall>k. task_at j2 k = map_option (released j1 now) (task_at j1 k))"

lemma settle_prepares:
  assumes wf: "job_wf j"
  obtains n j1 j2 where "skip_unreachable_tasks x c now j = (j1, Inr n)"
    and "unblock_satisfied_tasks now j1 = (j2, Inr ())" and "prepared j now j1 j2"
proof -
  from skip_unreachable_tasks_correct [OF wf] obtain n j1 where
    1: "skip_unreachable_tasks x c now j = (j1, Inr n)" and inv: "cascade_inv j now [] j1" by blast
  from inv have wf1: "job_wf j1" and o1: "only_tasks_differ j j1" by (auto simp: cascade_inv_def)
  from unblock_satisfied_tasks_correct [OF wf1] obtain j2 where
    2: "unblock_satisfied_tasks now j1 = (j2, Inr ())" and o2: "only_tasks_differ j1 j2"
    and at: "\<And>k. task_at j2 k = map_option (released j1 now) (task_at j1 k)" by blast
  have "job_wf j2" using job_wf_unblock_satisfied_tasks [OF wf1, of now] 2 by simp
  with inv wf1 at only_tasks_differ_trans [OF o1 o2] have "prepared j now j1 j2" by (simp add: prepared_def)
  with 1 2 show ?thesis by (rule that)
qed

lemma released_blocked:
  "task_status (released j now t) = Blocked \<Longrightarrow>
     released j now t = t \<and> task_status t = Blocked \<and> \<not> dependencies_satisfied j now t"
  by (auto simp: released_def unblock_def split: if_splits)

text \<open>A blocked task of a prepared state waits for a dependency that is still coming.\<close>

definition still_coming :: "time \<Rightarrow> task \<Rightarrow> bool" where
  "still_coming now t \<longleftrightarrow> \<not> is_resolved t \<or> (is_failed t \<and> \<not> is_terminally_failed_at t now)"

lemma judge_blocked_iff: "judge_dependency t dep now = VerdictBlocked \<longleftrightarrow> still_coming now dep"
  by (cases "task_status dep")
    (auto simp: judge_dependency_def still_coming_def task_check_defs is_resolved_iff)

lemma still_coming_released: "still_coming now (released j now t) = still_coming now t"
  by (auto simp: released_def unblock_def still_coming_def is_resolved_iff task_check_defs)

lemma prepared_blocked_waits:
  assumes p: "prepared j now j1 j2" and t: "task_at j2 i = Some t" "task_status t = Blocked"
  shows "\<exists>d dep. d \<in> set (depends_on t) \<and> task_at j2 d = Some dep \<and> still_coming now dep"
proof -
  have wf1: "job_wf j1" and at: "\<And>k. task_at j2 k = map_option (released j1 now) (task_at j1 k)"
    and settled: "\<And>i t. task_at j1 i = Some t \<Longrightarrow> task_status t = Blocked \<Longrightarrow> \<not> unreachable j1 now t"
    using p by (auto simp: prepared_def cascade_inv_def)
  from t(1) at [of i] obtain s where s: "task_at j1 i = Some s" "t = released j1 now s" by auto
  with t(2) released_blocked [of j1 now s] have t1: "task_at j1 i = Some t" "\<not> dependencies_satisfied j1 now t"
    by auto
  from t1(2) obtain d where d: "d \<in> set (depends_on t)"
    "\<not> (case task_at j1 d of None \<Rightarrow> False | Some dep \<Rightarrow> judge_dependency t dep now = VerdictUnblocked)"
    by (auto simp: dependencies_satisfied_def)
  from job_wf_dependency [OF wf1 t1(1) d(1)] obtain dep where dep: "task_at j1 d = Some dep" by blast
  have "judge_dependency t dep now = VerdictBlocked"
  proof (cases "judge_dependency t dep now")
    case VerdictUnblocked
    with d(2) dep show ?thesis by simp
  next
    case (VerdictSkipped cause)
    with d(1) dep settled [OF t1(1) t(2)] show ?thesis by (auto simp: unreachable_def)
  qed
  with d(1) dep show ?thesis by (auto simp: at judge_blocked_iff still_coming_released)
qed

lemma coming_moves:
  assumes "still_coming now t"
  shows "task_status t = Blocked \<or> task_status t = Started \<or> keeps_open x now t"
  using assms
  by (cases "task_status t")
    (auto simp: still_coming_def is_resolved_iff keeps_open_def check_availability_at_def is_failed_def
      split: option.splits)

lemma ranked_induct:
  assumes r: "ranked E D" and i: "i \<in> D"
    and step: "\<And>i. i \<in> D \<Longrightarrow> (\<And>d. (i, d) \<in> E \<Longrightarrow> d \<in> D \<Longrightarrow> P d) \<Longrightarrow> P i"
  shows "P i"
proof -
  from r obtain rank :: "nat \<Rightarrow> nat"
    where rank: "\<And>u v. (u, v) \<in> E \<Longrightarrow> u \<in> D \<Longrightarrow> v \<in> D \<and> rank v < rank u"
    by (auto simp: ranked_def)
  show ?thesis
    using i
  proof (induction "rank i" arbitrary: i rule: less_induct)
    case less
    then show ?case using step rank by blast
  qed
qed

lemma no_blocked_task_left:
  assumes p: "prepared j now j1 j2"
    and still: "\<And>i t. task_at j2 i = Some t \<Longrightarrow> task_status t \<noteq> Started \<and> \<not> keeps_open x now t"
  shows "task_at j2 i = Some t \<Longrightarrow> is_resolved t"
proof -
  have wf: "job_wf j2" using p by (simp add: prepared_def)
  have nb: "\<forall>t. task_at j2 i = Some t \<longrightarrow> task_status t \<noteq> Blocked" if "i \<in> dom (task_at j2)" for i
  proof (rule ranked_induct [OF _ that])
    show "ranked (dependency_edges j2) (dom (task_at j2))" using wf by (simp add: job_wf_def)
  next
    fix k assume IH: "\<And>d. (k, d) \<in> dependency_edges j2 \<Longrightarrow> d \<in> dom (task_at j2) \<Longrightarrow>
      \<forall>t. task_at j2 d = Some t \<longrightarrow> task_status t \<noteq> Blocked"
    show "\<forall>t. task_at j2 k = Some t \<longrightarrow> task_status t \<noteq> Blocked"
    proof (intro allI impI notI)
      fix t assume t: "task_at j2 k = Some t" "task_status t = Blocked"
      from prepared_blocked_waits [OF p t] obtain d dep where
        d: "d \<in> set (depends_on t)" "task_at j2 d = Some dep" "still_coming now dep" by blast
      have "(k, d) \<in> dependency_edges j2" using t(1) d(1) by (auto simp: dependency_edges_def)
      with IH d(2) have "task_status dep \<noteq> Blocked" by blast
      with coming_moves [OF d(3), of x] still [OF d(2)] show False by blast
    qed
  qed
  assume t: "task_at j2 i = Some t"
  then have "task_status t \<noteq> Blocked" using nb [of i] by auto
  moreover have "task_status t \<noteq> Todo"
    using still [OF t] by (auto simp: keeps_open_def check_availability_at_def)
  ultimately show ?thesis using still [OF t] not_resolved_iff [of t] by auto
qed

section \<open>Settling\<close>

lemma settled_state:
  assumes p: "prepared j (read c 0) j1 j2" and running: "job_status j2 = JobRunning"
    and nonempty: "tasks_by_id j2 \<noteq> []"
  shows "(\<exists>i t. task_at j2 i = Some t \<and> (task_status t = Started \<or> keeps_open x (read c 0) t)) \<and>
      close_iteration x c w j2 = (j2, Inr False) \<or>
    (\<forall>i t. task_at j2 i = Some t \<longrightarrow> is_resolved t \<and> \<not> keeps_open x (read c 0) t) \<and>
      close_iteration x c w j2 =
        (j2\<lparr>job_status := (if failure_unanswered j2 (read c 0) then JobFailed else JobCompleted),
            updated_by_worker_id := w, completed_at := Some (read c 1)\<rparr>, Inr True)"
proof -
  have wf: "job_wf j2" using p by (simp add: prepared_def)
  note tasks = in_tasks_iff [OF wf]
  show ?thesis
  proof (cases "has_started_task j2 \<or> (\<exists>t \<in> set (tasks_as_iter j2). keeps_open x (read c 0) t)")
    case True
    then have "close_iteration x c w j2 = (j2, Inr False)" by (simp add: close_iteration_def)
    moreover from True obtain i t where "task_at j2 i = Some t" "task_status t = Started \<or> keeps_open x (read c 0) t"
      unfolding has_started_task_def Bex_def tasks by blast
    ultimately show ?thesis by blast
  next
    case False
    then have still: "\<And>i t. task_at j2 i = Some t \<Longrightarrow> task_status t \<noteq> Started \<and> \<not> keeps_open x (read c 0) t"
      by (auto simp: has_started_task_def tasks)
    note resolved = no_blocked_task_left [OF p still]
    then have all: "all_tasks_resolved j2" using nonempty by (auto simp: all_tasks_resolved_def tasks)
    have "job_status_of_verdict (derive_iteration_verdict j2 (read c 0)) =
        (if failure_unanswered j2 (read c 0) then JobFailed else JobCompleted)"
      using derive_iteration_verdict_iff [OF wf, of "read c 0"]
      by (cases "derive_iteration_verdict j2 (read c 0)") auto
    moreover from this have "transition_to JobRunning (job_status_of_verdict (derive_iteration_verdict j2 (read c 0))) =
        Inr (if failure_unanswered j2 (read c 0) then JobFailed else JobCompleted)"
      by (auto simp: transition_to_Inr_iff)
    ultimately show ?thesis
      using False all running resolved still by (auto simp: close_iteration_def)
  qed
qed

lemma same_keys_nonempty: "cascade_inv j now us j1 \<Longrightarrow> tasks_by_id j \<noteq> [] \<Longrightarrow> tasks_by_id j1 \<noteq> []"
proof
  assume inv: "cascade_inv j now us j1" and ne: "tasks_by_id j \<noteq> []" and e: "tasks_by_id j1 = []"
  from ne obtain i t where "task_at j i = Some t" by (cases "tasks_by_id j") fastforce+
  with inv e show False by (force simp: cascade_inv_def)
qed

lemma prepared_nonempty:
  assumes p: "prepared j now j1 j2" and ne: "tasks_by_id j \<noteq> []"
  shows "tasks_by_id j2 \<noteq> []"
proof
  assume e: "tasks_by_id j2 = []"
  have "tasks_by_id j1 \<noteq> []" using p ne same_keys_nonempty by (auto simp: prepared_def)
  then obtain i t where "task_at j1 i = Some t" by (cases "tasks_by_id j1") fastforce+
  with p e show False by (force simp: prepared_def)
qed

lemma try_settle_cases:
  assumes wf: "job_wf j" and running: "job_status j = JobRunning" and ne: "tasks_by_id j \<noteq> []"
  obtains j1 j2 i t where "prepared j (read c 0) j1 j2" "try_settle_iteration x c w j = (j2, Inr False)"
    "task_at j2 i = Some t" "task_status t = Started \<or> keeps_open x (read c 0) t"
  | j1 j2 where "prepared j (read c 0) j1 j2"
    "try_settle_iteration x c w j =
       (j2\<lparr>job_status := (if failure_unanswered j2 (read c 0) then JobFailed else JobCompleted),
           updated_by_worker_id := w, completed_at := Some (read c 1)\<rparr>, Inr True)"
    "\<And>i t. task_at j2 i = Some t \<Longrightarrow> is_resolved t \<and> \<not> keeps_open x (read c 0) t"
proof -
  from settle_prepares [OF wf, of x c "read c 0"] obtain n j1 j2 where
    1: "skip_unreachable_tasks x c (read c 0) j = (j1, Inr n)"
    and 2: "unblock_satisfied_tasks (read c 0) j1 = (j2, Inr ())" and p: "prepared j (read c 0) j1 j2" .
  have e: "try_settle_iteration x c w j = close_iteration x c w j2"
    by (simp add: try_settle_iteration_def bindS_def 1 2)
  have "only_tasks_differ j j2" using p by (simp add: prepared_def)
  then have "job_status j2 = JobRunning" using only_tasks_differ_fields running by metis
  from settled_state [OF p this prepared_nonempty [OF p ne], of x w] show ?thesis
  proof
    assume "(\<exists>i t. task_at j2 i = Some t \<and> (task_status t = Started \<or> keeps_open x (read c 0) t)) \<and>
      close_iteration x c w j2 = (j2, Inr False)"
    with that(1) [OF p] e show ?thesis by metis
  next
    assume "(\<forall>i t. task_at j2 i = Some t \<longrightarrow> is_resolved t \<and> \<not> keeps_open x (read c 0) t) \<and>
      close_iteration x c w j2 =
        (j2\<lparr>job_status := (if failure_unanswered j2 (read c 0) then JobFailed else JobCompleted),
            updated_by_worker_id := w, completed_at := Some (read c 1)\<rparr>, Inr True)"
    then have a: "\<forall>i t. task_at j2 i = Some t \<longrightarrow> is_resolved t \<and> \<not> keeps_open x (read c 0) t"
      and b: "close_iteration x c w j2 =
        (j2\<lparr>job_status := (if failure_unanswered j2 (read c 0) then JobFailed else JobCompleted),
            updated_by_worker_id := w, completed_at := Some (read c 1)\<rparr>, Inr True)" by blast+
    show ?thesis by (rule that(2) [OF p trans [OF e b]]) (use a in blast)
  qed
qed

lemma settle_result:
  assumes "job_wf j" and "job_status j = JobRunning" and "tasks_by_id j \<noteq> []"
  shows "\<exists>j' settled. try_settle_iteration x c w j = (j', Inr settled) \<and> job_wf j' \<and>
    (if settled
     then (\<forall>i t. task_at j' i = Some t \<longrightarrow> is_resolved t \<and> \<not> keeps_open x (read c 0) t) \<and>
       job_status j' = (if failure_unanswered j' (read c 0) then JobFailed else JobCompleted)
     else (\<exists>i t. task_at j' i = Some t \<and> (task_status t = Started \<or> keeps_open x (read c 0) t)) \<and>
       job_status j' = JobRunning)"
proof (rule try_settle_cases [OF assms, of c x w])
  fix j1 j2 i t
  assume p: "prepared j (read c 0) j1 j2" and r: "try_settle_iteration x c w j = (j2, Inr False)"
    and t: "task_at j2 i = Some t" "task_status t = Started \<or> keeps_open x (read c 0) t"
  have "only_tasks_differ j j2" using p by (simp add: prepared_def)
  then have "job_status j2 = JobRunning" using only_tasks_differ_fields assms(2) by metis
  with p r t show ?thesis by (auto simp: prepared_def)
next
  fix j1 j2
  assume p: "prepared j (read c 0) j1 j2"
    and r: "try_settle_iteration x c w j =
       (j2\<lparr>job_status := (if failure_unanswered j2 (read c 0) then JobFailed else JobCompleted),
           updated_by_worker_id := w, completed_at := Some (read c 1)\<rparr>, Inr True)"
    and t: "\<And>i t. task_at j2 i = Some t \<Longrightarrow> is_resolved t \<and> \<not> keeps_open x (read c 0) t"
  have "failure_unanswered (j2\<lparr>job_status := s, updated_by_worker_id := w, completed_at := a\<rparr>) now =
      failure_unanswered j2 now" for s a now
    by (simp add: failure_unanswered_def failure_handled_def)
  moreover have "job_wf j2" using p by (simp add: prepared_def)
  ultimately show ?thesis
    using t by (intro exI [of _ True] exI [of _ "fst (try_settle_iteration x c w j)"]) (simp add: r)
qed

lemma settle_outcome:
  assumes "job_wf j" and "job_status j = JobRunning" and "tasks_by_id j \<noteq> []"
  shows "\<exists>j' settled. try_settle_iteration x c w j = (j', Inr settled) \<and> job_wf j' \<and>
    (if settled
     then (\<forall>i t. task_at j' i = Some t \<longrightarrow> is_resolved t \<and> \<not> keeps_open x (read c 0) t) \<and>
       is_closed_status (job_status j')
     else (\<exists>i t. task_at j' i = Some t \<and> (task_status t = Started \<or> keeps_open x (read c 0) t)) \<and>
       job_status j' = JobRunning)"
proof -
  obtain j' settled where r: "try_settle_iteration x c w j = (j', Inr settled)" "job_wf j'"
    "if settled
     then (\<forall>i t. task_at j' i = Some t \<longrightarrow> is_resolved t \<and> \<not> keeps_open x (read c 0) t) \<and>
       job_status j' = (if failure_unanswered j' (read c 0) then JobFailed else JobCompleted)
     else (\<exists>i t. task_at j' i = Some t \<and> (task_status t = Started \<or> keeps_open x (read c 0) t)) \<and>
       job_status j' = JobRunning" using settle_result [OF assms, of x c w] by blast
  have "is_closed_status (job_status j')" if settled using r(3) that by (simp add: closed_status_iff)
  with r show ?thesis by (cases settled) auto
qed



section \<open>Picking a task\<close>

lemma fail_tasks_by_lifetime_correct:
  assumes wf: "job_wf j"
  shows "\<exists>j'. fail_tasks_by_lifetime x c j = (j', Inr ()) \<and> only_tasks_differ j j' \<and>
    (\<forall>k. task_at j' k = map_option (\<lambda>t.
       if check_availability_at x t (read c 0) = ExpiredPastLifetime
       then t\<lparr>resolution_reason := describe_outlived_lifetime x t, task_retry := WhileBudgetLasts,
              task_status := Failed, task_completed_at := Some (stamp c k)\<rparr>
       else t) (task_at j k))"
proof -
  let ?ids = "expired_tasks x (read c 0) j"
  let ?f = "\<lambda>i t. fail (stamp c i) (describe_outlived_lifetime x t) WhileBudgetLasts t"
  let ?g = "\<lambda>i t. t\<lparr>resolution_reason := describe_outlived_lifetime x t, task_retry := WhileBudgetLasts,
              task_status := Failed, task_completed_at := Some (stamp c i)\<rparr>"
  have ids: "i \<in> set ?ids \<longleftrightarrow> (\<exists>t. task_at j i = Some t \<and> check_availability_at x t (read c 0) = ExpiredPastLifetime)" for i
    using in_set_iff_map_of [OF job_wf_distinct [OF wf], of i] by (auto simp: expired_tasks_def image_iff)
  have "distinct ?ids" unfolding expired_tasks_def by (rule distinct_map_filter [OF job_wf_distinct [OF wf]])
  moreover have "\<exists>t. task_at j i = Some t \<and> ?f i t = Inr (?g i t)" if "i \<in> set ?ids" for i
    using that by (auto simp: ids availability_Expired_iff fail_def)
  ultimately obtain j' where "forS (\<lambda>i. with_task i (?f i)) ?ids j = (j', Inr ())" "only_tasks_differ j j'"
    and at: "\<And>k. task_at j' k = (if k \<in> set ?ids then map_option (?g k) (task_at j k) else task_at j k)"
    using forS_with_task [of ?ids j ?f ?g] by blast
  moreover have "task_at j' k = map_option (\<lambda>t. if check_availability_at x t (read c 0) = ExpiredPastLifetime
      then ?g k t else t) (task_at j k)" for k
    by (cases "task_at j k") (auto simp: at ids)
  ultimately show ?thesis unfolding fail_tasks_by_lifetime_def by blast
qed

lemma find_pickable_task_Some:
  assumes "job_wf j" and "find_pickable_task x now j = Some i"
  shows "\<exists>t. task_at j i = Some t \<and> can_be_picked_up_at x t now"
proof -
  from assms(2) obtain t where "find (\<lambda>(_, t). can_be_picked_up_at x t now) (tasks_by_id j) = Some (i, t)"
    by (auto simp: find_pickable_task_def)
  then have "can_be_picked_up_at x t now" "(i, t) \<in> set (tasks_by_id j)" using find_Some_in by fastforce+
  with in_set_iff_map_of [OF job_wf_distinct [OF assms(1)]] show ?thesis by blast
qed

lemma ensure_running_correct:
  assumes "job_status j = JobStarted \<or> job_status j = JobRunning"
  shows "\<exists>j'. ensure_running now w j = (j', Inr ()) \<and> job_status j' = JobRunning \<and> tasks_by_id j' = tasks_by_id j"
  using assms by (auto simp: ensure_running_def start_work_def transition_to_def can_transition_to_def)

lemma only_tasks_nonempty:
  assumes "\<And>k. task_at j' k = map_option (f k) (task_at j k)" and "tasks_by_id j \<noteq> []"
  shows "tasks_by_id j' \<noteq> []"
proof
  assume e: "tasks_by_id j' = []"
  from assms(2) obtain i t where "task_at j i = Some t" by (cases "tasks_by_id j") fastforce+
  with assms(1) [of i] e show False by simp
qed

lemma read_later: "read (later n c) 0 = read c n"
  by (simp add: later_def)



end
