(* ===== verification/JM_Job_Props.thy ===== *)
theory JM_Job_Props
  imports JM_Settle
begin

text \<open>
  Guarantees of the operations of \<^verbatim>\<open>Job\<close> (\<^verbatim>\<open>core/job.rs\<close>): ownership of results, the rollback of a
  failed execution, the change to the next iteration, and what a merge after a lost race keeps and
  overwrites.
\<close>

section \<open>Ownership\<close>

lemma owned_with_task:
  assumes "task_at j i = Some t" and "processing_by_worker t = Some owner" and "owner \<noteq> w"
  shows "with_task i (\<lambda>t. bindR (check_task_owner t w) (\<lambda>_. f t)) j = (j, Inl TaskWorkerMismatch)"
  using assms by (simp add: with_task_def get_task_arc_def check_task_owner_def)



section \<open>The rollback of a failed execution\<close>

lemma execution_of_put:
  assumes "execution_of p j" and "task_at j i = Some t" and "created_by_task t' = created_by_task t"
    and "depends_on t' = depends_on t"
  shows "execution_of p (put_task i t' j)"
proof -
  have old: "\<exists>v. task_at j k = Some v \<and> created_by_task u = created_by_task v \<and> depends_on u = depends_on v"
    if "task_at (put_task i t' j) k = Some u" for k u
    using that assms(2-4) by (cases "k = i") auto
  show ?thesis unfolding execution_of_def
  proof (intro conjI allI impI)
    fix k u assume "task_at (put_task i t' j) k = Some u"
    with old [OF this] assms(1) show "created_by_task u = None \<or> created_by_task u = Some p"
      unfolding execution_of_def by metis
  next
    fix k u d v assume "task_at (put_task i t' j) k = Some u" "d \<in> set (depends_on u)"
      "task_at (put_task i t' j) d = Some v" "created_by_task v = Some p"
    with old [of k u] old [of d v] assms(1) show "created_by_task u = Some p"
      unfolding execution_of_def by metis
  qed
qed

lemma fail_task_Inr:
  assumes "fail_task now i msg retry w j = (j', Inr n)"
  shows "\<exists>t t'. task_at j i = Some t \<and> check_task_owner t w = Inr () \<and> fail now msg retry t = Inr t' \<and>
    j' = drop_created_by i (put_task i t' j) \<and>
    n = length (tasks_by_id (put_task i t' j)) - length (tasks_by_id j')"
  using assms by (auto simp: fail_task_def bindS_Inr_iff with_task_Inr_iff)

lemma count_kept_dropped:
  "length xs - length (filter P xs) = length (filter (\<lambda>v. \<not> P v) xs)"
  using sum_length_filter_compl [of P xs] by simp

text \<open>C35. Rollback. When an execution fails its own task, the task is failed, every task the execution created is
  gone and the number of them is returned, every other task is what it was, the invariant holds
  again, and no task can be created on behalf of that execution any more.\<close>
theorem fail_task_rolls_back:
  assumes wf: "job_wf j" and ex: "execution_of i j" and own: "\<And>t. task_at j i = Some t \<Longrightarrow> created_by_task t \<noteq> Some i"
    and r: "fail_task now i msg retry w j = (j', Inr n)"
  shows "job_wf j' \<and> execution_of i j' \<and>
    (\<exists>t. task_at j' i = Some t \<and> task_status t = Failed \<and> resolution_reason t = msg \<and> task_retry t = retry) \<and>
    (\<forall>k. k \<noteq> i \<longrightarrow> task_at j' k =
       (case task_at j k of None \<Rightarrow> None | Some t \<Rightarrow> if created_by_task t = Some i then None else Some t)) \<and>
    n = length (filter (\<lambda>(_, t). created_by_task t = Some i) (tasks_by_id j)) \<and>
    (\<forall>x new_id d w'. \<not> is_ok (snd (add_task x new_id d w' (Some i) j')))"
proof -
  from fail_task_Inr [OF r] obtain t t' where t: "task_at j i = Some t" "fail now msg retry t = Inr t'"
    and j': "j' = drop_created_by i (put_task i t' j)"
    and n: "n = length (tasks_by_id (put_task i t' j)) - length (tasks_by_id j')" by blast
  let ?p = "put_task i t' j"
  have same: "task_id t' = task_id t" "depends_on t' = depends_on t" "created_by_task t' = created_by_task t"
    "task_status t' = Failed" "resolution_reason t' = msg" "task_retry t' = retry"
    using t(2) by (auto simp: fail_Inr_iff)
  have wfp: "job_wf ?p"
    by (rule job_wf_put_task [OF wf t(1) same(1,2)]) (use task_wf_fail [OF _ t(2)] job_wf_task [OF wf t(1)] in auto)
  have exp: "execution_of i ?p" by (rule execution_of_put [OF ex t(1) same(3,2)])
  note at = task_at_drop [OF job_wf_distinct [OF wfp], of i]
  have ti: "task_at j' i = Some t'" using own [OF t(1)] same(3) by (simp add: j' at)
  have "execution_of i j'" using exp unfolding execution_of_def j' at by (auto split: option.splits if_splits)
  moreover have "task_at j' k =
      (case task_at j k of None \<Rightarrow> None | Some t \<Rightarrow> if created_by_task t = Some i then None else Some t)" if "k \<noteq> i" for k
    using that by (simp add: j' at split: option.split)
  moreover have "n = length (filter (\<lambda>(_, t). created_by_task t = Some i) (tasks_by_id j))"
  proof -
    have "n = length (filter (\<lambda>v. \<not> (case v of (_, t) \<Rightarrow> created_by_task t \<noteq> Some i)) (tasks_by_id ?p))"
      by (simp add: n j' drop_created_by_def count_kept_dropped)
    also have "\<dots> = count_values (\<lambda>t. created_by_task t = Some i) (AList.update i t' (tasks_by_id j))"
      by (simp add: count_values_def split_def)
    also have "\<dots> = count_values (\<lambda>t. created_by_task t = Some i) (tasks_by_id j)"
      using count_values_update [OF t(1), of "\<lambda>t. created_by_task t = Some i" t'] own [OF t(1)] same(3) by simp
    finally show ?thesis by (simp add: count_values_def)
  qed
  moreover have "\<not> is_ok (snd (add_task x new_id d w' (Some i) j'))" for x new_id d w'
  proof -
    have "\<not> is_ok (check_parent (Some i) j')"
      using ti same(4) by (simp add: check_parent_def get_task_arc_def is_failed_def)
    then have "add_task x new_id d w' (Some i) j' \<noteq> (j'', Inr k)" for j'' k
      by (auto simp: add_task_Inr_iff is_ok_iff)
    then show ?thesis by (metis is_ok_iff prod.collapse)
  qed
  moreover have "job_wf j'" unfolding j' by (rule job_wf_drop_created_by [OF wfp exp])
  ultimately show ?thesis using ti same by blast
qed

definition sample_executing :: job where
  "sample_executing = (put_task 12 (sample_task\<lparr>task_id := 12, created_by_task := Some 10\<rparr>)
     (put_task 10 (sample_started\<lparr>task_id := 10\<rparr>) sample_job))\<lparr>job_status := JobRunning\<rparr>"

lemma sample_executing_wf: "job_wf sample_executing"
proof -
  have a: "task_wf (sample_started\<lparr>task_id := 10\<rparr>)"
    using sample_wf(2) by (auto simp: task_wf_def has_run_def never_ran_def is_resolved_iff split: task_status.splits)
  have b: "task_wf (sample_task\<lparr>task_id := 12, created_by_task := Some 10\<rparr>)"
    using sample_wf(1) by (auto simp: task_wf_def has_run_def never_ran_def is_resolved_iff split: task_status.splits)
  have c: "job_wf (put_task 10 (sample_started\<lparr>task_id := 10\<rparr>) sample_job)"
    by (rule job_wf_put_task [OF sample_job_wf _ _ _ a, where t = "sample_task\<lparr>task_id := 10\<rparr>"])
      (auto simp: sample_job_def sample_started_def)
  have "job_wf (put_task 12 (sample_task\<lparr>task_id := 12, created_by_task := Some 10\<rparr>)
      (put_task 10 (sample_started\<lparr>task_id := 10\<rparr>) sample_job))"
    by (rule job_wf_insert [OF c _ _ b]) (auto simp: sample_job_def sample_task_def task_new_def)
  then show ?thesis by (simp add: sample_executing_def)
qed

lemma sample_executing_tasks: "tasks_by_id sample_executing = [(10, sample_started\<lparr>task_id := 10\<rparr>), (11, sample_waiting),
    (12, sample_task\<lparr>task_id := 12, created_by_task := Some 10\<rparr>)]"
  by (simp add: sample_executing_def sample_job_def)

lemma sample_executing_of: "execution_of 10 sample_executing"
  unfolding execution_of_def sample_executing_tasks
  by (auto simp: sample_started_def sample_waiting_def sample_task_def task_new_def split: if_splits)

theorem fail_task_rolls_back_witness:
  "job_wf sample_executing \<and> execution_of 10 sample_executing \<and>
   (\<exists>j'. fail_task 1 10 ''boom'' WhileBudgetLasts 7 sample_executing = (j', Inr 1) \<and> task_at j' 12 = None \<and> job_wf j')"
proof -
  note tasks = sample_executing_tasks and ex = sample_executing_of
  have own: "\<And>t. task_at sample_executing 10 = Some t \<Longrightarrow> created_by_task t \<noteq> Some 10"
    by (simp add: tasks sample_started_def sample_task_def task_new_def)
  obtain j' where r: "fail_task 1 10 ''boom'' WhileBudgetLasts 7 sample_executing = (j', Inr 1)"
    by (simp add: fail_task_def bindS_def with_task_def get_task_arc_def tasks check_task_owner_def
        fail_def drop_created_by_def sample_started_def sample_waiting_def sample_task_def task_new_def)
  from fail_task_rolls_back [OF sample_executing_wf ex own r] have "job_wf j'" "task_at j' 12 = None"
    by (auto simp: tasks)
  with sample_executing_wf ex r show ?thesis by blast
qed

section \<open>The next iteration\<close>

lemma u64_less_inc: "(a :: u64) < b \<Longrightarrow> a + 1 \<le> b \<and> a < a + 1"
  by unat_arith

definition next_iteration_due :: "externs \<Rightarrow> time \<Rightarrow> job \<Rightarrow> bool" where
  "next_iteration_due x now j \<longleftrightarrow> is_closed_status (job_status j) \<and>
     (\<forall>m. max_iterations j = Some m \<longrightarrow> iter_num j < m) \<and>
     (\<exists>due. next_iteration_start_at x j = Some due \<and> due \<le> now)"

lemma is_processed_iff: "is_processed j \<longleftrightarrow> is_closed_status (job_status j)"
  by (cases "job_status j") (auto simp: is_processed_def iteration_verdict_def)

lemma limit_reached_iff: "is_iteration_limit_reached j \<longleftrightarrow> (\<exists>m. max_iterations j = Some m \<and> m \<le> iter_num j)"
  by (auto simp: is_iteration_limit_reached_def split: option.splits)

lemma ready_iff: "is_ready_to_next_iteration x now j \<longleftrightarrow> next_iteration_due x now j"
  unfolding is_ready_to_next_iteration_def find_iteration_status_def is_processed_iff next_iteration_due_def
  by (auto simp: limit_reached_iff linorder_not_le split: option.splits)

lemma initial_task_status:
  "task_status (initial_task x w fresh defs p) = Todo \<or> task_status (initial_task x w fresh defs p) = Blocked"
  by (simp add: initial_task_def task_new_def)



section \<open>Merging a processed task\<close>

lemma merges_over_cong: "task_at j k = task_at j' k \<Longrightarrow> merges_over j w k t = merges_over j' w k t"
  by (simp add: merges_over_def)

lemma merge_tasks_at:
  assumes "distinct (map fst (tasks_by_id wj))"
  shows "task_at (merge_tasks wj w j) k = (case task_at wj k of
      None \<Rightarrow> task_at j k | Some t \<Rightarrow> if merges_over j w k t then Some t else task_at j k)"
proof -
  have "map_of (tasks_by_id (fold (\<lambda>(i, t) j. if merges_over j w i t then put_task i t j else j) xs j)) k =
      (case map_of xs k of None \<Rightarrow> task_at j k | Some t \<Rightarrow> if merges_over j w k t then Some t else task_at j k)"
    if "distinct (map fst xs)" for xs
    using that
  proof (induction xs arbitrary: j)
    case Nil
    then show ?case by simp
  next
    case (Cons p xs)
    obtain i t where p: "p = (i, t)" by fastforce
    let ?j = "if merges_over j w i t then put_task i t j else j"
    have IH: "map_of (tasks_by_id (fold (\<lambda>(i, t) j. if merges_over j w i t then put_task i t j else j) xs ?j)) k =
        (case map_of xs k of None \<Rightarrow> task_at ?j k | Some t \<Rightarrow> if merges_over ?j w k t then Some t else task_at ?j k)"
      by (rule Cons.IH) (use Cons.prems in simp)
    show ?case
    proof (cases "k = i")
      case True
      with Cons.prems p have "map_of xs k = None" by (simp add: map_of_eq_None_iff)
      with IH True show ?thesis by (simp add: p)
    next
      case False
      then have a: "task_at ?j k = task_at j k" by simp
      have m: "merges_over ?j w k s = merges_over j w k s" for s by (rule merges_over_cong [OF a])
      from IH [unfolded a m] False show ?thesis by (simp add: p)
    qed
  qed
  with assms show ?thesis by (simp add: merge_tasks_def)
qed

text \<open>A resolved task is not changed by settling, whatever the state around it.\<close>

lemma with_task_keeps_resolved:
  assumes "task_at j k = Some t" and "\<And>t'. f t = Inr t' \<Longrightarrow> t' = t"
  shows "task_at (fst (with_task i f j)) k = Some t"
proof (rule with_task_cases [of i f j])
  fix e assume "with_task i f j = (j, Inl e)"
  with assms(1) show ?thesis by simp
next
  fix s s' assume "task_at j i = Some s" "f s = Inr s'" "with_task i f j = (put_task i s' j, Inr ())"
  with assms show ?thesis by (cases "k = i") auto
qed

lemma skip_keeps_resolved: "is_resolved t \<Longrightarrow> skip now r c t = Inr t' \<Longrightarrow> t' = t"
  by (auto simp: skip_Inr_iff is_resolved_iff)

lemma unblock_keeps_resolved: "is_resolved t \<Longrightarrow> unblock t = t"
  by (auto simp: unblock_def is_resolved_iff)

lemma generations_keep_resolved:
  assumes "is_resolved t"
  shows "task_at j k = Some t \<Longrightarrow> task_at (fst (skip_generations x c index now us n j)) k = Some t"
proof (induction x c index now us n j rule: skip_generations.induct)
  case (1 x c index now us n j)
  obtain j' r where g: "forS (skip_unreachable x c) us j = (j', r)" by fastforce
  have "task_at (fst (forS (skip_unreachable x c) us j)) k = Some t"
    by (rule forS_invariant [where P = "\<lambda>j. task_at j k = Some t"])
      (use "1.prems" assms skip_keeps_resolved in \<open>auto simp: skip_unreachable_def intro!: with_task_keeps_resolved\<close>)
  with g have "task_at j' k = Some t" by simp
  with "1.IH" [OF _ g [symmetric]] "1.prems" g show ?case
    by (subst skip_generations.simps) (auto split: sum.splits)
qed

lemma settle_keeps_resolved:
  assumes "is_resolved t" and "task_at j k = Some t"
  shows "task_at (fst (try_settle_iteration x c w j)) k = Some t"
proof -
  obtain j1 r1 where 1: "skip_unreachable_tasks x c (read c 0) j = (j1, r1)" by fastforce
  have t1: "task_at j1 k = Some t"
    using generations_keep_resolved [OF assms] assms(2) 1
    by (auto simp: skip_unreachable_tasks_def Let_def split: if_splits) (metis fst_conv)
  obtain j2 r2 where 2: "unblock_satisfied_tasks (read c 0) j1 = (j2, r2)" by fastforce
  have "task_at (fst (unblock_satisfied_tasks (read c 0) j1)) k = Some t"
    unfolding unblock_satisfied_tasks_def
    by (rule forS_invariant [where P = "\<lambda>j. task_at j k = Some t"])
      (use t1 unblock_keeps_resolved [OF assms(1)] in \<open>auto intro!: with_task_keeps_resolved\<close>)
  with 2 have t2: "task_at j2 k = Some t" by simp
  have "tasks_by_id (fst (close_iteration x c w j2)) = tasks_by_id j2"
    by (auto simp: close_iteration_def split: sum.splits)
  with 1 2 t1 t2 show ?thesis
    by (cases r1; cases r2) (auto simp: try_settle_iteration_def bindS_def)
qed

lemma fst_bindS_return: "fst (bindS m (\<lambda>_. returnS b) s) = fst (m s)"
  by (auto simp: bindS_def returnS_def split: prod.split sum.split)

text \<open>What merging leaves of one task, where the merge is let through.\<close>

lemma merge_processed_at:
  assumes ids: "job_id j = job_id wj" and stolen: "check_task_stolen i w j = Inr ()" and open_: "\<not> is_processed j"
    and at: "task_at (merge_tasks wj w j) k = Some t" and resolved: "is_resolved t"
  shows "task_at (fst (merge_with_processed_task x c wj w i j)) k = Some t"
proof -
  let ?m = "(merge_tasks wj w j)\<lparr>updated_by_worker_id := w\<rparr>"
  obtain j1 r1 where 1: "ensure_running (read c 0) w ?m = (j1, r1)" by fastforce
  have t1: "tasks_by_id j1 = tasks_by_id (merge_tasks wj w j)"
    using 1 by (auto simp: ensure_running_def start_work_def split: if_splits sum.splits)
  let ?j2 = "j1\<lparr>running_at := (case running_at wj of Some r \<Rightarrow> Some r | None \<Rightarrow> running_at j1),
      next_start_at := (case next_start_at wj of Some n \<Rightarrow> Some n | None \<Rightarrow> next_start_at j1)\<rparr>"
  have t2: "task_at ?j2 k = Some t" using at by (simp add: t1)
  have "task_at (fst (try_settle_iteration x (later 1 c) w ?j2)) k = Some t"
    by (rule settle_keeps_resolved [OF resolved t2])
  then have "task_at (fst (bindS (try_settle_iteration x (later 1 c) w) (\<lambda>_. returnS ()) ?j2)) k = Some t"
    by (simp only: fst_bindS_return)
  moreover have "fst (merge_with_processed_task x c wj w i j) =
      (case r1 of Inl e \<Rightarrow> j1 | Inr _ \<Rightarrow> fst (bindS (try_settle_iteration x (later 1 c) w) (\<lambda>_. returnS ()) ?j2))"
    using ids stolen open_ 1
    by (cases r1) (simp_all add: merge_with_processed_task_def bindS_def modifyS_def)
  ultimately show ?thesis using t1 at by (cases r1) simp_all
qed

text \<open>C33. Merging a result. Where a merge of a processed task is let through, a result the worker holds for a task
  it owns is carried onto the stored state, and a task that is resolved in the stored state and that
  the worker's copy does not show as its own keeps the result stored for it.\<close>
theorem merge_with_processed_task_carries:
  assumes "job_id j = job_id wj" and "check_task_stolen i w j = Inr ()" and "\<not> is_processed j"
    and "distinct (map fst (tasks_by_id wj))"
  shows "(\<forall>t. task_at wj i = Some t \<longrightarrow> processing_by_worker t = Some w \<longrightarrow> is_resolved t \<longrightarrow>
       task_at (fst (merge_with_processed_task x c wj w i j)) i = Some t) \<and>
    (\<forall>k t. task_at j k = Some t \<longrightarrow> is_resolved t \<longrightarrow>
       (\<forall>t'. task_at wj k = Some t' \<longrightarrow> processing_by_worker t' \<noteq> Some w) \<longrightarrow>
       task_at (fst (merge_with_processed_task x c wj w i j)) k = Some t)"
proof (intro conjI allI impI)
  fix t assume t: "task_at wj i = Some t" "processing_by_worker t = Some w" "is_resolved t"
  then have "task_at (merge_tasks wj w j) i = Some t"
    by (simp add: merge_tasks_at [OF assms(4)] merges_over_def)
  then show "task_at (fst (merge_with_processed_task x c wj w i j)) i = Some t"
    by (rule merge_processed_at [OF assms(1-3) _ t(3)])
next
  fix k t assume t: "task_at j k = Some t" "is_resolved t"
    and foreign: "\<forall>t'. task_at wj k = Some t' \<longrightarrow> processing_by_worker t' \<noteq> Some w"
  then have "task_at (merge_tasks wj w j) k = Some t"
    by (auto simp: merge_tasks_at [OF assms(4)] merges_over_def split: option.split)
  then show "task_at (fst (merge_with_processed_task x c wj w i j)) k = Some t"
    by (rule merge_processed_at [OF assms(1-3) _ t(2)])
qed

text \<open>C34. Stale results. A merge also carries over every other task the worker's snapshot shows as processed by
  it, whatever the stored state holds for that task: a task this worker was refused earlier, and
  which another worker has completed since, comes back as failed.\<close>
theorem merge_with_processed_task_reverts:
  assumes "job_id j = job_id wj" and "check_task_stolen i w j = Inr ()" and "\<not> is_processed j"
    and "distinct (map fst (tasks_by_id wj))"
    and "task_at wj k = Some old" and "processing_by_worker old = Some w" and "is_failed old"
  shows "task_at (fst (merge_with_processed_task x c wj w i j)) k = Some old"
proof (rule merge_processed_at [OF assms(1-3)])
  show "task_at (merge_tasks wj w j) k = Some old"
    using assms(5,6) by (simp add: merge_tasks_at [OF assms(4)] merges_over_def)
  show "is_resolved old" using assms(7) by (simp add: is_resolved_iff is_failed_def)
qed

text \<open>
  Worker 7 was refused task 1 and then completed task 2; meanwhile worker 8 retried and completed
  task 1 and stored the job.
\<close>

definition sample_done_by :: "uuid \<Rightarrow> uuid \<Rightarrow> task" where
  "sample_done_by i w = sample_started\<lparr>task_id := i, processing_by_worker := Some w,
     task_status := Completed, task_output := [1], task_completed_at := Some 3\<rparr>"

definition sample_stored :: job where
  "sample_stored = sample_job\<lparr>job_status := JobRunning, tasks_by_id :=
     [(1, sample_done_by 1 8), (2, sample_started\<lparr>task_id := 2\<rparr>)]\<rparr>"

definition sample_snapshot :: job where
  "sample_snapshot = sample_job\<lparr>job_status := JobRunning, tasks_by_id :=
     [(1, sample_failed), (2, sample_done_by 2 7)]\<rparr>"

lemmas sample_race_defs =
  sample_stored_def sample_snapshot_def sample_job_def sample_done_by_def sample_started_def sample_failed_def

lemma sample_race:
  "job_id sample_stored = job_id sample_snapshot" "check_task_stolen 2 7 sample_stored = Inr ()"
  "\<not> is_processed sample_stored" "distinct (map fst (tasks_by_id sample_snapshot))"
  by (simp_all add: sample_race_defs check_task_stolen_def get_task_arc_def check_task_owner_def
      is_processed_def iteration_verdict_def)

theorem merge_with_processed_task_carries_witness:
  "task_at (fst (merge_with_processed_task std_externs \<lparr>read = (\<lambda>_. 5), stamp = (\<lambda>_. 5)\<rparr> sample_snapshot 7 2 sample_stored)) 2 =
     Some (sample_done_by 2 7)"
proof -
  have t: "task_at sample_snapshot 2 = Some (sample_done_by 2 7)" by (simp add: sample_snapshot_def)
  have "processing_by_worker (sample_done_by 2 7) = Some 7" "is_resolved (sample_done_by 2 7)"
    by (simp_all add: sample_done_by_def is_resolved_iff)
  with t merge_with_processed_task_carries [OF sample_race, of std_externs "\<lparr>read = (\<lambda>_. 5), stamp = (\<lambda>_. 5)\<rparr>"]
  show ?thesis by blast
qed

theorem merge_with_processed_task_reverts_witness:
  "task_at sample_stored 1 = Some (sample_done_by 1 8) \<and> is_completed (sample_done_by 1 8) \<and>
   task_at (fst (merge_with_processed_task std_externs \<lparr>read = (\<lambda>_. 5), stamp = (\<lambda>_. 5)\<rparr> sample_snapshot 7 2 sample_stored)) 1 =
     Some sample_failed \<and> is_failed sample_failed"
proof -
  have t: "task_at sample_snapshot 1 = Some sample_failed" by (simp add: sample_snapshot_def)
  have o: "processing_by_worker sample_failed = Some 7" "is_failed sample_failed"
    by (simp_all add: sample_failed_def sample_started_def is_failed_def)
  have "task_at sample_stored 1 = Some (sample_done_by 1 8)" "is_completed (sample_done_by 1 8)"
    by (simp_all add: sample_stored_def sample_done_by_def is_completed_def)
  with o merge_with_processed_task_reverts [OF sample_race t o, of std_externs "\<lparr>read = (\<lambda>_. 5), stamp = (\<lambda>_. 5)\<rparr>"]
  show ?thesis by blast
qed

end
