(* ===== verification/JM_State.thy ===== *)
theory JM_State
  imports JM_Job_Wf
begin

text \<open>
  \<^verbatim>\<open>storage/state.rs\<close>: what every backend persists of a job and how a load rebuilds it. The structure
  that is stored is modelled; its bytes are the business of the codec, which is a third-party one.
  The round trip loses exactly what the module documents as not persisted.
\<close>

section \<open>The stored structures\<close>

record stored_task =
  st_id :: uuid
  st_code :: string
  st_status :: task_status
  st_created_by_worker :: uuid
  st_timeout_ms :: int
  st_max_lifetime_ms :: int
  st_processing_by :: "uuid option"
  st_started_at :: "time option"
  st_completed_at :: "time option"
  st_deadline_at :: "time option"
  st_lifetime_deadline_at :: "time option"
  st_attempt :: u32
  st_max_attempts :: u32
  st_input :: bytes
  st_output :: bytes
  st_resolution_reason :: string
  st_retry :: task_retry
  st_tolerance :: dependency_tolerance
  st_depends_on :: "uuid list"

definition from_task :: "externs \<Rightarrow> task \<Rightarrow> stored_task" where
  "from_task x t =
     \<lparr>st_id = task_id t, st_code = task_code t, st_status = task_status t,
      st_created_by_worker = created_by_worker t,
      st_timeout_ms = num_milliseconds x (task_timeout t),
      st_max_lifetime_ms = num_milliseconds x (task_max_lifetime t),
      st_processing_by = processing_by_worker t, st_started_at = task_started_at t,
      st_completed_at = task_completed_at t, st_deadline_at = deadline_at t,
      st_lifetime_deadline_at = lifetime_deadline_at t, st_attempt = attempt t,
      st_max_attempts = max_attempts t, st_input = task_input t, st_output = task_output t,
      st_resolution_reason = resolution_reason t, st_retry = task_retry t,
      st_tolerance = task_tolerance t, st_depends_on = depends_on t\<rparr>"

definition into_task :: "externs \<Rightarrow> stored_task \<Rightarrow> task" where
  "into_task x s = task_restore
     \<lparr>restored_id = st_id s, restored_code = st_code s, restored_status = st_status s,
      restored_processing_by_worker = st_processing_by s,
      restored_created_by_worker = st_created_by_worker s,
      restored_timeout = milliseconds x (st_timeout_ms s),
      restored_max_lifetime = milliseconds x (st_max_lifetime_ms s),
      restored_started_at = st_started_at s, restored_completed_at = st_completed_at s,
      restored_deadline_at = st_deadline_at s,
      restored_lifetime_deadline_at = st_lifetime_deadline_at s,
      restored_attempt = st_attempt s, restored_max_attempts = st_max_attempts s,
      restored_input = st_input s, restored_output = st_output s,
      restored_resolution_reason = st_resolution_reason s, restored_retry = st_retry s,
      restored_tolerance = st_tolerance s, restored_depends_on = st_depends_on s\<rparr>"

record stored_job =
  sj_id :: uuid
  sj_code :: string
  sj_iter_num :: u64
  sj_status :: job_status
  sj_tasks :: "stored_task list"
  sj_updated_by :: uuid
  sj_started_at :: time
  sj_running_at :: "time option"
  sj_completed_at :: "time option"
  sj_next_start_at :: "time option"
  sj_metadata :: "(string \<times> json_value) list option"

definition from_job :: "externs \<Rightarrow> job \<Rightarrow> stored_job" where
  "from_job x j =
     \<lparr>sj_id = job_id j, sj_code = job_code j, sj_iter_num = iter_num j, sj_status = job_status j,
      sj_tasks = map (from_task x) (tasks_as_iter j), sj_updated_by = updated_by_worker_id j,
      sj_started_at = started_at j, sj_running_at = running_at j, sj_completed_at = completed_at j,
      sj_next_start_at = next_start_at j,
      sj_metadata = (if metadata j = [] then None else Some (metadata j))\<rparr>"

definition into_job ::
  "externs \<Rightarrow> u64 option \<Rightarrow> duration option \<Rightarrow> task_limits \<Rightarrow> string \<Rightarrow> stored_job \<Rightarrow> job" where
  "into_job x max_iter interval limits ver s =
     restore (sj_id s) (sj_code s) ver (sj_iter_num s) (sj_status s) (map (into_task x) (sj_tasks s))
       (sj_updated_by s) (sj_started_at s) (sj_running_at s) (sj_completed_at s) (sj_next_start_at s)
       (case sj_metadata s of Some m \<Rightarrow> m | None \<Rightarrow> []) max_iter interval limits"

definition copy_persisted_state :: "externs \<Rightarrow> job \<Rightarrow> job" where
  "copy_persisted_state x j =
     into_job x (max_iterations j) (iteration_interval j) (job_limits j) (version j) (from_job x j)"

section \<open>The round trip\<close>

text \<open>A duration cut to whole milliseconds, and a task as it comes back from storage.\<close>

definition whole_millis :: "externs \<Rightarrow> delta \<Rightarrow> delta" where
  "whole_millis x d = milliseconds x (num_milliseconds x d)"

definition persisted_task :: "externs \<Rightarrow> task \<Rightarrow> task" where
  "persisted_task x t = t\<lparr>created_by_task := None, task_timeout := whole_millis x (task_timeout t),
     task_max_lifetime := whole_millis x (task_max_lifetime t)\<rparr>"

lemma into_from_task: "into_task x (from_task x t) = persisted_task x t"
  by (simp add: into_task_def from_task_def task_restore_def persisted_task_def whole_millis_def)

lemma fold_update_tasks:
  assumes "distinct (map task_id ts)" and "\<And>t. t \<in> set ts \<Longrightarrow> task_id t \<notin> fst ` set acc"
  shows "fold (\<lambda>t m. AList.update (task_id t) t m) ts acc = acc @ map (\<lambda>t. (task_id t, t)) ts"
  using assms
proof (induction ts arbitrary: acc)
  case Nil
  then show ?case by simp
next
  case (Cons t ts)
  have "task_id s \<notin> fst ` set (acc @ [(task_id t, t)])" if "s \<in> set ts" for s
    using Cons.prems that by (auto simp: rev_image_eqI)
  with Cons show ?case by (simp add: update_absent)
qed

lemma persisted_tasks:
  assumes "keys_ok j"
  shows "tasks_by_id (copy_persisted_state x j) = map (\<lambda>(i, t). (i, persisted_task x t)) (tasks_by_id j)"
proof -
  have ids: "task_id (snd p) = fst p" if "p \<in> set (tasks_by_id j)" for p
    using that assms by (auto simp: keys_ok_def)
  let ?ts = "map (\<lambda>p. persisted_task x (snd p)) (tasks_by_id j)"
  have keys: "map task_id ?ts = map fst (tasks_by_id j)" using ids by (simp add: persisted_task_def)
  have "tasks_by_id (copy_persisted_state x j) = fold (\<lambda>t m. AList.update (task_id t) t m) ?ts []"
    by (simp add: copy_persisted_state_def into_job_def restore_def from_job_def tasks_as_iter_def comp_def into_from_task)
  also have "\<dots> = map (\<lambda>t. (task_id t, t)) ?ts"
  proof -
    have "distinct (map task_id ?ts)" unfolding keys using assms by (simp add: keys_ok_def)
    from fold_update_tasks [OF this, of "[]"] show ?thesis by simp
  qed
  also have "\<dots> = map (\<lambda>(i, t). (i, persisted_task x t)) (tasks_by_id j)"
    using ids by (auto simp: persisted_task_def)
  finally show ?thesis .
qed

lemma copy_persisted_state_eq:
  assumes "keys_ok j"
  shows "copy_persisted_state x j = j\<lparr>tasks_by_id := map (\<lambda>(i, t). (i, persisted_task x t)) (tasks_by_id j)\<rparr>"
proof -
  have "copy_persisted_state x j = j\<lparr>tasks_by_id := tasks_by_id (copy_persisted_state x j)\<rparr>"
    by (simp add: copy_persisted_state_def into_job_def restore_def from_job_def)
  with persisted_tasks [OF assms] show ?thesis by metis
qed

lemma task_at_copy:
  "keys_ok j \<Longrightarrow> task_at (copy_persisted_state x j) i = map_option (persisted_task x) (task_at j i)"
  by (simp add: copy_persisted_state_eq map_of_map)

lemma task_wf_persisted: "task_wf (persisted_task x t) \<longleftrightarrow> task_wf t"
  by (simp add: persisted_task_def task_wf_def has_run_def never_ran_def is_resolved_def resolution_def
      cong: task_status.case_cong)

lemma job_wf_copy:
  assumes "job_wf j"
  shows "job_wf (copy_persisted_state x j)"
proof (rule job_wf_same_shape [OF assms])
  show "same_shape j (copy_persisted_state x j)"
  proof -
    have "map fst (tasks_by_id (copy_persisted_state x j)) = map fst (tasks_by_id j)"
      unfolding persisted_tasks [OF job_wf_keys [OF assms]] by (simp add: split_def comp_def)
    then show ?thesis unfolding same_shape_def task_at_copy [OF job_wf_keys [OF assms]] by (auto simp: persisted_task_def)
  qed
  fix i t assume "task_at (copy_persisted_state x j) i = Some t"
  then show "task_wf t" using job_wf_task [OF assms] by (auto simp: task_at_copy [OF job_wf_keys [OF assms]] task_wf_persisted)
qed

lemma persisted_task_idem:
  "externs_ok x \<Longrightarrow> persisted_task x (persisted_task x t) = persisted_task x t"
  by (simp add: persisted_task_def whole_millis_def num_milliseconds_milliseconds)

text \<open>C38. Persistence. What comes back from storage is the job that was saved: every task keeps its identifier,
  status, owner, moments, attempts, payloads, reason, tolerance and dependencies, and loses only the
  execution that created it and what its limits have below a millisecond. A job that was loaded
  once survives every further save and load unchanged, and the invariant of the iteration is kept.\<close>
theorem persisted_round_trip:
  assumes "externs_ok x" and "job_wf j"
  shows "copy_persisted_state x j = j\<lparr>tasks_by_id := map (\<lambda>(i, t). (i, t\<lparr>created_by_task := None,
      task_timeout := milliseconds x (num_milliseconds x (task_timeout t)),
      task_max_lifetime := milliseconds x (num_milliseconds x (task_max_lifetime t))\<rparr>)) (tasks_by_id j)\<rparr> \<and>
    job_wf (copy_persisted_state x j) \<and>
    copy_persisted_state x (copy_persisted_state x j) = copy_persisted_state x j"
proof -
  have wf: "job_wf (copy_persisted_state x j)" by (rule job_wf_copy [OF assms(2)])
  have "copy_persisted_state x (copy_persisted_state x j) = copy_persisted_state x j"
    using copy_persisted_state_eq [OF job_wf_keys [OF wf], of x]
      copy_persisted_state_eq [OF job_wf_keys [OF assms(2)], of x] persisted_tasks [OF job_wf_keys [OF assms(2)], of x]
    by (simp add: comp_def split_def persisted_task_idem [OF assms(1)])
  with wf copy_persisted_state_eq [OF job_wf_keys [OF assms(2)], of x] show ?thesis
    by (simp add: persisted_task_def whole_millis_def)
qed

theorem persisted_round_trip_witness:
  "externs_ok std_externs \<and> job_wf sample_job \<and>
   copy_persisted_state std_externs (copy_persisted_state std_externs sample_job) =
     copy_persisted_state std_externs sample_job"
  using persisted_round_trip [OF std_externs_ok sample_job_wf] std_externs_ok sample_job_wf by blast

end
