(* ===== verification/JM_Storage.thy ===== *)
theory JM_Storage
  imports JM_State JM_Errors
begin

text \<open>
  The storage interface of \<^verbatim>\<open>storage/mod.rs\<close> as a locale, with what its clients may rely on proved
  once, and \<^verbatim>\<open>storage/in_memory.rs\<close> as an implementation of it. A \<open>cancelled\<close> argument is what the
  cancellation token answered; the lock around the map makes each operation one step.
\<close>

section \<open>The contract of a storage with conditional writes\<close>

record job_meta =
  jm_code :: job_code
  jm_iter_num :: u64
  jm_version :: string

text \<open>
  \<open>lookup s c\<close> is the current iteration of job \<open>c\<close>, \<open>save j s\<close> the conditional write, \<open>age\<close> orders the
  versions a storage hands out and \<open>usable s\<close> says that it has a version left to hand out.
\<close>

locale conditional_storage =
  fixes lookup :: "'s \<Rightarrow> job_code \<Rightarrow> job option"
    and save :: "job \<Rightarrow> 's \<Rightarrow> 's \<times> job \<times> (storage_error + unit)"
    and usable :: "'s \<Rightarrow> bool"
    and age :: "string \<Rightarrow> nat"
  assumes save_refused: "save j s = (s', j', Inl e) \<Longrightarrow> s' = s \<and> j' = j"
    and save_condition: "save j s = (s', j', Inr ()) \<Longrightarrow>
      (case lookup s (job_code j) of
         None \<Rightarrow> version j = []
       | Some st \<Rightarrow> if version j = [] then iter_num j = iter_num st + 1
                   else iter_num j = iter_num st \<and> version j = version st)"
    and save_stores: "usable s \<Longrightarrow> save j s = (s', j', Inr ()) \<Longrightarrow>
      j' = update_version (version j') j \<and> version j' \<noteq> [] \<and>
      (\<exists>st. lookup s' (job_code j) = Some st \<and> version st = version j' \<and> iter_num st = iter_num j)"
    and save_newer: "usable s \<Longrightarrow> save j s = (s', j', Inr ()) \<Longrightarrow> lookup s (job_code j) = Some st \<Longrightarrow>
      age (version st) < age (version j')"
    and save_others: "save j s = (s', j', Inr ()) \<Longrightarrow> c \<noteq> job_code j \<Longrightarrow> lookup s' c = lookup s c"

text \<open>A storage that others save to: every save happens in a usable state, and may be refused.\<close>

inductive saves :: "(job \<Rightarrow> 's \<Rightarrow> 's \<times> job \<times> (storage_error + unit)) \<Rightarrow> ('s \<Rightarrow> bool) \<Rightarrow> 's \<Rightarrow> 's \<Rightarrow> bool"
  for save usable where
  saves_refl: "saves save usable s s"
| saves_step: "saves save usable s s1 \<Longrightarrow> usable s1 \<Longrightarrow> save j s1 = (s2, j', r) \<Longrightarrow> saves save usable s s2"

context conditional_storage
begin

lemma newer_kept:
  assumes "saves save usable s s'" and "lookup s c = Some st" and "a < age (version st)"
  shows "\<exists>st'. lookup s' c = Some st' \<and> a < age (version st')"
  using assms
proof (induction rule: saves.induct)
  case (saves_refl s)
  then show ?case by blast
next
  case (saves_step s s1 j s2 j' r)
  then obtain st1 where st1: "lookup s1 c = Some st1" "a < age (version st1)" by blast
  show ?case
  proof (cases r)
    case (Inl e)
    with saves_step save_refused st1 show ?thesis by metis
  next
    case (Inr u)
    with saves_step have ok: "save j s1 = (s2, j', Inr ())" by simp
    show ?thesis
    proof (cases "c = job_code j")
      case False
      with save_others [OF ok] st1 show ?thesis by auto
    next
      case True
      from save_stores [OF saves_step.hyps(2) ok] obtain st2 where
        "lookup s2 c = Some st2" "version st2 = version j'" by (auto simp: True)
      moreover have "age (version st1) < age (version j')"
        using save_newer [OF saves_step.hyps(2) ok] st1(1) True by auto
      ultimately show ?thesis using st1(2) by fastforce
    qed
  qed
qed

lemma stale_save_refused:
  assumes "usable s" and read: "lookup s (job_code j) = Some st" "version j = version st" "version st \<noteq> []"
    and win: "save winner s = (s1, winner', Inr ())" "job_code winner = job_code j"
    and later_: "saves save usable s1 s2"
  shows "\<exists>e. save j s2 = (s2, j, Inl e)"
proof -
  from save_stores [OF assms(1) win(1)] win(2) obtain st1 where
    st1: "lookup s1 (job_code j) = Some st1" "version st1 = version winner'" by auto
  moreover have "age (version st) < age (version winner')"
    using save_newer [OF assms(1) win(1)] read(1) win(2) by auto
  ultimately obtain st2 where st2: "lookup s2 (job_code j) = Some st2" "age (version j) < age (version st2)"
    using newer_kept [OF later_ st1(1)] read(2) by fastforce
  obtain s3 j3 r where r: "save j s2 = (s3, j3, r)" by (metis prod_cases3)
  show ?thesis
  proof (cases r)
    case (Inl e)
    with save_refused r show ?thesis by blast
  next
    case (Inr u)
    with r have "save j s2 = (s3, j3, Inr ())" by simp
    from save_condition [OF this] st2 read(2,3) show ?thesis by (auto split: if_splits)
  qed
qed

lemma second_creation_refused:
  assumes "usable s" and new: "version j = []" "version winner = []" "iter_num winner = iter_num j"
    and win: "save winner s = (s1, winner', Inr ())" "job_code winner = job_code j"
  shows "\<exists>e. save j s1 = (s1, j, Inl e)"
proof -
  from save_stores [OF assms(1) win(1)] win(2) new(3) obtain st1 where
    st1: "lookup s1 (job_code j) = Some st1" "iter_num st1 = iter_num j" by auto
  obtain s3 j3 r where r: "save j s1 = (s3, j3, r)" by (metis prod_cases3)
  show ?thesis
  proof (cases r)
    case (Inl e)
    with save_refused r show ?thesis by blast
  next
    case (Inr u)
    with r have "save j s1 = (s3, j3, Inr ())" by simp
    from save_condition [OF this] st1 new(1) show ?thesis by (auto split: if_splits)
  qed
qed

end

section \<open>The in-memory storage\<close>

record in_memory =
  jobs_by_code :: "job_code \<Rightarrow> job option"
  version_counter :: u64

definition in_memory_new :: in_memory where
  "in_memory_new = \<lparr>jobs_by_code = (\<lambda>_. None), version_counter = 0\<rparr>"

definition is_save_allowed :: "job \<Rightarrow> job option \<Rightarrow> bool" where
  "is_save_allowed j stored = (case (stored, version j = []) of
      (None, True) \<Rightarrow> iter_num j = 1
    | (None, False) \<Rightarrow> False
    | (Some st, True) \<Rightarrow> iter_num st + 1 = iter_num j
    | (Some st, False) \<Rightarrow> iter_num st = iter_num j \<and> version st = version j)"

definition mem_get_job :: "bool \<Rightarrow> job_code \<Rightarrow> in_memory \<Rightarrow> storage_error + job" where
  "mem_get_job cancelled c s =
     (if cancelled then Inl StorageCancelled
      else case jobs_by_code s c of
          Some j \<Rightarrow> Inr j | None \<Rightarrow> Inl (NotFound ''Job is absent in in-memory storage''))"

definition mem_get_job_by_meta :: "bool \<Rightarrow> job_meta \<Rightarrow> in_memory \<Rightarrow> storage_error + job" where
  "mem_get_job_by_meta cancelled m s =
     (if cancelled then Inl StorageCancelled
      else case jobs_by_code s (jm_code m) of
          Some j \<Rightarrow> if version j = jm_version m then Inr j
                   else Inl (ConcurrentModification ''Version mismatch in in-memory storage'')
        | None \<Rightarrow> Inl (NotFound ''Job is absent in in-memory storage''))"

definition mem_find_job_meta :: "bool \<Rightarrow> job_code \<Rightarrow> in_memory \<Rightarrow> storage_error + job_meta" where
  "mem_find_job_meta cancelled c s =
     (if cancelled then Inl StorageCancelled
      else case jobs_by_code s c of
          Some j \<Rightarrow> Inr \<lparr>jm_code = job_code j, jm_iter_num = iter_num j, jm_version = version j\<rparr>
        | None \<Rightarrow> Inl (NotFound ''Job is absent in in-memory storage''))"

definition mem_get_changed_job :: "bool \<Rightarrow> job_meta \<Rightarrow> in_memory \<Rightarrow> storage_error + job option" where
  "mem_get_changed_job cancelled m s =
     (if cancelled then Inl StorageCancelled
      else case jobs_by_code s (jm_code m) of
          Some j \<Rightarrow>
            if iter_num j \<noteq> jm_iter_num m
              then Inl (NotFound ''Job iteration is absent in in-memory storage'')
            else if version j = jm_version m then Inr None
            else Inr (Some j)
        | None \<Rightarrow> Inl (NotFound ''Job is absent in in-memory storage''))"

definition mem_save_job ::
  "externs \<Rightarrow> bool \<Rightarrow> job \<Rightarrow> in_memory \<Rightarrow> in_memory \<times> job \<times> (storage_error + unit)" where
  "mem_save_job x cancelled j s =
     (if cancelled then (s, j, Inl StorageCancelled)
      else if \<not> is_save_allowed j (jobs_by_code s (job_code j))
        then (s, j, Inl (ConcurrentModification ''job was modified in in-memory storage''))
      else
        let next_version = version_counter s + 1;
            j' = update_version (show_nat (unat next_version)) j
        in (\<lparr>jobs_by_code = (jobs_by_code s)(job_code j' \<mapsto> copy_persisted_state x j'),
             version_counter = next_version\<rparr>, j', Inr ()))"

definition mem_list_job_outdated_iterations ::
  "bool \<Rightarrow> job_code \<Rightarrow> u64 \<Rightarrow> in_memory \<Rightarrow> storage_error + u64 list" where
  "mem_list_job_outdated_iterations cancelled c boundary s =
     (if cancelled then Inl StorageCancelled else Inr [])"

definition mem_delete_job_iterations ::
  "bool \<Rightarrow> job_code \<Rightarrow> u64 list \<Rightarrow> in_memory \<Rightarrow> in_memory \<times> (storage_error + unit)" where
  "mem_delete_job_iterations cancelled c iters s =
     (s, if cancelled then Inl StorageCancelled else Inr ())"

text \<open>Versions are numbers up to the counter, and the counter has not run out.\<close>

definition mem_usable :: "in_memory \<Rightarrow> bool" where
  "mem_usable s \<longleftrightarrow> unat (version_counter s) + 1 < 2 ^ 64 \<and>
     (\<forall>c j. jobs_by_code s c = Some j \<longrightarrow> (\<exists>k \<le> unat (version_counter s). version j = show_nat k))"

lemma copy_meta:
  "version (copy_persisted_state x j) = version j" "iter_num (copy_persisted_state x j) = iter_num j"
  "job_code (copy_persisted_state x j) = job_code j"
  by (simp_all add: copy_persisted_state_def into_job_def restore_def from_job_def)

lemma update_version_fields [simp]:
  "version (update_version v j) = v" "iter_num (update_version v j) = iter_num j"
  "job_code (update_version v j) = job_code j"
  by (simp_all add: update_version_def)

lemma mem_save_Inr:
  assumes "mem_save_job x cancelled j s = (s', j', Inr ())"
  shows "is_save_allowed j (jobs_by_code s (job_code j)) \<and>
    j' = update_version (show_nat (unat (version_counter s + 1))) j \<and>
    s' = \<lparr>jobs_by_code = (jobs_by_code s)(job_code j \<mapsto> copy_persisted_state x j'),
          version_counter = version_counter s + 1\<rparr>"
  using assms by (auto simp: mem_save_job_def Let_def split: if_splits)

lemma mem_counter_next:
  "mem_usable s \<Longrightarrow> unat (version_counter s + 1) = unat (version_counter s) + 1"
  by (simp add: mem_usable_def unat_word_ariths)

interpretation memory: conditional_storage jobs_by_code "mem_save_job x cancelled" mem_usable decimal_value
proof unfold_locales
  show "s' = s \<and> j' = j" if "mem_save_job x cancelled j s = (s', j', Inl e)" for j s s' j' e
    using that by (auto simp: mem_save_job_def Let_def split: if_splits)
  show "case jobs_by_code s (job_code j) of None \<Rightarrow> version j = []
      | Some st \<Rightarrow> if version j = [] then iter_num j = iter_num st + 1
                  else iter_num j = iter_num st \<and> version j = version st"
    if "mem_save_job x cancelled j s = (s', j', Inr ())" for j s s' j'
    using mem_save_Inr [OF that] by (auto simp: is_save_allowed_def split: option.splits bool.splits)
  show "j' = update_version (version j') j \<and> version j' \<noteq> [] \<and>
      (\<exists>st. jobs_by_code s' (job_code j) = Some st \<and> version st = version j' \<and> iter_num st = iter_num j)"
    if "mem_save_job x cancelled j s = (s', j', Inr ())" for j s s' j'
    using mem_save_Inr [OF that] by (auto simp: copy_meta)
  show "decimal_value (version st) < decimal_value (version j')"
    if u: "mem_usable s" and r: "mem_save_job x cancelled j s = (s', j', Inr ())"
      and st: "jobs_by_code s (job_code j) = Some st" for j s s' j' st
  proof -
    from u st obtain k where "k \<le> unat (version_counter s)" "version st = show_nat k"
      by (auto simp: mem_usable_def)
    with mem_save_Inr [OF r] mem_counter_next [OF u] show ?thesis by auto
  qed
  show "jobs_by_code s' c = jobs_by_code s c"
    if "mem_save_job x cancelled j s = (s', j', Inr ())" "c \<noteq> job_code j" for j s s' j' c
    using mem_save_Inr [OF that(1)] that(2) by auto
qed

section \<open>What the in-memory storage guarantees\<close>

lemma mem_save_error:
  "mem_save_job x False j s = (s', j', Inl e) \<Longrightarrow>
     e = ConcurrentModification ''job was modified in in-memory storage''"
  by (auto simp: mem_save_job_def Let_def split: if_splits)

lemma mem_version_not_Nil: "mem_usable s \<Longrightarrow> jobs_by_code s c = Some j \<Longrightarrow> version j \<noteq> []"
  unfolding mem_usable_def using show_nat_not_Nil by metis

text \<open>C15. No lost update. Once another worker has saved over the version a worker read, and whatever is saved after
  that, the worker's own save of the version it read is refused as a concurrent modification, and
  leaves the storage and the worker's copy as they were.\<close>
theorem mem_no_lost_update:
  assumes usable: "mem_usable s" and read_: "mem_get_job False c s = Inr base"
    and mine: "job_code mine = c" "version mine = version base"
    and win: "mem_save_job x cancelled winner s = (s1, winner', Inr ())" "job_code winner = c"
    and later_: "saves (mem_save_job x cancelled) mem_usable s1 s2"
  shows "mem_save_job x cancelled mine s2 = (s2, mine, Inl StorageCancelled) \<or>
    mem_save_job x cancelled mine s2 =
      (s2, mine, Inl (ConcurrentModification ''job was modified in in-memory storage''))"
proof -
  have st: "jobs_by_code s (job_code mine) = Some base"
    using read_ mine(1) by (auto simp: mem_get_job_def split: option.splits)
  have nn: "version base \<noteq> []" using mem_version_not_Nil [OF usable st] .
  have w: "job_code winner = job_code mine" using win(2) mine(1) by simp
  obtain e where e: "mem_save_job x cancelled mine s2 = (s2, mine, Inl e)"
    using memory.stale_save_refused [OF usable st mine(2) nn win(1) w later_] by blast
  show ?thesis
  proof (cases cancelled)
    case True
    then show ?thesis by (simp add: mem_save_job_def)
  next
    case False
    with e mem_save_error [of x mine s2 s2 mine e] show ?thesis by simp
  qed
qed

text \<open>Creation race. When two workers create the same iteration of a job, the one that comes second is refused.\<close>
lemma mem_creation_race:
  assumes "mem_usable s" and "version mine = []" and "version winner = []" and "iter_num winner = iter_num mine"
    and "job_code winner = job_code mine" and "mem_save_job x False winner s = (s1, winner', Inr ())"
  shows "mem_save_job x False mine s1 =
    (s1, mine, Inl (ConcurrentModification ''job was modified in in-memory storage''))"
proof -
  obtain e where "mem_save_job x False mine s1 = (s1, mine, Inl e)"
    using memory.second_creation_refused [OF assms(1-4,6,5)] by blast
  with mem_save_error [of x mine s1 s1 mine e] show ?thesis by simp
qed

text \<open>Reading a save back. A save that is accepted hands the worker the version the storage now answers
  with, a reader gets the persisted form of what was saved, a check against the new version reports
  no change, and a check against the version saved over reports the new state.\<close>
lemma mem_save_then_read:
  assumes "mem_usable s" and "mem_save_job x False j s = (s', j', Inr ())"
  shows "mem_get_job False (job_code j) s' = Inr (copy_persisted_state x j') \<and>
    mem_find_job_meta False (job_code j) s' =
      Inr \<lparr>jm_code = job_code j, jm_iter_num = iter_num j, jm_version = version j'\<rparr> \<and>
    mem_get_changed_job False \<lparr>jm_code = job_code j, jm_iter_num = iter_num j, jm_version = version j'\<rparr> s' = Inr None \<and>
    (version j \<noteq> [] \<longrightarrow>
      mem_get_changed_job False \<lparr>jm_code = job_code j, jm_iter_num = iter_num j, jm_version = version j\<rparr> s' =
        Inr (Some (copy_persisted_state x j')))"
proof -
  note r = mem_save_Inr [OF assms(2)]
  have at: "jobs_by_code s' (job_code j) = Some (copy_persisted_state x j')" using r by simp
  have meta: "version (copy_persisted_state x j') = version j'" "iter_num (copy_persisted_state x j') = iter_num j"
    "job_code (copy_persisted_state x j') = job_code j" using r by (simp_all add: copy_meta)
  have "version j' \<noteq> version j" if ne: "version j \<noteq> []"
  proof -
    from r ne obtain st where st: "jobs_by_code s (job_code j) = Some st" "version st = version j"
      by (auto simp: is_save_allowed_def split: option.splits bool.splits)
    with memory.save_newer [OF assms(1,2) st(1)] show ?thesis by auto
  qed
  with at meta show ?thesis by (auto simp: mem_get_job_def mem_find_job_meta_def mem_get_changed_job_def)
qed

text \<open>A storage after one save, and the job its saver and two readers hold.\<close>

definition sample_reread :: job where
  "sample_reread = copy_persisted_state std_externs (update_version ''1'' sample_job)"

definition sample_memory :: in_memory where
  "sample_memory = \<lparr>jobs_by_code = (\<lambda>_. None)(''job'' \<mapsto> sample_reread), version_counter = 1\<rparr>"

lemma show_nat_1: "show_nat (Suc 0) = ''1''"
  by code_simp

lemma sample_first_save:
  "mem_save_job std_externs False sample_job in_memory_new = (sample_memory, update_version ''1'' sample_job, Inr ())"
  by (simp add: mem_save_job_def in_memory_new_def is_save_allowed_def sample_job_def Let_def show_nat_1
      sample_memory_def sample_reread_def update_version_def)

lemma in_memory_new_usable: "mem_usable in_memory_new"
  by (simp add: mem_usable_def in_memory_new_def)

lemma sample_memory_usable: "mem_usable sample_memory"
  by (auto simp: mem_usable_def sample_memory_def sample_reread_def copy_meta show_nat_1 intro!: exI [of _ 1])

lemma sample_reread_meta: "job_code sample_reread = ''job''" "version sample_reread = ''1''" "iter_num sample_reread = 1"
  by (simp_all add: sample_reread_def copy_meta sample_job_def)

lemma sample_second_save:
  "\<exists>s1 j1. mem_save_job std_externs False sample_reread sample_memory = (s1, j1, Inr ())"
  by (simp add: mem_save_job_def is_save_allowed_def sample_memory_def sample_reread_meta Let_def)

theorem mem_no_lost_update_witness:
  "mem_get_job False ''job'' sample_memory = Inr sample_reread \<and>
   (\<exists>s1 j1. mem_save_job std_externs False sample_reread sample_memory = (s1, j1, Inr ()) \<and>
      mem_save_job std_externs False sample_reread s1 =
        (s1, sample_reread, Inl (ConcurrentModification ''job was modified in in-memory storage'')))"
proof -
  have g: "mem_get_job False ''job'' sample_memory = Inr sample_reread"
    by (simp add: mem_get_job_def sample_memory_def)
  obtain s1 j1 where w: "mem_save_job std_externs False sample_reread sample_memory = (s1, j1, Inr ())"
    using sample_second_save by blast
  have "mem_save_job std_externs False sample_reread s1 \<noteq> (s1, sample_reread, Inl StorageCancelled)"
    by (auto simp: mem_save_job_def Let_def)
  with g w mem_no_lost_update [OF sample_memory_usable g sample_reread_meta(1) refl w sample_reread_meta(1) saves_refl]
  show ?thesis by blast
qed

end
