(* ===== verification/JM_Registry.thy ===== *)
theory JM_Registry
  imports JM_Definition
begin

text \<open>
  \<^verbatim>\<open>core/registry.rs\<close>: the registry of job definitions and the flat lookup of executors, with the
  condition under which a lookup finds the executor its job registered.
\<close>

section \<open>The registry\<close>

record job_registry =
  reg_jobs :: "(job_code \<times> job_definition) list"
  reg_executors :: "(string \<times> executor) list"

definition task_executor_key :: "job_code \<Rightarrow> task_code \<Rightarrow> string" where
  "task_executor_key jc tc = jc @ '':'' @ tc"

definition add_executors :: "job_code \<Rightarrow> (task_code \<times> executor) list \<Rightarrow> (string \<times> executor) list \<Rightarrow> (string \<times> executor) list" where
  "add_executors jc es m = fold (\<lambda>(tc, e) m. AList.update (task_executor_key jc tc) e m) es m"

definition register_job :: "job_definition \<Rightarrow> job_registry \<Rightarrow> error + job_registry" where
  "register_job d r =
     (if jd_code d = [] then Inl (ErrOther ''job code cannot be empty'')
      else if map_of (reg_jobs r) (jd_code d) \<noteq> None then Inl (ErrOther ''job has duplicate'')
      else Inr \<lparr>reg_jobs = AList.update (jd_code d) d (reg_jobs r),
                reg_executors = add_executors (jd_code d) (task_executors d) (reg_executors r)\<rparr>)"

definition registry_new :: "job_definition list \<Rightarrow> error + job_registry" where
  "registry_new jobs =
     (if jobs = [] then Inl (ErrOther ''jobs cannot be empty'')
      else foldR register_job jobs \<lparr>reg_jobs = [], reg_executors = []\<rparr>)"

definition get_job :: "job_code \<Rightarrow> job_registry \<Rightarrow> error + job_definition" where
  "get_job c r = (case map_of (reg_jobs r) c of
      Some d \<Rightarrow> Inr d | None \<Rightarrow> Inl (ErrOther ''job definition not found''))"

definition get_task_executor :: "job_code \<Rightarrow> task_code \<Rightarrow> job_registry \<Rightarrow> error + executor" where
  "get_task_executor jc tc r = (case map_of (reg_executors r) (task_executor_key jc tc) of
      Some e \<Rightarrow> Inr e | None \<Rightarrow> Inl (ErrOther ''executor for task and job not exist''))"

definition list_jobs :: "job_registry \<Rightarrow> job_code list" where
  "list_jobs r = map fst (reg_jobs r)"

definition jobs_count :: "job_registry \<Rightarrow> nat" where
  "jobs_count r = length (reg_jobs r)"

section \<open>Lookups\<close>

lemma key_inject:
  assumes "CHR '':'' \<notin> set jc" and "CHR '':'' \<notin> set jc'"
  shows "task_executor_key jc tc = task_executor_key jc' tc' \<longleftrightarrow> jc = jc' \<and> tc = tc'"
  using assms
proof (induction jc arbitrary: jc')
  case Nil
  then show ?case by (cases jc') (auto simp: task_executor_key_def)
next
  case (Cons a jc)
  then show ?case by (cases jc') (auto simp: task_executor_key_def)
qed

text \<open>What the executors of one job add to the flat map.\<close>

lemma add_executors_other:
  assumes "\<And>tc'. tc' \<in> fst ` set es \<Longrightarrow> task_executor_key jc tc' \<noteq> k"
  shows "map_of (add_executors jc es m) k = map_of m k"
  using assms
proof (induction es arbitrary: m)
  case Nil
  then show ?case by (simp add: add_executors_def)
next
  case (Cons p es)
  obtain c e where p: "p = (c, e)" by fastforce
  have ne: "task_executor_key jc c \<noteq> k" using Cons.prems [of c] p by simp
  have "map_of (add_executors jc es (AList.update (task_executor_key jc c) e m)) k =
      map_of (AList.update (task_executor_key jc c) e m) k"
    by (rule Cons.IH) (use Cons.prems in simp)
  with ne show ?case by (simp add: add_executors_def p)
qed

lemma add_executors_own:
  assumes "distinct (map fst es)" and "CHR '':'' \<notin> set jc"
  shows "map_of (add_executors jc es m) (task_executor_key jc tc) =
    (case map_of es tc of Some e \<Rightarrow> Some e | None \<Rightarrow> map_of m (task_executor_key jc tc))"
  using assms(1)
proof (induction es arbitrary: m)
  case Nil
  then show ?case by (simp add: add_executors_def)
next
  case (Cons p es)
  obtain c e where p: "p = (c, e)" by fastforce
  have step: "add_executors jc (p # es) m = add_executors jc es (AList.update (task_executor_key jc c) e m)"
    by (simp add: add_executors_def p)
  show ?case
  proof (cases "c = tc")
    case True
    with Cons.prems p have "map_of es tc = None" by (simp add: map_of_eq_None_iff)
    with Cons True p step show ?thesis by simp
  next
    case False
    then have "task_executor_key jc c \<noteq> task_executor_key jc tc" by (simp add: task_executor_key_def)
    with Cons False p step show ?thesis by (simp split: option.split)
  qed
qed

text \<open>Which jobs a registry accepts, and that it holds them in the order they were given.\<close>

lemma register_job_Inr_iff:
  "register_job d r = Inr r' \<longleftrightarrow> jd_code d \<noteq> [] \<and> jd_code d \<notin> fst ` set (reg_jobs r) \<and>
     r' = \<lparr>reg_jobs = reg_jobs r @ [(jd_code d, d)],
           reg_executors = add_executors (jd_code d) (task_executors d) (reg_executors r)\<rparr>"
  by (auto simp: register_job_def map_of_eq_None_iff update_absent)

lemma foldR_register_job:
  "(is_ok (foldR register_job jobs r) \<longleftrightarrow> [] \<notin> jd_code ` set jobs \<and> distinct (map jd_code jobs) \<and>
      jd_code ` set jobs \<inter> fst ` set (reg_jobs r) = {}) \<and>
   (\<forall>r'. foldR register_job jobs r = Inr r' \<longrightarrow> reg_jobs r' = reg_jobs r @ map (\<lambda>d. (jd_code d, d)) jobs)"
proof (induction jobs arbitrary: r)
  case Nil
  then show ?case by simp
next
  case (Cons d jobs)
  show ?case
  proof (cases "register_job d r")
    case (Inl e)
    then have "jd_code d = [] \<or> jd_code d \<in> fst ` set (reg_jobs r)"
      by (auto simp: register_job_def map_of_eq_None_iff split: if_splits)
    with Inl show ?thesis by auto
  next
    case (Inr r1)
    then have new: "jd_code d \<noteq> []" "jd_code d \<notin> fst ` set (reg_jobs r)" and r1: "reg_jobs r1 = reg_jobs r @ [(jd_code d, d)]"
      by (simp_all add: register_job_Inr_iff)
    have step: "foldR register_job (d # jobs) r = foldR register_job jobs r1" using Inr by simp
    have ok: "is_ok (foldR register_job jobs r1) \<longleftrightarrow> [] \<notin> jd_code ` set jobs \<and> distinct (map jd_code jobs) \<and>
        jd_code ` set jobs \<inter> fst ` set (reg_jobs r1) = {}"
      and held: "\<And>r'. foldR register_job jobs r1 = Inr r' \<Longrightarrow> reg_jobs r' = reg_jobs r1 @ map (\<lambda>d. (jd_code d, d)) jobs"
      using Cons.IH [of r1] by blast+
    have "jd_code ` set jobs \<inter> fst ` set (reg_jobs r1) = {} \<longleftrightarrow>
        jd_code d \<notin> jd_code ` set jobs \<and> jd_code ` set jobs \<inter> fst ` set (reg_jobs r) = {}"
      by (simp add: r1)
    with new have "is_ok (foldR register_job jobs r1) \<longleftrightarrow> [] \<notin> jd_code ` set (d # jobs) \<and>
        distinct (map jd_code (d # jobs)) \<and> jd_code ` set (d # jobs) \<inter> fst ` set (reg_jobs r) = {}"
      unfolding ok by auto
    moreover have "reg_jobs r' = reg_jobs r @ map (\<lambda>d. (jd_code d, d)) (d # jobs)" if "foldR register_job jobs r1 = Inr r'" for r'
      using held [OF that] r1 by simp
    ultimately show ?thesis unfolding step by blast
  qed
qed

lemma registry_new_accepts_iff:
  "is_ok (registry_new jobs) \<longleftrightarrow> jobs \<noteq> [] \<and> [] \<notin> jd_code ` set jobs \<and> distinct (map jd_code jobs)"
  using foldR_register_job [of jobs "\<lparr>reg_jobs = [], reg_executors = []\<rparr>"] by (auto simp: registry_new_def)

lemma registry_new_jobs: "registry_new jobs = Inr r \<Longrightarrow> reg_jobs r = map (\<lambda>d. (jd_code d, d)) jobs"
  using foldR_register_job [of jobs "\<lparr>reg_jobs = [], reg_executors = []\<rparr>"]
  by (auto simp: registry_new_def split: if_splits)

definition registry_ok :: "job_definition list \<Rightarrow> job_registry \<Rightarrow> bool" where
  "registry_ok prev r \<longleftrightarrow> distinct (map jd_code prev) \<and>
     reg_jobs r = map (\<lambda>d. (jd_code d, d)) prev \<and>
     (\<forall>jc tc. CHR '':'' \<notin> set jc \<longrightarrow> map_of (reg_executors r) (task_executor_key jc tc) =
        (case map_of (reg_jobs r) jc of None \<Rightarrow> None | Some d \<Rightarrow> map_of (task_executors d) tc))"

lemma registry_ok_step:
  assumes ok: "registry_ok prev r" and colon: "CHR '':'' \<notin> set (jd_code d)"
    and es: "distinct (map fst (task_executors d))" and step: "register_job d r = Inr r'"
  shows "registry_ok (prev @ [d]) r'"
proof -
  have new: "jd_code d \<notin> jd_code ` set prev"
    and r': "r' = \<lparr>reg_jobs = reg_jobs r @ [(jd_code d, d)],
      reg_executors = add_executors (jd_code d) (task_executors d) (reg_executors r)\<rparr>"
    using step ok
    by (auto simp: register_job_def registry_ok_def map_of_eq_None_iff image_image update_absent split: if_splits)
  have "map_of (reg_executors r') (task_executor_key jc tc) =
      (case map_of (reg_jobs r') jc of None \<Rightarrow> None | Some d \<Rightarrow> map_of (task_executors d) tc)"
    if jc: "CHR '':'' \<notin> set jc" for jc tc
  proof (cases "jc = jd_code d")
    case True
    have "map_of (reg_jobs r) jc = None"
      using new ok True by (simp add: registry_ok_def map_of_eq_None_iff image_image)
    with ok jc True add_executors_own [OF es colon, of "reg_executors r" tc] show ?thesis
      by (auto simp: r' registry_ok_def map_add_def split: option.splits)
  next
    case False
    then have "map_of (reg_executors r') (task_executor_key jc tc) = map_of (reg_executors r) (task_executor_key jc tc)"
      using add_executors_other [of "task_executors d" "jd_code d" "task_executor_key jc tc" "reg_executors r"]
        key_inject [OF colon jc] by (auto simp: r')
    with ok jc False show ?thesis
      by (auto simp: r' registry_ok_def map_add_def split: option.splits)
  qed
  with ok new show ?thesis by (auto simp: registry_ok_def r')
qed

lemma registry_ok_foldR:
  assumes "registry_ok prev r" and "\<forall>d \<in> set jobs. CHR '':'' \<notin> set (jd_code d) \<and> distinct (map fst (task_executors d))"
    and "foldR register_job jobs r = Inr r'"
  shows "registry_ok (prev @ jobs) r'"
  using assms
proof (induction jobs arbitrary: prev r)
  case Nil
  then show ?case by simp
next
  case (Cons d jobs)
  then obtain r1 where s: "register_job d r = Inr r1" "foldR register_job jobs r1 = Inr r'" by auto
  from Cons.IH [OF registry_ok_step [OF Cons.prems(1) _ _ s(1)] _ s(2)] Cons.prems(2) show ?case by simp
qed

lemma registry_new_ok:
  assumes "registry_new jobs = Inr r"
    and "\<forall>d \<in> set jobs. CHR '':'' \<notin> set (jd_code d) \<and> distinct (map fst (task_executors d))"
  shows "registry_ok jobs r"
proof -
  have "registry_ok [] \<lparr>reg_jobs = [], reg_executors = []\<rparr>" by (simp add: registry_ok_def)
  from registry_ok_foldR [OF this assms(2)] assms(1) show ?thesis by (auto simp: registry_new_def split: if_splits)
qed

text \<open>Registry. Where no job code contains a colon, a registry that was built finds every job under its own
  code, and for a job and a task code finds exactly the executor that job registered for it.\<close>
lemma registry_lookup:
  assumes "registry_new jobs = Inr r"
    and "\<forall>d \<in> set jobs. CHR '':'' \<notin> set (jd_code d) \<and> distinct (map fst (task_executors d))"
    and "d \<in> set jobs"
  shows "get_job (jd_code d) r = Inr d \<and>
    (get_task_executor (jd_code d) tc r = Inr e \<longleftrightarrow> (tc, e) \<in> set (task_executors d)) \<and> jobs_count r = length jobs"
proof -
  have ok: "registry_ok jobs r" by (rule registry_new_ok [OF assms(1,2)])
  have at: "map_of (reg_jobs r) (jd_code d) = Some d"
    using ok assms(3) by (auto simp: registry_ok_def comp_def)
  moreover have colon: "CHR '':'' \<notin> set (jd_code d)" "distinct (map fst (task_executors d))" using assms(2,3) by auto
  moreover have "map_of (reg_executors r) (task_executor_key (jd_code d) tc) = map_of (task_executors d) tc"
  proof -
    have "map_of (reg_executors r) (task_executor_key (jd_code d) tc) =
        (case map_of (reg_jobs r) (jd_code d) of None \<Rightarrow> None | Some d \<Rightarrow> map_of (task_executors d) tc)"
      using ok colon(1) unfolding registry_ok_def by blast
    then show ?thesis unfolding at by simp
  qed
  moreover have "length (reg_jobs r) = length jobs" using ok by (simp add: registry_ok_def)
  ultimately show ?thesis
    by (auto simp: get_job_def get_task_executor_def jobs_count_def map_of_eq_None_iff rev_image_eqI
        dest: eq_key_imp_eq_value split: option.splits)
qed

text \<open>Key collision. The key of an executor does not separate the codes it is made of: for every two jobs whose
  codes and task codes read the same around a colon, the lookup of the first gives the executor of
  the one registered last.\<close>
lemma registry_key_collision:
  assumes "a \<noteq> []"
  shows "\<exists>r. registry_new [sample_jd\<lparr>jd_code := a, task_executors := [(b @ '':'' @ c, e1)]\<rparr>,
      sample_jd\<lparr>jd_code := a @ '':'' @ b, task_executors := [(c, e2)]\<rparr>] = Inr r \<and>
    get_task_executor a (b @ '':'' @ c) r = Inr e2"
  using assms
  by (simp add: registry_new_def register_job_def add_executors_def get_task_executor_def task_executor_key_def)

end
