(* ===== verification/JM_Paths.thy ===== *)
theory JM_Paths
  imports JM_Errors "HOL-Library.List_Lexorder" "HOL-Library.Char_ord" "HOL-Library.Sublist"
begin

text \<open>
  \<^verbatim>\<open>storage/paths.rs\<close> with the file extensions of \<^verbatim>\<open>storage/state_codec.rs\<close>: the object keys of job
  iterations, how an iteration number is read back from a key, and that an ascending listing shows
  the newest iteration first.
\<close>

section \<open>Keys\<close>

datatype job_state_codec_kind = Json | Cbor

fun file_extension_of :: "job_state_codec_kind \<Rightarrow> string" where
  "file_extension_of Json = ''.json''"
| "file_extension_of Cbor = ''.cbor''"

fun content_type_of :: "job_state_codec_kind \<Rightarrow> string" where
  "content_type_of Json = ''application/json''"
| "content_type_of Cbor = ''application/cbor''"

definition JOB_STATE_FILE_PREFIX :: string where
  "JOB_STATE_FILE_PREFIX = ''state-''"

definition DEFAULT_STATE_PREFIX :: string where
  "DEFAULT_STATE_PREFIX = ''jobs''"

record job_paths =
  path_prefix :: string
  file_extension :: string

definition job_paths_new :: "string \<Rightarrow> job_state_codec_kind \<Rightarrow> job_paths" where
  "job_paths_new p codec = \<lparr>path_prefix = p, file_extension = file_extension_of codec\<rparr>"

definition build_job_prefix :: "job_paths \<Rightarrow> string \<Rightarrow> string" where
  "build_job_prefix p code = path_prefix p @ ''/'' @ code @ ''/''"

text \<open>The format \<^verbatim>\<open>{:020}\<close>: decimal, padded with zeros to a width.\<close>

definition show_padded :: "nat \<Rightarrow> nat \<Rightarrow> string" where
  "show_padded w n = replicate (w - length (show_nat n)) (CHR ''0'') @ show_nat n"

definition build_job_iteration_path :: "job_paths \<Rightarrow> string \<Rightarrow> u64 \<Rightarrow> string" where
  "build_job_iteration_path p code iter_num =
     build_job_prefix p code @ JOB_STATE_FILE_PREFIX @ show_padded 20 (unat (- 1 - iter_num)) @ file_extension p"

text \<open>\<^verbatim>\<open>str::split\<close>, \<^verbatim>\<open>trim_start_matches\<close> and \<^verbatim>\<open>trim_end_matches\<close>, which strip every repetition, and
  \<^verbatim>\<open>u64::from_str\<close>, which accepts a leading plus sign.\<close>

fun split_on :: "char \<Rightarrow> string \<Rightarrow> string list" where
  "split_on sep [] = [[]]"
| "split_on sep (c # cs) =
     (if c = sep then [] # split_on sep cs
      else case split_on sep cs of [] \<Rightarrow> [[c]] | w # ws \<Rightarrow> (c # w) # ws)"

function trim_start_matches :: "string \<Rightarrow> string \<Rightarrow> string" where
  "trim_start_matches pat s =
     (if pat \<noteq> [] \<and> prefix pat s then trim_start_matches pat (drop (length pat) s) else s)"
  by pat_completeness auto
termination
proof (relation "measure (\<lambda>(pat, s). length s)", goal_cases)
  case 1
  then show ?case by simp
next
  case (2 pat s)
  then show ?case by (cases pat) (auto simp: prefix_def)
qed

declare trim_start_matches.simps [simp del]

definition trim_end_matches :: "string \<Rightarrow> string \<Rightarrow> string" where
  "trim_end_matches pat s = rev (trim_start_matches (rev pat) (rev s))"

definition parse_u64 :: "string \<Rightarrow> u64 option" where
  "parse_u64 s =
     (let ds = (case s of c # cs \<Rightarrow> if c = CHR ''+'' then cs else s | [] \<Rightarrow> []) in
      if ds = [] \<or> \<not> (\<forall>c \<in> set ds. is_digit c) \<or> decimal_value ds \<ge> 2 ^ 64 then None
      else Some (word_of_nat (decimal_value ds)))"

definition parse_iter_num :: "job_paths \<Rightarrow> string \<Rightarrow> storage_error + u64" where
  "parse_iter_num p file_path =
     (let parts = split_on (CHR ''/'') file_path in
      if length parts < 2 then Inl (StorageOther ''Cannot split file path'')
      else let filename = last parts in
        if \<not> prefix JOB_STATE_FILE_PREFIX filename \<or> \<not> suffix (file_extension p) filename
        then Inl (StorageOther ''Invalid filename format'')
        else case parse_u64 (trim_end_matches (file_extension p)
                    (trim_start_matches JOB_STATE_FILE_PREFIX filename)) of
            None \<Rightarrow> Inl (StorageOther ''Failed to parse iter_num'')
          | Some inv_iter_num \<Rightarrow> Inr (- 1 - inv_iter_num))"

section \<open>Numbers of a fixed width\<close>

lemma length_show_nat: "n < 10 ^ Suc w \<Longrightarrow> length (show_nat n) \<le> Suc w"
proof (induction w arbitrary: n)
  case 0
  then show ?case by (subst show_nat.simps) simp
next
  case (Suc w)
  show ?case
  proof (cases "n < 10")
    case True
    then show ?thesis by (subst show_nat.simps) simp
  next
    case False
    from Suc.prems have "n div 10 < 10 ^ Suc w" by (simp add: less_mult_imp_div_less)
    from Suc.IH [OF this] False show ?thesis by (subst show_nat.simps) simp
  qed
qed

lemma length_show_padded: "n < 10 ^ Suc w \<Longrightarrow> length (show_padded (Suc w) n) = Suc w"
  using length_show_nat [of n w] by (simp add: show_padded_def)

lemma decimal_value_zeros: "decimal_value (replicate k (CHR ''0'') @ ds) = decimal_value ds"
proof -
  have "fold (\<lambda>c n. 10 * n + digit_value c) (replicate k (CHR ''0'')) 0 = 0"
    by (induction k) (simp_all add: digit_value_def)
  then show ?thesis by (simp add: decimal_value_def)
qed

lemma decimal_value_show_padded [simp]: "decimal_value (show_padded w n) = n"
  by (simp add: show_padded_def decimal_value_zeros)

lemma show_padded_digits: "c \<in> set (show_padded w n) \<Longrightarrow> is_digit c"
  using show_nat_digits by (auto simp: show_padded_def is_digit_def)

lemma u64_bound: "unat (a :: u64) < 10 ^ Suc 19"
proof -
  have "unat a < 2 ^ 64" using unsigned_less [of a] by simp
  then show ?thesis by simp
qed

lemma digit_value_less: "is_digit c \<Longrightarrow> digit_value c < 10"
  unfolding is_digit_def digit_value_def by linarith

lemma digit_less_iff: "is_digit a \<Longrightarrow> is_digit b \<Longrightarrow> a < b \<longleftrightarrow> digit_value a < digit_value b"
  by (auto simp: less_char_def is_digit_def digit_value_def)

lemma decimal_value_bound:
  "\<forall>c \<in> set ds. is_digit c \<Longrightarrow> decimal_value ds < 10 ^ length ds"
proof (induction ds rule: rev_induct)
  case Nil
  then show ?case by (simp add: decimal_value_def)
next
  case (snoc c ds)
  then have "decimal_value ds < 10 ^ length ds" "digit_value c < 10" by (simp_all add: digit_value_less)
  then show ?case by (simp add: decimal_value_snoc)
qed

lemma decimal_value_Cons: "decimal_value (c # ds) = digit_value c * 10 ^ length ds + decimal_value ds"
proof (induction ds rule: rev_induct)
  case Nil
  then show ?case by (simp add: decimal_value_def)
next
  case (snoc d ds)
  then show ?case
    using decimal_value_snoc [of "c # ds" d] decimal_value_snoc [of ds d] by simp
qed

lemma high_digit_decides: "(v :: nat) < b \<Longrightarrow> w < b \<Longrightarrow> x < y \<Longrightarrow> x * b + v < y * b + w"
proof -
  assume "v < b" "x < y"
  then have "x * b + v < Suc x * b" by simp
  also have "\<dots> \<le> y * b" using \<open>x < y\<close> by (intro mult_le_mono) auto
  finally show "x * b + v < y * b + w" by simp
qed

lemma digits_less_iff:
  assumes "length as = length bs" and "\<forall>c \<in> set as. is_digit c" and "\<forall>c \<in> set bs. is_digit c"
  shows "as < bs \<longleftrightarrow> decimal_value as < decimal_value bs"
  using assms
proof (induction as bs rule: list_induct2)
  case Nil
  then show ?case by simp
next
  case (Cons a as b bs)
  let ?n = "length as"
  have bounds: "decimal_value as < 10 ^ ?n" "decimal_value bs < 10 ^ ?n"
    using Cons decimal_value_bound by force+
  have ab: "a < b \<longleftrightarrow> digit_value a < digit_value b" "b < a \<longleftrightarrow> digit_value b < digit_value a"
    using Cons.prems by (simp_all add: digit_less_iff)
  show ?case
  proof (cases a b rule: linorder_cases)
    case less
    then show ?thesis
      using high_digit_decides [OF bounds] ab Cons.hyps by (simp add: decimal_value_Cons)
  next
    case equal
    then show ?thesis using Cons by (simp add: decimal_value_Cons)
  next
    case greater
    then have "\<not> a # as < b # bs" by auto
    moreover have "decimal_value (b # bs) < decimal_value (a # as)"
      using high_digit_decides [OF bounds(2,1)] ab greater Cons.hyps by (simp add: decimal_value_Cons)
    ultimately show ?thesis by simp
  qed
qed

lemma append_less_same: "(p :: string) @ a < p @ b \<longleftrightarrow> a < b"
  by (induction p) auto

lemma append_less_suffix: "length (a :: string) = length b \<Longrightarrow> a @ s < b @ s \<longleftrightarrow> a < b"
  by (induction a b rule: list_induct2) auto

lemma inverted_less_iff: "unat (- 1 - m :: u64) < unat (- 1 - n) \<longleftrightarrow> n < m"
proof -
  have eq: "unat (- 1 - k :: u64) = unat (- 1 :: u64) - unat k" for k by (rule unat_sub) simp
  have le: "unat (k :: u64) \<le> unat (- 1 :: u64)" for k by (simp only: word_n1_ge flip: word_le_nat_alt)
  have "M - a < M - b \<longleftrightarrow> b < a" if "a \<le> M" "b \<le> M" for M a b :: nat using that by arith
  from this [OF le le] show ?thesis unfolding eq word_less_nat_alt .
qed

section \<open>Round trip and order\<close>

lemma split_on_not_Nil: "split_on sep s \<noteq> []"
  by (induction s) (auto split: list.splits)

lemma split_on_plain: "sep \<notin> set s \<Longrightarrow> split_on sep s = [s]"
  by (induction s) auto

lemma split_on_last:
  "sep \<notin> set s \<Longrightarrow> last (split_on sep (d @ [sep] @ s)) = s \<and> 2 \<le> length (split_on sep (d @ [sep] @ s))"
proof (induction d)
  case Nil
  then show ?case by (simp add: split_on_plain)
next
  case (Cons c d)
  obtain w ws where w: "split_on sep (d @ [sep] @ s) = w # ws" by (metis list.exhaust split_on_not_Nil)
  with Cons have "ws \<noteq> []" by auto
  with Cons w show ?case by auto
qed

lemma trim_start_once:
  assumes "pat \<noteq> []" and "\<not> prefix pat s"
  shows "trim_start_matches pat (pat @ s) = s"
proof -
  have "trim_start_matches pat (pat @ s) = trim_start_matches pat s"
    by (subst trim_start_matches.simps) (use assms in simp)
  also have "\<dots> = s" by (subst trim_start_matches.simps) (use assms in simp)
  finally show ?thesis .
qed

text \<open>What the extension of a codec has: it is not empty, starts with no digit and names no directory.\<close>

definition extension_ok :: "string \<Rightarrow> bool" where
  "extension_ok e \<longleftrightarrow> e \<noteq> [] \<and> \<not> is_digit (hd e) \<and> CHR ''/'' \<notin> set e"

lemma extension_of_ok: "extension_ok (file_extension_of codec)"
  by (cases codec) (auto simp: extension_ok_def is_digit_def)

lemma trim_end_extension:
  assumes "extension_ok e" and "\<forall>c \<in> set ds. is_digit c"
  shows "trim_end_matches e (ds @ e) = ds"
proof -
  have "hd e \<in> set e" "\<not> is_digit (hd e)" using assms(1) by (auto simp: extension_ok_def)
  then have "\<not> set e \<subseteq> set ds" using assms(2) by auto
  then have "\<not> prefix (rev e) (rev ds)" using set_mono_prefix [of "rev e" "rev ds"] by auto
  moreover have "rev e \<noteq> []" using assms(1) by (simp add: extension_ok_def)
  ultimately show ?thesis by (simp add: trim_end_matches_def trim_start_once)
qed

lemma not_prefix_state: "\<forall>c \<in> set ds. is_digit c \<Longrightarrow> ds \<noteq> [] \<Longrightarrow> \<not> prefix JOB_STATE_FILE_PREFIX (ds @ e)"
  by (cases ds) (auto simp: JOB_STATE_FILE_PREFIX_def is_digit_def)

lemma digits_no_separator: "\<forall>c \<in> set ds. is_digit c \<Longrightarrow> CHR ''/'' \<notin> set ds"
  by (auto simp: is_digit_def)

lemma parse_u64_digits:
  "\<forall>c \<in> set ds. is_digit c \<Longrightarrow> ds \<noteq> [] \<Longrightarrow> decimal_value ds < 2 ^ 64 \<Longrightarrow>
     parse_u64 ds = Some (word_of_nat (decimal_value ds))"
  by (cases ds) (auto simp: parse_u64_def Let_def is_digit_def)

text \<open>Reading a built key back, the order of the keys of one job, and that a key names its job and its iteration.\<close>

lemma padded_iter_digits: "\<forall>c \<in> set (show_padded 20 (unat (- 1 - n :: u64))). is_digit c"
  using show_padded_digits by blast

lemma padded_iter_length: "length (show_padded 20 (unat (- 1 - n :: u64))) = 20"
  using length_show_padded [OF u64_bound, of "- 1 - n"] by simp

lemma parse_built_path:
  assumes "extension_ok (file_extension p)"
  shows "parse_iter_num p (build_job_iteration_path p code n) = Inr n"
proof -
  let ?e = "file_extension p" and ?ds = "show_padded 20 (unat (- 1 - n))"
  note digits = padded_iter_digits [of n]
  have ne: "?ds \<noteq> []" using padded_iter_length [of n] by auto
  have plain: "CHR ''/'' \<notin> set (JOB_STATE_FILE_PREFIX @ ?ds @ ?e)"
    using digits_no_separator [OF digits] assms by (auto simp: JOB_STATE_FILE_PREFIX_def extension_ok_def)
  have path: "build_job_iteration_path p code n =
      (path_prefix p @ ''/'' @ code) @ [CHR ''/''] @ (JOB_STATE_FILE_PREFIX @ ?ds @ ?e)"
    by (simp add: build_job_iteration_path_def build_job_prefix_def)
  have "trim_start_matches JOB_STATE_FILE_PREFIX (JOB_STATE_FILE_PREFIX @ ?ds @ ?e) = ?ds @ ?e"
    by (rule trim_start_once) (use not_prefix_state [OF digits ne] in \<open>auto simp: JOB_STATE_FILE_PREFIX_def\<close>)
  moreover have "parse_u64 ?ds = Some (- 1 - n)"
    using parse_u64_digits [OF digits ne] unsigned_less [of "- 1 - n"] by simp
  ultimately show ?thesis
    using split_on_last [OF plain, of "path_prefix p @ ''/'' @ code"] trim_end_extension [OF assms digits]
    by (simp add: parse_iter_num_def path Let_def suffix_def)
qed

lemma built_path_less:
  "build_job_iteration_path p code m < build_job_iteration_path p code n \<longleftrightarrow> n < m"
proof -
  let ?d = "\<lambda>n. show_padded 20 (unat (- 1 - n :: u64))"
  have "build_job_iteration_path p code m < build_job_iteration_path p code n \<longleftrightarrow>
      ?d m @ file_extension p < ?d n @ file_extension p"
    by (simp add: build_job_iteration_path_def append_less_same)
  also have "\<dots> \<longleftrightarrow> ?d m < ?d n" by (rule append_less_suffix) (simp add: padded_iter_length)
  also have "\<dots> \<longleftrightarrow> unat (- 1 - m) < unat (- 1 - n)"
    using digits_less_iff [OF _ padded_iter_digits padded_iter_digits] padded_iter_length by simp
  also have "\<dots> \<longleftrightarrow> n < m" by (rule inverted_less_iff)
  finally show ?thesis .
qed

lemma built_path_inject [simp]:
  "build_job_iteration_path p code m = build_job_iteration_path p code' n \<longleftrightarrow> code = code' \<and> m = n"
proof
  assume eq: "build_job_iteration_path p code m = build_job_iteration_path p code' n"
  then have "code = code'"
    by (simp add: build_job_iteration_path_def build_job_prefix_def padded_iter_length flip: append_assoc)
  with eq built_path_less [of p code m n] built_path_less [of p code n m] show "code = code' \<and> m = n"
    by (metis less_irrefl linorder_neqE)
qed simp

lemma prefix_built_path: "prefix (build_job_prefix p code) (build_job_iteration_path p code n)"
  by (simp add: build_job_iteration_path_def)

text \<open>Keys. The iteration number is read back from the key an iteration is stored under, whatever the prefix
  and the job code, for each codec.\<close>
lemma path_round_trip:
  "parse_iter_num (job_paths_new pre codec) (build_job_iteration_path (job_paths_new pre codec) code n) = Inr n"
  by (rule parse_built_path) (simp add: job_paths_new_def extension_of_ok)

end
