(* ===== verification/JM_Outcome.thy ===== *)
theory JM_Outcome
  imports JM_Job
begin

text \<open>
  \<^verbatim>\<open>execution/outcome.rs\<close> and the reports of a worker it reads (\<^verbatim>\<open>TaskStart\<close> and \<^verbatim>\<open>ExecutionEnd\<close> of
  \<^verbatim>\<open>execution/worker.rs\<close>): what a worker's work on a job says about when the job is polled again.
\<close>

text \<open>A task whose start was written, with the state that write stored.\<close>

record started_task =
  started_job :: job
  started_task_id :: uuid

datatype task_start =
    TsStarted started_task bool
  | TsIterationClosed next_iteration_status
  | TsLostToAnotherWorker
  | TsNoTaskAvailable "time option"
  | TsStalled

datatype execution_end =
    EeTaskEnded bool
  | EeIterationClosed next_iteration_status

datatype job_progress =
    IterationsEnded
  | NextIterationDueAt time
  | TaskPickable
  | RetryDueAt time
  | NothingPickable
  | Stalled

definition from_tasks_left :: "bool \<Rightarrow> job_progress" where
  "from_tasks_left left = (if left then TaskPickable else NothingPickable)"

fun from_task_start :: "time \<Rightarrow> task_start \<Rightarrow> job_progress" where
  "from_task_start now (TsStarted t left) = from_tasks_left left"
| "from_task_start now (TsIterationClosed BudgetSpent) = IterationsEnded"
| "from_task_start now (TsIterationClosed (DueAt due_at)) = NextIterationDueAt due_at"
| "from_task_start now (TsIterationClosed Ready) = NextIterationDueAt now"
| "from_task_start now (TsIterationClosed Unscheduled) = Stalled"
| "from_task_start now TsLostToAnotherWorker = NothingPickable"
| "from_task_start now (TsNoTaskAvailable (Some retry_at)) = RetryDueAt retry_at"
| "from_task_start now (TsNoTaskAvailable None) = Stalled"
| "from_task_start now TsStalled = Stalled"

fun from_job_execution :: "execution_end option \<Rightarrow> job_progress" where
  "from_job_execution None = NothingPickable"
| "from_job_execution (Some (EeTaskEnded left)) = from_tasks_left left"
| "from_job_execution (Some (EeIterationClosed BudgetSpent)) = IterationsEnded"
| "from_job_execution (Some (EeIterationClosed (DueAt due_at))) = NextIterationDueAt due_at"
| "from_job_execution (Some (EeIterationClosed Ready)) = TaskPickable"
| "from_job_execution (Some (EeIterationClosed Unscheduled)) = NothingPickable"

fun into_started_task :: "task_start \<Rightarrow> started_task option" where
  "into_started_task (TsStarted t left) = Some t"
| "into_started_task _ = None"

text \<open>A job is given up only for a spent iteration budget.\<close>

lemma iterations_ended_start: "from_task_start now ts = IterationsEnded \<longleftrightarrow> ts = TsIterationClosed BudgetSpent"
  by (cases "(now, ts)" rule: from_task_start.cases) (auto simp: from_tasks_left_def)

lemma iterations_ended_execution:
  "from_job_execution ee = IterationsEnded \<longleftrightarrow> ee = Some (EeIterationClosed BudgetSpent)"
  by (cases ee rule: from_job_execution.cases) (auto simp: from_tasks_left_def)

end
