(* ===== verification/JM_Scheduler.thy ===== *)
theory JM_Scheduler
  imports JM_Outcome JM_Errors "HOL-Library.Product_Lexorder" "HOL-Library.List_Lexorder" "HOL-Library.Char_ord"
begin

text \<open>
  \<^verbatim>\<open>execution/scheduler.rs\<close>: the poll schedule of one pool. A moment of the monotonic clock is a number
  of nanoseconds; the ordered set \<^verbatim>\<open>due_queue\<close> is a sorted list without repetition. The clock readings
  and the jitter's random draw of one call are its \<open>poll_env\<close>.
\<close>

section \<open>Settings\<close>

type_synonym instant = nat

record poll_config =
  cfg_poll_interval :: duration
  cfg_poll_jitter :: duration
  cfg_max_poll_interval :: "duration option"

definition DEFAULT_MAX_POLL_INTERVAL_FACTOR :: nat where
  "DEFAULT_MAX_POLL_INTERVAL_FACTOR = 10"

definition DEFAULT_POLL_INTERVAL :: duration where
  "DEFAULT_POLL_INTERVAL = millis 200"

definition LONGEST_ACCEPTED_POLL_INTERVAL :: duration where
  "LONGEST_ACCEPTED_POLL_INTERVAL = secs (365 * 24 * 60 * 60)"

definition DEFAULT_POLL_JITTER :: duration where
  "DEFAULT_POLL_JITTER = millis 50"

definition poll_config_new :: poll_config where
  "poll_config_new = \<lparr>cfg_poll_interval = DEFAULT_POLL_INTERVAL, cfg_poll_jitter = DEFAULT_POLL_JITTER,
     cfg_max_poll_interval = None\<rparr>"

definition with_poll_interval :: "duration \<Rightarrow> poll_config \<Rightarrow> error + poll_config" where
  "with_poll_interval interval cfg =
     (if interval = 0 then Inl (ErrOther ''poll interval must be positive'')
      else if interval > LONGEST_ACCEPTED_POLL_INTERVAL
        then Inl (ErrOther ''poll interval must not exceed a year'')
      else if (case cfg_max_poll_interval cfg of Some ceiling \<Rightarrow> ceiling < interval | None \<Rightarrow> False)
        then Inl (ErrOther ''max poll interval must not be below the poll interval'')
      else Inr (cfg\<lparr>cfg_poll_interval := interval\<rparr>))"

definition with_poll_jitter :: "duration \<Rightarrow> poll_config \<Rightarrow> poll_config" where
  "with_poll_jitter jitter cfg = cfg\<lparr>cfg_poll_jitter := jitter\<rparr>"

definition with_max_poll_interval :: "duration \<Rightarrow> poll_config \<Rightarrow> error + poll_config" where
  "with_max_poll_interval ceiling cfg =
     (if ceiling < cfg_poll_interval cfg
        then Inl (ErrOther ''max poll interval must not be below the poll interval'')
      else if ceiling > LONGEST_ACCEPTED_POLL_INTERVAL
        then Inl (ErrOther ''max poll interval must not exceed a year'')
      else Inr (cfg\<lparr>cfg_max_poll_interval := Some ceiling\<rparr>))"

definition max_poll_interval :: "poll_config \<Rightarrow> duration" where
  "max_poll_interval cfg = (case cfg_max_poll_interval cfg of
      Some ceiling \<Rightarrow> ceiling
    | None \<Rightarrow> cfg_poll_interval cfg * DEFAULT_MAX_POLL_INTERVAL_FACTOR)"

section \<open>The arithmetic of a poll\<close>

record poll_env =
  env_now :: instant
  env_utc :: time
  env_draw :: "nat \<Rightarrow> nat"

datatype poll_due = At instant | PollNever

fun merge :: "poll_due \<Rightarrow> poll_due \<Rightarrow> poll_due" where
  "merge PollNever other = PollNever"
| "merge (At first) PollNever = PollNever"
| "merge (At first) (At second) = At (min first second)"

definition calculate_backed_off_poll_interval :: "poll_config \<Rightarrow> duration \<Rightarrow> duration" where
  "calculate_backed_off_poll_interval cfg last_interval = min (last_interval * 2) (max_poll_interval cfg)"

definition calculate_duration_until :: "externs \<Rightarrow> time \<Rightarrow> time \<Rightarrow> duration" where
  "calculate_duration_until x utc moment =
     min (case to_std x (moment - utc) of Some d \<Rightarrow> d | None \<Rightarrow> 0) LONGEST_ACCEPTED_POLL_INTERVAL"

definition calculate_retry_wait :: "externs \<Rightarrow> poll_config \<Rightarrow> time \<Rightarrow> time \<Rightarrow> duration" where
  "calculate_retry_wait x cfg utc retry_at =
     min (calculate_duration_until x utc retry_at) (max_poll_interval cfg)"

definition calculate_jitter :: "poll_config \<Rightarrow> (nat \<Rightarrow> nat) \<Rightarrow> duration" where
  "calculate_jitter cfg draw =
     (let max_jitter_nanos = min (cfg_poll_jitter cfg) (2 ^ 64 - 1) in
      if max_jitter_nanos = 0 then 0 else draw max_jitter_nanos)"

definition calculate_poll_at :: "poll_config \<Rightarrow> poll_env \<Rightarrow> duration \<Rightarrow> instant" where
  "calculate_poll_at cfg env wait =
     (if wait = 0 then env_now env else env_now env + wait + calculate_jitter cfg (env_draw env))"

section \<open>The slot of a job\<close>

datatype job_slot = Queued instant | Claimed "poll_due option" | Exhausted

record job_poll =
  jp_interval :: duration
  jp_slot :: job_slot

definition queued_at :: "job_poll \<Rightarrow> instant option" where
  "queued_at jp = (case jp_slot jp of Queued t \<Rightarrow> Some t | Claimed _ \<Rightarrow> None | Exhausted \<Rightarrow> None)"

definition claim :: "job_poll \<Rightarrow> job_poll" where
  "claim jp = jp\<lparr>jp_slot := Claimed None\<rparr>"

fun slot_of_due :: "poll_due \<Rightarrow> job_slot" where
  "slot_of_due (At t) = Queued t"
| "slot_of_due PollNever = Exhausted"

definition schedule_poll :: "poll_due \<Rightarrow> job_poll \<Rightarrow> job_poll" where
  "schedule_poll due jp = jp\<lparr>jp_slot := slot_of_due due\<rparr>"

fun calculate_poll ::
  "externs \<Rightarrow> poll_config \<Rightarrow> poll_env \<Rightarrow> job_poll \<Rightarrow> job_progress \<Rightarrow> poll_due \<times> duration" where
  "calculate_poll x cfg env jp IterationsEnded = (PollNever, jp_interval jp)"
| "calculate_poll x cfg env jp (NextIterationDueAt due_at) =
     (At (calculate_poll_at cfg env (calculate_duration_until x (env_utc env) due_at)), cfg_poll_interval cfg)"
| "calculate_poll x cfg env jp TaskPickable = (At (env_now env), cfg_poll_interval cfg)"
| "calculate_poll x cfg env jp (RetryDueAt retry_at) =
     (At (calculate_poll_at cfg env (calculate_retry_wait x cfg (env_utc env) retry_at)), cfg_poll_interval cfg)"
| "calculate_poll x cfg env jp NothingPickable =
     (At (calculate_poll_at cfg env (cfg_poll_interval cfg)), cfg_poll_interval cfg)"
| "calculate_poll x cfg env jp Stalled =
     (let backed_off = calculate_backed_off_poll_interval cfg (jp_interval jp) in
      (At (calculate_poll_at cfg env backed_off), backed_off))"

definition release :: "externs \<Rightarrow> poll_config \<Rightarrow> poll_env \<Rightarrow> job_progress \<Rightarrow> job_poll \<Rightarrow> job_poll \<times> bool" where
  "release x cfg env progress jp = (case jp_slot jp of
      Claimed overwritten \<Rightarrow>
        (let (due, interval) = calculate_poll x cfg env jp progress in
         case overwritten of
           None \<Rightarrow> (schedule_poll due (jp\<lparr>jp_interval := interval\<rparr>), True)
         | Some recorded \<Rightarrow> (schedule_poll (merge due recorded) (jp\<lparr>jp_interval := cfg_poll_interval cfg\<rparr>), True))
    | _ \<Rightarrow> (jp, False))"

fun replaces_poll :: "job_progress \<Rightarrow> bool" where
  "replaces_poll IterationsEnded = True"
| "replaces_poll (NextIterationDueAt _) = True"
| "replaces_poll _ = False"

definition reschedule :: "externs \<Rightarrow> poll_config \<Rightarrow> poll_env \<Rightarrow> job_progress \<Rightarrow> job_poll \<Rightarrow> job_poll" where
  "reschedule x cfg env progress jp =
     (let requested = fst (calculate_poll x cfg env jp progress) in
      case jp_slot jp of
        Exhausted \<Rightarrow> jp
      | Claimed overwritten \<Rightarrow>
          jp\<lparr>jp_slot := Claimed (Some (case overwritten of None \<Rightarrow> requested | Some r \<Rightarrow> merge r requested))\<rparr>
      | Queued poll_at \<Rightarrow>
          schedule_poll (if replaces_poll progress then requested else merge (At poll_at) requested)
            (jp\<lparr>jp_interval := cfg_poll_interval cfg\<rparr>))"

section \<open>The schedule\<close>

record scheduler =
  sched_config :: poll_config
  sched_jobs :: "string \<Rightarrow> job_poll option"
  due_queue :: "(instant \<times> string) list"

datatype schedule_error = UnknownJob string | NotClaimed string

datatype claim_attempt = ClaimedJob string | WaitUntil instant | WaitForPoolEvent

definition scheduler_new :: "instant \<Rightarrow> string list \<Rightarrow> poll_config \<Rightarrow> scheduler" where
  "scheduler_new now codes cfg =
     \<lparr>sched_config = cfg,
      sched_jobs = fold (\<lambda>c m. m(c \<mapsto> \<lparr>jp_interval = cfg_poll_interval cfg, jp_slot = Queued now\<rparr>)) codes (\<lambda>_. None),
      due_queue = fold (\<lambda>c q. insort_insert (now, c) q) codes []\<rparr>"

definition move_entry :: "string \<Rightarrow> instant option \<Rightarrow> instant option \<Rightarrow> (instant \<times> string) list \<Rightarrow> (instant \<times> string) list" where
  "move_entry code before after q =
     (if before = after then q
      else let q' = (case before of Some t \<Rightarrow> remove1 (t, code) q | None \<Rightarrow> q) in
        case after of Some t \<Rightarrow> insort_insert (t, code) q' | None \<Rightarrow> q')"

definition transition_job ::
  "string \<Rightarrow> (job_poll \<Rightarrow> job_poll \<times> 'a) \<Rightarrow> scheduler \<Rightarrow> scheduler \<times> (schedule_error + 'a)" where
  "transition_job code transition s = (case sched_jobs s code of
      None \<Rightarrow> (s, Inl (UnknownJob code))
    | Some jp \<Rightarrow> (case transition jp of (jp', result) \<Rightarrow>
        (s\<lparr>sched_jobs := (sched_jobs s)(code \<mapsto> jp'),
           due_queue := move_entry code (queued_at jp) (queued_at jp') (due_queue s)\<rparr>, Inr result)))"

definition try_claim_due_job :: "instant \<Rightarrow> scheduler \<Rightarrow> scheduler \<times> (schedule_error + claim_attempt)" where
  "try_claim_due_job now s = (case due_queue s of
      [] \<Rightarrow> (s, Inr WaitForPoolEvent)
    | (poll_at, code) # rest \<Rightarrow>
        if poll_at > now then (s, Inr (WaitUntil poll_at))
        else case transition_job code (\<lambda>jp. (claim jp, ())) (s\<lparr>due_queue := rest\<rparr>) of
            (s', Inl e) \<Rightarrow> (s', Inl e)
          | (s', Inr _) \<Rightarrow> (s', Inr (ClaimedJob code)))"

definition reschedule_job ::
  "externs \<Rightarrow> poll_env \<Rightarrow> string \<Rightarrow> job_progress \<Rightarrow> scheduler \<Rightarrow> scheduler \<times> (schedule_error + unit)" where
  "reschedule_job x env code progress s =
     transition_job code (\<lambda>jp. (reschedule x (sched_config s) env progress jp, ())) s"

definition release_job ::
  "externs \<Rightarrow> poll_env \<Rightarrow> string \<Rightarrow> job_progress \<Rightarrow> scheduler \<Rightarrow> scheduler \<times> (schedule_error + unit)" where
  "release_job x env code progress s =
     (case transition_job code (release x (sched_config s) env progress) s of
        (s', Inl e) \<Rightarrow> (s', Inl e)
      | (s', Inr is_released) \<Rightarrow> (s', if is_released then Inr () else Inl (NotClaimed code)))"

section \<open>The queue is an index of the slots\<close>

definition index_ok :: "scheduler \<Rightarrow> bool" where
  "index_ok s \<longleftrightarrow> sorted (due_queue s) \<and> distinct (due_queue s) \<and>
     (\<forall>t c. (t, c) \<in> set (due_queue s) \<longleftrightarrow> (\<exists>jp. sched_jobs s c = Some jp \<and> queued_at jp = Some t))"

lemma index_ok_sorted: "index_ok s \<Longrightarrow> sorted (due_queue s)"
  by (simp add: index_ok_def)

lemma move_entry_set:
  assumes "distinct q"
  shows "set (move_entry c before after q) =
    (if before = after then set q
     else (case after of Some t \<Rightarrow> {(t, c)} | None \<Rightarrow> {}) \<union>
       (set q - (case before of Some t \<Rightarrow> {(t, c)} | None \<Rightarrow> {})))"
  using assms by (auto simp: move_entry_def Let_def set_insort_insert split: option.splits)

lemma move_entry_sorted:
  assumes "sorted q" and "distinct q"
  shows "sorted (move_entry c before after q) \<and> distinct (move_entry c before after q)"
  using assms
  by (auto simp: move_entry_def Let_def sorted_insort_insert distinct_insort_insert sorted_remove1 split: option.splits)

text \<open>The transition of a job moves its entry, whatever the queue holds under its old moment.\<close>

lemma index_ok_transition:
  assumes ok: "sorted (due_queue s)" "distinct (due_queue s)"
    and others: "\<And>t d. d \<noteq> c \<Longrightarrow> (t, d) \<in> set (due_queue s) \<longleftrightarrow> (\<exists>jp. sched_jobs s d = Some jp \<and> queued_at jp = Some t)"
    and own: "\<And>t jp. sched_jobs s c = Some jp \<Longrightarrow> (t, c) \<in> set (due_queue s) \<Longrightarrow> queued_at jp = Some t"
    and there: "\<And>t jp jp' r. sched_jobs s c = Some jp \<Longrightarrow> f jp = (jp', r) \<Longrightarrow> queued_at jp = queued_at jp' \<Longrightarrow>
      queued_at jp = Some t \<Longrightarrow> (t, c) \<in> set (due_queue s)"
    and known: "sched_jobs s c = Some jp0"
  shows "index_ok (fst (transition_job c f s))"
proof -
  obtain jp' r where f: "f jp0 = (jp', r)" by fastforce
  let ?q = "move_entry c (queued_at jp0) (queued_at jp') (due_queue s)"
  have step: "fst (transition_job c f s) = s\<lparr>sched_jobs := (sched_jobs s)(c \<mapsto> jp'), due_queue := ?q\<rparr>"
    using known f by (simp add: transition_job_def)
  have c: "(t, c) \<in> set ?q \<longleftrightarrow> queued_at jp' = Some t" for t
  proof (cases "queued_at jp0 = queued_at jp'")
    case True
    then show ?thesis using own [OF known, of t] there [OF known f True, of t] by (auto simp: move_entry_def)
  next
    case False
    then show ?thesis using own [OF known, of t]
      by (cases "queued_at jp0"; cases "queued_at jp'") (auto simp: move_entry_set [OF ok(2)])
  qed
  have d: "(t, d) \<in> set ?q \<longleftrightarrow> (t, d) \<in> set (due_queue s)" if "d \<noteq> c" for t d
    using that by (auto simp: move_entry_set [OF ok(2)] split: option.splits)
  have "(t, d) \<in> set ?q \<longleftrightarrow> (\<exists>jp. ((sched_jobs s)(c \<mapsto> jp')) d = Some jp \<and> queued_at jp = Some t)" for t d
    using c d others by (cases "d = c") auto
  with move_entry_sorted [OF ok, of c "queued_at jp0" "queued_at jp'"] show ?thesis
    unfolding step index_ok_def by simp
qed

lemma transition_unknown: "sched_jobs s c = None \<Longrightarrow> transition_job c f s = (s, Inl (UnknownJob c))"
  by (simp add: transition_job_def)

lemma index_ok_transition_job:
  assumes "index_ok s"
  shows "index_ok (fst (transition_job c f s))"
proof (cases "sched_jobs s c")
  case None
  with assms show ?thesis by (simp add: transition_unknown)
next
  case (Some jp)
  show ?thesis
    by (rule index_ok_transition [OF _ _ _ _ _ Some]) (use assms in \<open>auto simp: index_ok_def\<close>)
qed

lemma index_ok_release: "index_ok s \<Longrightarrow> index_ok (fst (release_job x env c progress s))"
  using index_ok_transition_job [of s c "release x (sched_config s) env progress"]
  by (auto simp: release_job_def split: prod.splits sum.splits)

lemma index_ok_reschedule: "index_ok s \<Longrightarrow> index_ok (fst (reschedule_job x env c progress s))"
  unfolding reschedule_job_def by (rule index_ok_transition_job)

lemma queued_claim: "queued_at (claim jp) = None"
  by (simp add: queued_at_def claim_def)

lemma try_claim_cases:
  assumes ok: "index_ok s"
  obtains "due_queue s = []" "try_claim_due_job now s = (s, Inr WaitForPoolEvent)"
  | t c rest where "due_queue s = (t, c) # rest" "now < t" "try_claim_due_job now s = (s, Inr (WaitUntil t))"
  | t c rest jp where "due_queue s = (t, c) # rest" "t \<le> now" "sched_jobs s c = Some jp" "queued_at jp = Some t"
      "try_claim_due_job now s =
         (s\<lparr>sched_jobs := (sched_jobs s)(c \<mapsto> claim jp), due_queue := rest\<rparr>, Inr (ClaimedJob c))"
proof (cases "due_queue s")
  case Nil
  then show ?thesis using that(1) by (simp add: try_claim_due_job_def)
next
  case (Cons e rest)
  obtain t c where e: "e = (t, c)" by fastforce
  show ?thesis
  proof (cases "now < t")
    case True
    with Cons e that(2) show ?thesis by (simp add: try_claim_due_job_def)
  next
    case False
    have "(t, c) \<in> set (due_queue s)" using Cons e by simp
    with ok obtain jp where jp: "sched_jobs s c = Some jp" "queued_at jp = Some t" by (auto simp: index_ok_def)
    have "(t, c) \<notin> set rest" using ok Cons e by (simp add: index_ok_def)
    then have "move_entry c (Some t) None rest = rest" by (simp add: move_entry_def remove1_idem)
    with False Cons e jp have "try_claim_due_job now s =
        (s\<lparr>sched_jobs := (sched_jobs s)(c \<mapsto> claim jp), due_queue := rest\<rparr>, Inr (ClaimedJob c))"
      by (simp add: try_claim_due_job_def transition_job_def queued_claim)
    with Cons e False jp that(3) show ?thesis by auto
  qed
qed

lemma index_ok_claim:
  assumes "index_ok s"
  shows "index_ok (fst (try_claim_due_job now s))"
proof (rule try_claim_cases [OF assms, of now])
  fix t c rest jp
  assume q: "due_queue s = (t, c) # rest" and jp: "sched_jobs s c = Some jp" "queued_at jp = Some t"
    and r: "try_claim_due_job now s =
      (s\<lparr>sched_jobs := (sched_jobs s)(c \<mapsto> claim jp), due_queue := rest\<rparr>, Inr (ClaimedJob c))"
  have at: "(u, d) \<in> set rest \<longleftrightarrow> (u, d) \<in> set (due_queue s) \<and> (u, d) \<noteq> (t, c)" for u d
    using assms q by (auto simp: index_ok_def)
  show ?thesis
    using assms jp q by (auto simp: r index_ok_def at queued_claim simp del: set_simps)
qed (use assms in auto)

lemma index_ok_new: "index_ok (scheduler_new now codes cfg)"
proof -
  let ?jp = "\<lparr>jp_interval = cfg_poll_interval cfg, jp_slot = Queued now\<rparr>"
  have q: "sorted (fold (\<lambda>c q. insort_insert (now, c) q) cs q) \<and> distinct (fold (\<lambda>c q. insort_insert (now, c) q) cs q) \<and>
      set (fold (\<lambda>c q. insort_insert (now, c) q) cs q) = Pair now ` set cs \<union> set q"
    if "sorted q" "distinct q" for cs and q :: "(instant \<times> string) list"
    using that
    by (induction cs arbitrary: q) (auto simp: sorted_insort_insert distinct_insort_insert set_insort_insert)
  have m: "fold (\<lambda>c m. m(c \<mapsto> ?jp)) cs m d = (if d \<in> set cs then Some ?jp else m d)" for cs m d
    by (induction cs arbitrary: m) auto
  show ?thesis
    using q [of "[]" codes] by (auto simp: scheduler_new_def index_ok_def m queued_at_def)
qed

end
