(* ===== verification/JM_Scheduler_Props.thy ===== *)
theory JM_Scheduler_Props
  imports JM_Scheduler JM_Retrier
begin

text \<open>
  What a pool may rely on of its poll schedule (\<^verbatim>\<open>execution/scheduler.rs\<close>): a job is claimed for one
  worker at a time, the earliest due job goes first, a poll lies between now and the longest accepted
  interval, and a job is given up only for a spent iteration budget.
\<close>

section \<open>Claims over a run of the schedule\<close>

datatype claim_event =
    Gave string
  | TookBack string job_progress
  | Noted string job_progress
  | Idle

inductive event_run :: "('s \<Rightarrow> claim_event \<Rightarrow> 's \<Rightarrow> bool) \<Rightarrow> 's \<Rightarrow> claim_event list \<Rightarrow> 's \<Rightarrow> bool" for step where
  event_run_nil: "event_run step s [] s"
| event_run_cons: "step s ev s1 \<Longrightarrow> event_run step s1 evs s2 \<Longrightarrow> event_run step s (ev # evs) s2"

inductive_cases event_run_ConsE: "event_run step s (ev # evs) s2"

text \<open>The contract of a schedule towards the pool: which jobs are held, and how that changes.\<close>

locale claim_discipline =
  fixes step :: "'s \<Rightarrow> claim_event \<Rightarrow> 's \<Rightarrow> bool" and ok :: "'s \<Rightarrow> bool" and held :: "'s \<Rightarrow> string set"
  assumes kept: "ok s \<Longrightarrow> step s ev s' \<Longrightarrow> ok s'"
    and gives: "ok s \<Longrightarrow> step s (Gave c) s' \<Longrightarrow> c \<notin> held s \<and> held s' = insert c (held s)"
    and takes_back: "ok s \<Longrightarrow> step s (TookBack c p) s' \<Longrightarrow> c \<in> held s \<and> held s' = held s - {c}"
    and noted: "ok s \<Longrightarrow> step s (Noted c p) s' \<Longrightarrow> held s' = held s"
    and idles: "ok s \<Longrightarrow> step s Idle s' \<Longrightarrow> held s' = held s"
begin

lemma held_until_taken_back:
  assumes "event_run step s (ys @ Gave c # zs) s'" and "ok s" and "c \<in> held s"
  shows "\<exists>p. TookBack c p \<in> set ys"
  using assms
proof (induction ys arbitrary: s)
  case Nil
  then show ?case using gives by (auto elim: event_run_ConsE)
next
  case (Cons ev ys)
  then obtain s1 where st: "step s ev s1" "event_run step s1 (ys @ Gave c # zs) s'"
    by (auto elim: event_run_ConsE)
  show ?case
  proof (cases "\<exists>p. ev = TookBack c p")
    case True
    then show ?thesis by auto
  next
    case False
    with st(1) Cons.prems(2,3) gives takes_back noted idles have "c \<in> held s1" by (cases ev) force+
    moreover have "ok s1" using kept [OF Cons.prems(2) st(1)] .
    ultimately show ?thesis using Cons.IH [OF st(2)] by auto
  qed
qed

lemma claimed_once:
  assumes "event_run step s (xs @ Gave c # ys @ Gave c # zs) s'" and "ok s"
  shows "\<exists>p. TookBack c p \<in> set ys"
  using assms
proof (induction xs arbitrary: s)
  case Nil
  then obtain s1 where st: "step s (Gave c) s1" "event_run step s1 (ys @ Gave c # zs) s'"
    by (auto elim: event_run_ConsE)
  with gives kept Nil.prems(2) have "c \<in> held s1" "ok s1" by auto
  with held_until_taken_back st(2) show ?case by blast
next
  case (Cons ev xs)
  then show ?case using kept by (auto elim!: event_run_ConsE)
qed

end

inductive sched_step :: "externs \<Rightarrow> scheduler \<Rightarrow> claim_event \<Rightarrow> scheduler \<Rightarrow> bool" for x where
  step_claim: "try_claim_due_job now s = (s', Inr (ClaimedJob c)) \<Longrightarrow> sched_step x s (Gave c) s'"
| step_wait: "try_claim_due_job now s = (s', r) \<Longrightarrow> \<forall>c. r \<noteq> Inr (ClaimedJob c) \<Longrightarrow> sched_step x s Idle s'"
| step_release: "release_job x env c p s = (s', Inr ()) \<Longrightarrow> sched_step x s (TookBack c p) s'"
| step_refused: "release_job x env c p s = (s', Inl e) \<Longrightarrow> sched_step x s Idle s'"
| step_note: "reschedule_job x env c p s = (s', r) \<Longrightarrow> sched_step x s (Noted c p) s'"

definition held_jobs :: "scheduler \<Rightarrow> string set" where
  "held_jobs s = {c. \<exists>jp due. sched_jobs s c = Some jp \<and> jp_slot jp = Claimed due}"

lemma schedule_poll_slot: "jp_slot (schedule_poll due jp) \<noteq> Claimed d"
  by (cases due) (auto simp: schedule_poll_def)

lemma release_slot:
  "release x cfg env p jp = (jp', released) \<Longrightarrow>
     (released \<longleftrightarrow> (\<exists>due. jp_slot jp = Claimed due)) \<and> (released \<longrightarrow> (\<forall>due. jp_slot jp' \<noteq> Claimed due)) \<and>
     (\<not> released \<longrightarrow> jp' = jp)"
  by (auto simp: release_def schedule_poll_slot Let_def split: job_slot.splits option.splits prod.splits)

lemma reschedule_slot:
  "(\<exists>due. jp_slot (reschedule x cfg env p jp) = Claimed due) \<longleftrightarrow> (\<exists>due. jp_slot jp = Claimed due)"
  by (auto simp: reschedule_def schedule_poll_slot Let_def split: job_slot.splits)

lemma held_update:
  "held_jobs (s\<lparr>sched_jobs := (sched_jobs s)(c \<mapsto> jp'), due_queue := q\<rparr>) =
     (if \<exists>due. jp_slot jp' = Claimed due then insert c (held_jobs s) else held_jobs s - {c})"
  by (auto simp: held_jobs_def)

lemma release_job_Inr:
  assumes "release_job x env c p s = (s', Inr ())"
  shows "c \<in> held_jobs s \<and> held_jobs s' = held_jobs s - {c}"
proof (cases "sched_jobs s c")
  case None
  with assms show ?thesis by (simp add: release_job_def transition_unknown)
next
  case (Some jp)
  obtain jp' released where r: "release x (sched_config s) env p jp = (jp', released)" by fastforce
  with Some assms release_slot [OF r] show ?thesis
    by (auto simp: release_job_def transition_job_def held_update held_jobs_def split: if_splits)
qed

lemma release_job_Inl:
  assumes "release_job x env c p s = (s', Inl e)"
  shows "held_jobs s' = held_jobs s"
proof (cases "sched_jobs s c")
  case None
  with assms show ?thesis by (simp add: release_job_def transition_unknown)
next
  case (Some jp)
  obtain jp' released where r: "release x (sched_config s) env p jp = (jp', released)" by fastforce
  with Some assms release_slot [OF r] show ?thesis
    by (auto simp: release_job_def transition_job_def held_update held_jobs_def split: if_splits)
qed

lemma reschedule_job_held: "held_jobs (fst (reschedule_job x env c p s)) = held_jobs s"
proof (cases "sched_jobs s c")
  case None
  then show ?thesis by (simp add: reschedule_job_def transition_unknown)
next
  case (Some jp)
  then show ?thesis
    using reschedule_slot [of x "sched_config s" env p jp]
    by (auto simp: reschedule_job_def transition_job_def held_update held_jobs_def)
qed

lemma claim_gives:
  assumes "index_ok s" and "try_claim_due_job now s = (s', Inr (ClaimedJob c))"
  shows "c \<notin> held_jobs s \<and> held_jobs s' = insert c (held_jobs s)"
proof (rule try_claim_cases [OF assms(1), of now])
  fix t d rest jp
  assume "sched_jobs s d = Some jp" "queued_at jp = Some t"
    "try_claim_due_job now s = (s\<lparr>sched_jobs := (sched_jobs s)(d \<mapsto> claim jp), due_queue := rest\<rparr>, Inr (ClaimedJob d))"
  with assms(2) show ?thesis
    by (auto simp: held_update held_jobs_def claim_def queued_at_def split: job_slot.splits)
qed (use assms(2) in auto)

lemma claim_waits:
  assumes "index_ok s" and "try_claim_due_job now s = (s', r)" and "\<forall>c. r \<noteq> Inr (ClaimedJob c)"
  shows "s' = s"
  by (rule try_claim_cases [OF assms(1), of now]) (use assms(2,3) in auto)

lemma sched_step_index_ok: "index_ok s \<Longrightarrow> sched_step x s ev s' \<Longrightarrow> index_ok s'"
  by (erule sched_step.cases) (metis fst_conv index_ok_claim index_ok_release index_ok_reschedule)+

interpretation pool: claim_discipline "sched_step x" index_ok held_jobs
proof unfold_locales
  show "index_ok s'" if "index_ok s" "sched_step x s ev s'" for s ev s'
    using that by (rule sched_step_index_ok)
  show "c \<notin> held_jobs s \<and> held_jobs s' = insert c (held_jobs s)" if "index_ok s" "sched_step x s (Gave c) s'" for s c s'
    using that claim_gives by (auto elim: sched_step.cases)
  show "c \<in> held_jobs s \<and> held_jobs s' = held_jobs s - {c}" if "sched_step x s (TookBack c p) s'" for s c p s'
    using that release_job_Inr by (auto elim: sched_step.cases)
  show "held_jobs s' = held_jobs s" if "sched_step x s (Noted c p) s'" for s c p s'
    using that by cases (metis fst_conv reschedule_job_held)
  show "held_jobs s' = held_jobs s" if "index_ok s" "sched_step x s Idle s'" for s s'
    using that(2) claim_waits [OF that(1)] release_job_Inl by cases auto
qed

text \<open>C23. One worker per job. Over every run of a new schedule, however claims, releases and notes of execution ends
  are interleaved, a job that was handed to a worker is not handed out again before it was taken
  back.\<close>
theorem job_claimed_once:
  assumes "event_run (sched_step x) (scheduler_new now codes cfg) (xs @ Gave c # ys @ Gave c # zs) s'"
  shows "\<exists>p. TookBack c p \<in> set ys"
  using assms index_ok_new by (rule pool.claimed_once)

text \<open>Earliest first. On a schedule whose queue indexes its slots, as a new one does and every operation keeps it,
  a look never fails. A job it claims was due and is the earliest queued one, by moment and then by
  code; when it names a moment to wait for, that moment is the earliest and lies ahead; and it waits
  for an event only if no job is queued.\<close>
lemma try_claim_earliest:
  assumes "index_ok s"
  shows "\<exists>s' a. try_claim_due_job now s = (s', Inr a) \<and> index_ok s' \<and>
    (case a of
       ClaimedJob c \<Rightarrow> (\<exists>jp t. sched_jobs s c = Some jp \<and> queued_at jp = Some t \<and> t \<le> now \<and>
         (\<forall>d jp' t'. sched_jobs s d = Some jp' \<longrightarrow> queued_at jp' = Some t' \<longrightarrow> (t, c) \<le> (t', d)))
     | WaitUntil t \<Rightarrow> now < t \<and> (\<exists>c jp. sched_jobs s c = Some jp \<and> queued_at jp = Some t) \<and>
         (\<forall>d jp' t'. sched_jobs s d = Some jp' \<longrightarrow> queued_at jp' = Some t' \<longrightarrow> t \<le> t')
     | WaitForPoolEvent \<Rightarrow> (\<forall>d jp'. sched_jobs s d = Some jp' \<longrightarrow> queued_at jp' = None))"
proof -
  have ok': "index_ok (fst (try_claim_due_job now s))" by (rule index_ok_claim [OF assms])
  have in_q: "(t', d) \<in> set (due_queue s)" if "sched_jobs s d = Some jp'" "queued_at jp' = Some t'" for d jp' t'
    using assms that by (auto simp: index_ok_def)
  have first: "(t, c) \<le> e" if "due_queue s = (t, c) # rest" "e \<in> set (due_queue s)" for t c rest e
    using index_ok_sorted [OF assms] that by auto
  show ?thesis
  proof (rule try_claim_cases [OF assms, of now])
    assume "due_queue s = []" "try_claim_due_job now s = (s, Inr WaitForPoolEvent)"
    with assms in_q show ?thesis by (auto, metis not_None_eq)
  next
    fix t c rest assume q: "due_queue s = (t, c) # rest" "now < t" "try_claim_due_job now s = (s, Inr (WaitUntil t))"
    have "\<exists>c jp. sched_jobs s c = Some jp \<and> queued_at jp = Some t"
      using assms q(1) unfolding index_ok_def by (metis list.set_intros(1))
    moreover have "t \<le> t'" if "sched_jobs s d = Some jp'" "queued_at jp' = Some t'" for d jp' t'
      using first [OF q(1) in_q [OF that]] by (auto simp: less_eq_prod_def)
    ultimately show ?thesis using q(2,3) assms by auto
  next
    fix t c rest jp
    assume q: "due_queue s = (t, c) # rest" "t \<le> now" "sched_jobs s c = Some jp" "queued_at jp = Some t"
      and r: "try_claim_due_job now s =
         (s\<lparr>sched_jobs := (sched_jobs s)(c \<mapsto> claim jp), due_queue := rest\<rparr>, Inr (ClaimedJob c))"
    have "(t, c) \<le> (t', d)" if "sched_jobs s d = Some jp'" "queued_at jp' = Some t'" for d jp' t'
      using first [OF q(1) in_q [OF that]] .
    with q r ok' show ?thesis by auto
  qed
qed

section \<open>Giving a job up\<close>

lemma merge_never [simp]: "merge a b = PollNever \<longleftrightarrow> a = PollNever \<or> b = PollNever"
  by (cases a; cases b) auto

lemma slot_of_due_exhausted [simp]: "slot_of_due due = Exhausted \<longleftrightarrow> due = PollNever"
  by (cases due) auto

lemma slot_of_due_claimed [simp]: "slot_of_due due \<noteq> Claimed d"
  by (cases due) auto

lemma calculate_poll_never [simp]: "fst (calculate_poll x cfg env jp p) = PollNever \<longleftrightarrow> p = IterationsEnded"
  by (cases p) (auto simp: Let_def)

definition given_up :: "job_poll \<Rightarrow> bool" where
  "given_up jp \<longleftrightarrow> jp_slot jp = Exhausted \<or> jp_slot jp = Claimed (Some PollNever)"

lemma given_up_claim: "\<not> given_up (claim jp)"
  by (simp add: given_up_def claim_def)

lemma calculate_poll_neverD: "calculate_poll x cfg env jp p = (PollNever, i) \<Longrightarrow> p = IterationsEnded"
  using calculate_poll_never [of x cfg env jp p] by simp

lemma given_up_release:
  "release x cfg env p jp = (jp', released) \<Longrightarrow> given_up jp' \<Longrightarrow> given_up jp \<or> released \<and> p = IterationsEnded"
  by (auto simp: release_def given_up_def schedule_poll_def Let_def
      dest: calculate_poll_neverD split: job_slot.splits option.splits prod.splits)

lemma given_up_reschedule:
  "given_up (reschedule x cfg env p jp) \<Longrightarrow> given_up jp \<or> p = IterationsEnded"
  by (auto simp: reschedule_def given_up_def schedule_poll_def Let_def split: job_slot.splits option.splits if_splits)

definition ends_job :: "string \<Rightarrow> claim_event \<Rightarrow> bool" where
  "ends_job c ev \<longleftrightarrow> ev = TookBack c IterationsEnded \<or> ev = Noted c IterationsEnded"

lemma given_up_step:
  assumes "sched_step x s ev s'" and "sched_jobs s' c = Some jp'" and "given_up jp'" and "index_ok s"
  shows "(\<exists>jp. sched_jobs s c = Some jp \<and> given_up jp) \<or> ends_job c ev"
  using assms(1)
proof cases
  case (step_claim now d)
  show ?thesis
  proof (rule try_claim_cases [OF assms(4), of now])
    fix t e rest jp
    assume "try_claim_due_job now s = (s\<lparr>sched_jobs := (sched_jobs s)(e \<mapsto> claim jp), due_queue := rest\<rparr>, Inr (ClaimedJob e))"
    with step_claim(2) assms(2,3) given_up_claim show ?thesis by (auto split: if_splits)
  qed (use step_claim(2) in auto)
next
  case (step_wait now r)
  with claim_waits [OF assms(4)] assms(2,3) show ?thesis by blast
next
  case (step_release env d p)
  show ?thesis
  proof (cases "sched_jobs s d")
    case None
    with step_release(2) show ?thesis by (simp add: release_job_def transition_unknown)
  next
    case (Some jp)
    obtain jp1 released where r: "release x (sched_config s) env p jp = (jp1, released)" by fastforce
    with Some step_release assms(2,3) given_up_release [OF r] show ?thesis
      by (cases "c = d") (auto simp: release_job_def transition_job_def ends_job_def split: if_splits)
  qed
next
  case (step_refused env d p e)
  show ?thesis
  proof (cases "sched_jobs s d")
    case None
    with step_refused(2) assms(2,3) show ?thesis by (simp add: release_job_def transition_unknown)
  next
    case (Some jp)
    obtain jp1 released where r: "release x (sched_config s) env p jp = (jp1, released)" by fastforce
    with Some step_refused assms(2,3) release_slot [OF r] show ?thesis
      by (cases "c = d") (auto simp: release_job_def transition_job_def split: if_splits)
  qed
next
  case (step_note env d p r)
  show ?thesis
  proof (cases "sched_jobs s d")
    case None
    with step_note(2) assms(2,3) show ?thesis by (simp add: reschedule_job_def transition_unknown)
  next
    case (Some jp)
    with step_note assms(2,3) given_up_reschedule [of x "sched_config s" env p jp] show ?thesis
      by (cases "c = d") (auto simp: reschedule_job_def transition_job_def ends_job_def)
  qed
qed

lemma given_up_run:
  assumes "event_run (sched_step x) s evs s'" and "sched_jobs s' c = Some jp'" and "given_up jp'" and "index_ok s"
  shows "(\<exists>jp. sched_jobs s c = Some jp \<and> given_up jp) \<or> (\<exists>ev \<in> set evs. ends_job c ev)"
  using assms
proof (induction rule: event_run.induct)
  case (event_run_nil s)
  then show ?case by blast
next
  case (event_run_cons s ev s1 evs s2)
  then have "index_ok s1" by (metis sched_step_index_ok)
  with event_run_cons given_up_step [OF event_run_cons.hyps(1)] show ?case by fastforce
qed

lemma fold_upd_same: "fold (\<lambda>c m. m(c \<mapsto> v)) cs m d = (if d \<in> set cs then Some v else m d)"
  by (induction cs arbitrary: m) auto

lemma new_not_given_up: "sched_jobs (scheduler_new now codes cfg) c = Some jp \<Longrightarrow> \<not> given_up jp"
  by (auto simp: scheduler_new_def given_up_def fold_upd_same split: if_splits)

text \<open>No job is dropped. In every run of a new schedule, a job is no longer polled only if some task start or
  execution of that job reported that its iterations ended.\<close>
lemma exhausted_only_when_ended:
  assumes "event_run (sched_step x) (scheduler_new now codes cfg) evs s"
    and "sched_jobs s c = Some jp" and "jp_slot jp = Exhausted"
  shows "\<exists>ev \<in> set evs. ev = TookBack c IterationsEnded \<or> ev = Noted c IterationsEnded"
proof -
  have "given_up jp" using assms(3) by (simp add: given_up_def)
  with given_up_run [OF assms(1,2) _ index_ok_new] new_not_given_up show ?thesis by (auto simp: ends_job_def)
qed

section \<open>Settings and bounds\<close>

definition config_ok :: "poll_config \<Rightarrow> bool" where
  "config_ok cfg \<longleftrightarrow> 0 < cfg_poll_interval cfg \<and> cfg_poll_interval cfg \<le> LONGEST_ACCEPTED_POLL_INTERVAL \<and>
     (\<forall>ceiling. cfg_max_poll_interval cfg = Some ceiling \<longrightarrow>
        cfg_poll_interval cfg \<le> ceiling \<and> ceiling \<le> LONGEST_ACCEPTED_POLL_INTERVAL)"

lemmas poll_const_defs =
  LONGEST_ACCEPTED_POLL_INTERVAL_def DEFAULT_POLL_INTERVAL_def DEFAULT_POLL_JITTER_def
  DEFAULT_MAX_POLL_INTERVAL_FACTOR_def millis_def secs_def

lemma config_ok_new: "config_ok poll_config_new"
  by (simp add: config_ok_def poll_config_new_def poll_const_defs)

text \<open>Each setter that accepts a value keeps the settings ones a pool can poll by.\<close>

lemma config_ok_interval: "config_ok cfg \<Longrightarrow> with_poll_interval i cfg = Inr cfg' \<Longrightarrow> config_ok cfg'"
  by (auto simp: config_ok_def with_poll_interval_def linorder_not_less split: if_splits option.splits)

lemma config_ok_ceiling: "config_ok cfg \<Longrightarrow> with_max_poll_interval c cfg = Inr cfg' \<Longrightarrow> config_ok cfg'"
  by (auto simp: config_ok_def with_max_poll_interval_def linorder_not_less split: if_splits option.splits)

lemma config_ok_jitter: "config_ok cfg \<Longrightarrow> config_ok (with_poll_jitter j cfg)"
  by (simp add: config_ok_def with_poll_jitter_def)

lemma ceiling_bounds:
  assumes "config_ok cfg"
  shows "cfg_poll_interval cfg \<le> max_poll_interval cfg"
    and "max_poll_interval cfg \<le> DEFAULT_MAX_POLL_INTERVAL_FACTOR * LONGEST_ACCEPTED_POLL_INTERVAL"
  using assms
  by (auto simp: max_poll_interval_def config_ok_def DEFAULT_MAX_POLL_INTERVAL_FACTOR_def split: option.splits)

lemma jitter_bound: "draw_ok draw \<Longrightarrow> calculate_jitter cfg draw \<le> cfg_poll_jitter cfg"
proof -
  assume d: "draw_ok draw"
  let ?m = "min (cfg_poll_jitter cfg) (2 ^ 64 - 1)"
  have "?m > 0 \<Longrightarrow> draw ?m < ?m" using d unfolding draw_ok_def by blast
  then show ?thesis by (auto simp: calculate_jitter_def Let_def)
qed

lemma poll_at_bounds:
  assumes "draw_ok (env_draw env)"
  shows "env_now env \<le> calculate_poll_at cfg env wait \<and>
    calculate_poll_at cfg env wait \<le> env_now env + wait + cfg_poll_jitter cfg"
  using jitter_bound [OF assms, of cfg] by (simp add: calculate_poll_at_def)

definition longest_wait :: "poll_config \<Rightarrow> duration" where
  "longest_wait cfg = max LONGEST_ACCEPTED_POLL_INTERVAL (max_poll_interval cfg)"

lemma poll_at_longest:
  "draw_ok (env_draw env) \<Longrightarrow> wait \<le> longest_wait cfg \<Longrightarrow>
     env_now env \<le> calculate_poll_at cfg env wait \<and>
     calculate_poll_at cfg env wait \<le> env_now env + longest_wait cfg + cfg_poll_jitter cfg"
  using poll_at_bounds [of env cfg wait] by linarith

text \<open>C40. Poll bounds. Whatever a worker reports, the backoff step of a job stays between the poll interval and the
  ceiling; a poll is never scheduled before now, nor later than the longest accepted interval or the
  ceiling plus the jitter; a report that nothing moved doubles the step up to the ceiling; and only
  the end of the iterations asks for no poll at all.\<close>
theorem calculate_poll_bounds:
  assumes "config_ok cfg" and "draw_ok (env_draw env)"
    and "cfg_poll_interval cfg \<le> jp_interval jp" and "jp_interval jp \<le> max_poll_interval cfg"
    and "calculate_poll x cfg env jp p = (due, interval)"
  shows "cfg_poll_interval cfg \<le> interval \<and> interval \<le> max_poll_interval cfg \<and>
    (p = Stalled \<longrightarrow> interval = min (2 * jp_interval jp) (max_poll_interval cfg)) \<and>
    (due = PollNever \<longleftrightarrow> p = IterationsEnded) \<and>
    (\<forall>t. due = At t \<longrightarrow> env_now env \<le> t \<and> t \<le> env_now env + longest_wait cfg + cfg_poll_jitter cfg)"
proof -
  note ceiling = ceiling_bounds(1) [OF assms(1)]
  have never: "due = PollNever \<longleftrightarrow> p = IterationsEnded" using calculate_poll_never [of x cfg env jp p] assms(5) by simp
  have interval: "cfg_poll_interval cfg \<le> interval \<and> interval \<le> max_poll_interval cfg \<and>
      (p = Stalled \<longrightarrow> interval = min (2 * jp_interval jp) (max_poll_interval cfg))"
    using assms(3-5) ceiling
    by (cases p) (auto simp: Let_def calculate_backed_off_poll_interval_def mult.commute)
  have waits: "calculate_duration_until x (env_utc env) d \<le> longest_wait cfg"
    "calculate_retry_wait x cfg (env_utc env) d \<le> longest_wait cfg" "cfg_poll_interval cfg \<le> longest_wait cfg"
    "calculate_backed_off_poll_interval cfg i \<le> longest_wait cfg" "0 \<le> longest_wait cfg" for d i
    using ceiling
    by (auto simp: calculate_duration_until_def calculate_retry_wait_def longest_wait_def
        calculate_backed_off_poll_interval_def)
  have "env_now env \<le> t \<and> t \<le> env_now env + longest_wait cfg + cfg_poll_jitter cfg" if "due = At t" for t
    using assms(5) that poll_at_longest [OF assms(2), of _ cfg] waits by (cases p) (auto simp: Let_def)
  with never interval show ?thesis by blast
qed

text \<open>The default ceiling. Where no ceiling is named, the backoff ceiling is ten poll intervals, whatever the
  interval: an accepted poll interval of a year gives a ceiling of ten years.\<close>
lemma default_ceiling_unbounded:
  "\<exists>cfg. with_poll_interval LONGEST_ACCEPTED_POLL_INTERVAL poll_config_new = Inr cfg \<and> config_ok cfg \<and>
     max_poll_interval cfg = 10 * LONGEST_ACCEPTED_POLL_INTERVAL \<and>
     LONGEST_ACCEPTED_POLL_INTERVAL < max_poll_interval cfg"
  by (simp add: with_poll_interval_def poll_config_new_def config_ok_def max_poll_interval_def poll_const_defs)

section \<open>A schedule for evaluation\<close>

definition sample_scheduler :: scheduler where
  "sample_scheduler = scheduler_new 5 [''a''] poll_config_new"

definition sample_env :: poll_env where
  "sample_env = \<lparr>env_now = 7, env_utc = 0, env_draw = (\<lambda>_. 0)\<rparr>"

definition sample_claimed :: scheduler where
  "sample_claimed = fst (try_claim_due_job 6 sample_scheduler)"

definition sample_released :: scheduler where
  "sample_released = fst (release_job std_externs sample_env ''a'' TaskPickable sample_claimed)"

definition sample_exhausted :: scheduler where
  "sample_exhausted = fst (release_job std_externs sample_env ''a'' IterationsEnded sample_claimed)"

lemmas sample_sched_defs =
  sample_scheduler_def sample_env_def poll_config_new_def scheduler_new_def try_claim_due_job_def
  release_job_def transition_job_def release_def claim_def queued_at_def move_entry_def schedule_poll_def
  insort_insert_key_def

lemma sample_claimed_eq: "sample_claimed =
    \<lparr>sched_config = poll_config_new,
     sched_jobs = [''a'' \<mapsto> \<lparr>jp_interval = DEFAULT_POLL_INTERVAL, jp_slot = Claimed None\<rparr>], due_queue = []\<rparr>"
  by (simp add: sample_claimed_def sample_sched_defs)

lemma sample_released_eq: "sample_released =
    \<lparr>sched_config = poll_config_new,
     sched_jobs = [''a'' \<mapsto> \<lparr>jp_interval = DEFAULT_POLL_INTERVAL, jp_slot = Queued 7\<rparr>], due_queue = [(7, ''a'')]\<rparr>"
  by (simp add: sample_released_def sample_claimed_eq sample_sched_defs)

lemma sample_claim: "try_claim_due_job 6 sample_scheduler = (sample_claimed, Inr (ClaimedJob ''a''))"
  by (simp add: sample_claimed_def sample_sched_defs)

lemma sample_release: "release_job std_externs sample_env ''a'' TaskPickable sample_claimed = (sample_released, Inr ())"
  by (simp add: sample_released_def sample_claimed_eq sample_sched_defs)

lemma sample_reclaim:
  "try_claim_due_job 8 sample_released = (fst (try_claim_due_job 8 sample_released), Inr (ClaimedJob ''a''))"
  by (simp add: sample_released_eq sample_sched_defs)

lemma sample_exhaust:
  "release_job std_externs sample_env ''a'' IterationsEnded sample_claimed = (sample_exhausted, Inr ())"
  by (simp add: sample_exhausted_def sample_claimed_eq sample_sched_defs)

lemma sample_exhausted_slot:
  "sched_jobs sample_exhausted ''a'' = Some \<lparr>jp_interval = DEFAULT_POLL_INTERVAL, jp_slot = Exhausted\<rparr>"
  by (simp add: sample_exhausted_def sample_claimed_eq sample_sched_defs)

lemma sample_run:
  "event_run (sched_step std_externs) sample_scheduler
     ([] @ Gave ''a'' # [TookBack ''a'' TaskPickable] @ Gave ''a'' # []) (fst (try_claim_due_job 8 sample_released))"
  unfolding append.simps
  by (rule event_run_cons, rule step_claim [OF sample_claim], rule event_run_cons, rule step_release [OF sample_release],
      rule event_run_cons, rule step_claim [OF sample_reclaim], rule event_run_nil)

lemma sample_run_exhausted:
  "event_run (sched_step std_externs) sample_scheduler [Gave ''a'', TookBack ''a'' IterationsEnded] sample_exhausted"
  by (rule event_run_cons, rule step_claim [OF sample_claim], rule event_run_cons, rule step_release [OF sample_exhaust],
      rule event_run_nil)

theorem job_claimed_once_witness: "\<exists>p. TookBack ''a'' p \<in> set [TookBack ''a'' TaskPickable]"
  by (rule job_claimed_once [OF sample_run [unfolded sample_scheduler_def]])

lemma sample_env_draw: "draw_ok (env_draw sample_env)"
  by (simp add: draw_ok_def sample_env_def)

theorem calculate_poll_bounds_witness:
  "DEFAULT_POLL_INTERVAL \<le> min (2 * DEFAULT_POLL_INTERVAL) (max_poll_interval poll_config_new)"
  using calculate_poll_bounds [OF config_ok_new sample_env_draw,
      of "\<lparr>jp_interval = DEFAULT_POLL_INTERVAL, jp_slot = Exhausted\<rparr>" std_externs Stalled]
    ceiling_bounds(1) [OF config_ok_new]
  by (simp add: poll_config_new_def Let_def calculate_backed_off_poll_interval_def mult.commute)

end
