(* ===== verification/JM_Handle.thy ===== *)
theory JM_Handle
  imports JM_Job_Props JM_Errors
begin

text \<open>
  \<^verbatim>\<open>execution/job_handle.rs\<close> and the outcomes of \<^verbatim>\<open>execution/executor.rs\<close>: the only access an executor
  has to the job its task belongs to. An executor is modelled as the calls it makes on its handle,
  each one chosen by the answers to the calls before it, until it returns an outcome, fails or
  panics. So a theorem about every such program is one about every executor that returns.
\<close>

section \<open>The handle\<close>

record handle_state =
  hs_job :: job
  is_open :: bool

record job_handle =
  h_worker_id :: uuid
  h_task_id :: uuid

definition handle_state_new :: "job \<Rightarrow> handle_state" where
  "handle_state_new j = \<lparr>hs_job = j, is_open = True\<rparr>"

definition close_handle :: "handle_state \<Rightarrow> handle_state" where
  "close_handle hs = hs\<lparr>is_open := False\<rparr>"

definition check_open :: "handle_state \<Rightarrow> error + unit" where
  "check_open hs =
     (if is_open hs then Inr ()
      else Inl (ErrOther ''job handle is no longer valid: the task execution it belongs to has finished''))"

definition write_job :: "'a job_op \<Rightarrow> (handle_state, error, 'a) sresult" where
  "write_job writer hs = (case check_open hs of
      Inl e \<Rightarrow> (hs, Inl e)
    | Inr _ \<Rightarrow> (case writer (hs_job hs) of
        (j, r) \<Rightarrow> (hs\<lparr>hs_job := j\<rparr>, map_err (\<lambda>e. ErrOther (job_error_display e)) r)))"

definition read_job :: "(job \<Rightarrow> job_error + 'a) \<Rightarrow> handle_state \<Rightarrow> error + 'a" where
  "read_job reader hs = (case check_open hs of
      Inl e \<Rightarrow> Inl e
    | Inr _ \<Rightarrow> map_err (\<lambda>e. ErrOther (job_error_display e)) (reader (hs_job hs)))"

text \<open>
  The methods of the handle as one type of calls and one of answers. The reading of the clock and the
  identifier a call mints are its \<open>call_input\<close>.
\<close>

record call_input =
  call_now :: time
  call_id :: uuid

datatype handle_call =
    AddTask task_definition
  | CompleteTask uuid bytes
  | FailTask uuid string task_retry
  | SkipTaskBranch string
  | SetNextStartAt time
  | GetTask uuid
  | GetTasksByCode task_code

datatype handle_reply =
    ReplyRef task_ref
  | ReplyUnit
  | ReplyTask task
  | ReplyTasks "task list"
  | ReplyError error

fun reply_of :: "('a \<Rightarrow> handle_reply) \<Rightarrow> error + 'a \<Rightarrow> handle_reply" where
  "reply_of f (Inl e) = ReplyError e"
| "reply_of f (Inr a) = f a"

fun handle_apply ::
  "externs \<Rightarrow> call_input \<Rightarrow> job_handle \<Rightarrow> handle_call \<Rightarrow> handle_state \<Rightarrow> handle_state \<times> handle_reply" where
  "handle_apply x ci h (AddTask d) hs =
     (case write_job (add_task x (call_id ci) d (h_worker_id h) (Some (h_task_id h))) hs of
        (hs', r) \<Rightarrow> (hs', reply_of (\<lambda>i. ReplyRef (Created i)) r))"
| "handle_apply x ci h (CompleteTask i out) hs =
     (case write_job (complete_task (call_now ci) i out (h_worker_id h)) hs of
        (hs', r) \<Rightarrow> (hs', reply_of (\<lambda>_. ReplyUnit) r))"
| "handle_apply x ci h (FailTask i msg retry) hs =
     (case write_job (fail_task (call_now ci) i msg retry (h_worker_id h)) hs of
        (hs', r) \<Rightarrow> (hs', reply_of (\<lambda>_. ReplyUnit) r))"
| "handle_apply x ci h (SkipTaskBranch reason) hs =
     (case write_job (skip_task_by_executor (call_now ci) (h_task_id h) reason (h_worker_id h)) hs of
        (hs', r) \<Rightarrow> (hs', reply_of (\<lambda>_. ReplyUnit) r))"
| "handle_apply x ci h (SetNextStartAt at) hs =
     (case write_job (modifyS (set_next_start_at at)) hs of
        (hs', r) \<Rightarrow> (hs', reply_of (\<lambda>_. ReplyUnit) r))"
| "handle_apply x ci h (GetTask i) hs = (hs, reply_of ReplyTask (read_job (find_task i) hs))"
| "handle_apply x ci h (GetTasksByCode c) hs =
     (hs, reply_of ReplyTasks (read_job (\<lambda>j. Inr (get_tasks_by_code c j)) hs))"

section \<open>Executors\<close>

datatype task_outcome =
    OutcomeCompleted bytes
  | OutcomeTerminallyFailed string
  | OutcomeSkippedBranch string
  | OutcomeCancelled
  | OutcomeDeferred

definition outcome_empty :: task_outcome where
  "outcome_empty = OutcomeCompleted []"

text \<open>\<^verbatim>\<open>Result<TaskResult, Box<dyn Any + Send>>\<close>: an outcome, the message of an error, or the payload of a
  panic, of which a worker reads the two types of a message.\<close>

datatype panic_payload = PanicStr string | PanicString string | PanicOther

datatype executor_return =
    ReturnedOutcome task_outcome
  | ReturnedError string
  | Panicked panic_payload

datatype executor_program =
    Finish executor_return
  | Call handle_call "handle_reply \<Rightarrow> executor_program"

primrec run_program ::
  "executor_program \<Rightarrow> externs \<Rightarrow> (nat \<Rightarrow> call_input) \<Rightarrow> job_handle \<Rightarrow> nat \<Rightarrow> handle_state \<Rightarrow> handle_state \<times> executor_return" where
  "run_program (Finish r) x ci h n hs = (hs, r)"
| "run_program (Call c k) x ci h n hs =
     (case handle_apply x (ci n) h c hs of (hs', reply) \<Rightarrow> run_program (k reply) x ci h (Suc n) hs')"

section \<open>A closed handle\<close>

lemma closed_call:
  assumes "\<not> is_open hs"
  shows "handle_apply x ci h c hs =
    (hs, ReplyError (ErrOther ''job handle is no longer valid: the task execution it belongs to has finished''))"
  using assms by (cases c) (auto simp: write_job_def read_job_def check_open_def)

text \<open>C10. A closed handle. Once the worker has closed the handle, every call on it is refused, so an executor that
  kept it and goes on using it, in whatever way, leaves the job the worker is about to persist as it
  was.\<close>
theorem closed_handle_inert:
  "run_program prog x ci h n (close_handle hs) = (close_handle hs, snd (run_program prog x ci h n (close_handle hs))) \<and>
   snd (handle_apply x (ci n) h c (close_handle hs)) =
     ReplyError (ErrOther ''job handle is no longer valid: the task execution it belongs to has finished'')"
proof -
  have closed: "\<not> is_open (close_handle hs)" by (simp add: close_handle_def)
  have "fst (run_program prog x ci h n hs') = hs'" if "\<not> is_open hs'" for hs' n
    by (induction prog arbitrary: n) (auto simp: closed_call [OF that])
  with closed show ?thesis by (metis closed_call prod.collapse snd_conv)
qed

section \<open>What an execution can change\<close>

text \<open>
  The copy of the job a worker holds while it executes task \<open>p\<close>: the task is there, it was not created
  by a running execution, the worker holds it, and it runs or is resolved.
\<close>

definition executing :: "uuid \<Rightarrow> uuid \<Rightarrow> job \<Rightarrow> bool" where
  "executing p w j \<longleftrightarrow> job_wf j \<and> execution_of p j \<and>
     (\<exists>t. task_at j p = Some t \<and> created_by_task t = None \<and> processing_by_worker t = Some w \<and>
        (task_status t = Started \<or> is_resolved t))"

text \<open>
  What an execution may do to the tasks it did not create: nothing, except resolving a task its own
  worker has running.
\<close>

definition only_own_resolved :: "uuid \<Rightarrow> job \<Rightarrow> job \<Rightarrow> bool" where
  "only_own_resolved w j j' \<longleftrightarrow>
     (\<forall>k t. task_at j k = Some t \<longrightarrow> created_by_task t = None \<longrightarrow>
        (\<exists>t'. task_at j' k = Some t' \<and> created_by_task t' = None \<and>
           (t' = t \<or> task_status t = Started \<and> processing_by_worker t = Some w \<and>
                    is_resolved t' \<and> processing_by_worker t' = Some w)))"

lemma only_own_refl: "only_own_resolved w j j"
  by (simp add: only_own_resolved_def)

lemma started_not_resolved: "task_status t = Started \<Longrightarrow> \<not> is_resolved t"
  by (simp add: is_resolved_iff)

lemma only_own_trans:
  assumes ab: "only_own_resolved w a b" and bc: "only_own_resolved w b c"
  shows "only_own_resolved w a c"
  unfolding only_own_resolved_def
proof (intro allI impI)
  fix k t assume t: "task_at a k = Some t" "created_by_task t = None"
  with ab obtain u where u: "task_at b k = Some u" "created_by_task u = None"
    "u = t \<or> task_status t = Started \<and> processing_by_worker t = Some w \<and> is_resolved u \<and> processing_by_worker u = Some w"
    unfolding only_own_resolved_def by blast
  with bc obtain v where v: "task_at c k = Some v" "created_by_task v = None"
    "v = u \<or> task_status u = Started \<and> processing_by_worker u = Some w \<and> is_resolved v \<and> processing_by_worker v = Some w"
    unfolding only_own_resolved_def by blast
  with u(3) started_not_resolved [of u] show "\<exists>t'. task_at c k = Some t' \<and> created_by_task t' = None \<and>
      (t' = t \<or> task_status t = Started \<and> processing_by_worker t = Some w \<and> is_resolved t' \<and> processing_by_worker t' = Some w)"
    by auto
qed

text \<open>Resolving a task the worker has running.\<close>

lemma resolve_own:
  assumes ex: "executing p w j" and t: "task_at j k = Some t" and st: "task_status t = Started" "processing_by_worker t = Some w"
    and t': "task_id t' = task_id t" "depends_on t' = depends_on t" "created_by_task t' = created_by_task t"
      "processing_by_worker t' = processing_by_worker t" "is_resolved t'" "task_wf t'"
  shows "executing p w (put_task k t' j) \<and> only_own_resolved w j (put_task k t' j)"
proof -
  have wf: "job_wf (put_task k t' j)"
    using ex by (auto simp: executing_def intro: job_wf_put_task [OF _ t t'(1,2,6)])
  have exo: "execution_of p (put_task k t' j)"
    using ex by (auto simp: executing_def intro: execution_of_put [OF _ t t'(3,2)])
  from ex obtain u where u: "task_at j p = Some u" "created_by_task u = None" "processing_by_worker u = Some w"
    "task_status u = Started \<or> is_resolved u" by (auto simp: executing_def)
  then have "\<exists>u. task_at (put_task k t' j) p = Some u \<and> created_by_task u = None \<and> processing_by_worker u = Some w \<and>
      (task_status u = Started \<or> is_resolved u)"
    using t t' st by (cases "k = p") auto
  with wf exo have "executing p w (put_task k t' j)" by (simp add: executing_def)
  moreover have "only_own_resolved w j (put_task k t' j)"
    using t t' st by (auto simp: only_own_resolved_def)
  ultimately show ?thesis ..
qed

text \<open>A transition the owner check guards.\<close>

definition resolves :: "(task \<Rightarrow> job_error + task) \<Rightarrow> bool" where
  "resolves f \<longleftrightarrow> keeps f \<and> (\<forall>t t'. f t = Inr t' \<longrightarrow>
     is_resolved t' \<and> processing_by_worker t' = processing_by_worker t)"

lemma resolves_complete: "resolves (complete now out)"
  by (auto simp: resolves_def complete_Inr_iff is_resolved_iff intro: keeps_complete)

lemma resolves_skip: "resolves (skip now r c)"
  by (auto simp: resolves_def skip_Inr_iff is_resolved_iff intro: keeps_skip)

lemma resolves_fail: "resolves (fail now msg retry)"
  using keeps_fail [of now "\<lambda>_. msg" retry] by (auto simp: resolves_def fail_Inr_iff is_resolved_iff)

lemma owner_started:
  "task_wf t \<Longrightarrow> task_status t = Started \<Longrightarrow> check_task_owner t w = Inr () \<Longrightarrow> processing_by_worker t = Some w"
  by (auto simp: task_wf_def has_run_def check_task_owner_def split: if_splits)

lemma owned_step:
  assumes ex: "executing p w j" and f: "resolves f"
    and st: "\<And>t t'. task_at j k = Some t \<Longrightarrow> f t = Inr t' \<Longrightarrow> task_status t = Started"
    and r: "with_task k (\<lambda>t. bindR (check_task_owner t w) (\<lambda>_. f t)) j = (j', res)"
  shows "executing p w j' \<and> only_own_resolved w j j'"
proof (rule with_task_cases [of k "\<lambda>t. bindR (check_task_owner t w) (\<lambda>_. f t)" j])
  fix e assume "with_task k (\<lambda>t. bindR (check_task_owner t w) (\<lambda>_. f t)) j = (j, Inl e)"
  with r ex only_own_refl show ?thesis by auto
next
  fix t t' assume t: "task_at j k = Some t" and g: "bindR (check_task_owner t w) (\<lambda>_. f t) = Inr t'"
    and w: "with_task k (\<lambda>t. bindR (check_task_owner t w) (\<lambda>_. f t)) j = (put_task k t' j, Inr ())"
  from g have f': "check_task_owner t w = Inr ()" "f t = Inr t'" by auto
  have wf: "task_wf t" using job_wf_task t ex by (auto simp: executing_def)
  have started: "task_status t = Started" by (rule st [OF t f'(2)])
  have "executing p w (put_task k t' j) \<and> only_own_resolved w j (put_task k t' j)"
    by (rule resolve_own [OF ex t started owner_started [OF wf started f'(1)]])
      (use f f'(2) wf in \<open>auto simp: resolves_def keeps_def\<close>)
  with r w show ?thesis by simp
qed

lemma drop_other:
  assumes "execution_of p j" and "distinct (map fst (tasks_by_id j))" and "k \<noteq> p"
  shows "drop_created_by k j = j"
proof -
  have "created_by_task t \<noteq> Some k" if "(i, t) \<in> set (tasks_by_id j)" for i t
    using assms that in_set_iff_map_of [OF assms(2), of i t] unfolding execution_of_def by fastforce
  then have "filter (\<lambda>(_, t). created_by_task t \<noteq> Some k) (tasks_by_id j) = tasks_by_id j"
    by (auto intro: filter_True)
  then show ?thesis by (simp add: drop_created_by_def)
qed

lemma drop_own:
  assumes ex: "executing p w j"
  shows "executing p w (drop_created_by p j) \<and> only_own_resolved w j (drop_created_by p j)"
proof -
  have wf: "job_wf j" and exo: "execution_of p j" using ex by (auto simp: executing_def)
  note at = task_at_drop [OF job_wf_distinct [OF wf], of p]
  have "execution_of p (drop_created_by p j)"
    using exo unfolding execution_of_def at by (auto split: option.splits if_splits)
  with ex job_wf_drop_created_by [OF wf exo] show ?thesis
    by (auto simp: executing_def only_own_resolved_def at)
qed

lemma fail_step:
  assumes ex: "executing p w j" and r: "fail_task now k msg retry w j = (j', res)"
  shows "executing p w j' \<and> only_own_resolved w j j'"
proof -
  let ?f = "\<lambda>t. bindR (check_task_owner t w) (\<lambda>_. fail now msg retry t)"
  obtain j1 r1 where w: "with_task k ?f j = (j1, r1)" by fastforce
  have one: "executing p w j1 \<and> only_own_resolved w j j1"
    by (rule owned_step [OF ex resolves_fail _ w]) (simp add: fail_Inr_iff)
  then have d: "executing p w (drop_created_by k j1) \<and> only_own_resolved w j1 (drop_created_by k j1)"
  proof (cases "k = p")
    case True
    with one drop_own [of p w j1] show ?thesis by simp
  next
    case False
    have "drop_created_by k j1 = j1"
      by (rule drop_other [of p]) (use one False in \<open>auto simp: executing_def job_wf_distinct\<close>)
    with one only_own_refl show ?thesis by simp
  qed
  have "j' = j1 \<or> j' = drop_created_by k j1"
    using r w by (auto simp: fail_task_def bindS_def split: sum.splits)
  with one d show ?thesis using only_own_trans by blast
qed

lemma add_step:
  assumes ex: "executing p w j" and fresh: "task_at j new_id = None"
    and r: "add_task x new_id d w (Some p) j = (j', res)"
  shows "executing p w j' \<and> only_own_resolved w j j' \<and> dom (task_at j') \<subseteq> insert new_id (dom (task_at j))"
proof (cases res)
  case (Inl e)
  with r add_task_Inl ex only_own_refl show ?thesis by blast
next
  case (Inr i)
  with r obtain ids where ids: "mapR (resolve_runtime_dependency j) (def_depends_on d) = Inr ids"
    and j': "j' = put_task new_id (task_new x new_id w (Some p) d ids) j"
    by (auto simp: add_task_Inr_iff)
  let ?t = "task_new x new_id w (Some p) d ids"
  have t: "created_by_task ?t = Some p" "depends_on ?t = ids" by (simp_all add: task_new_def)
  have old: "created_by_task u = Some p" if "task_at j k = Some u" "new_id \<in> set (depends_on u)" for k u
    using job_wf_dependency [OF _ that] ex fresh by (auto simp: executing_def)
  have "execution_of p j'"
    using ex t old unfolding executing_def execution_of_def j' by (auto split: if_splits)
  moreover have "job_wf j'"
    using job_wf_add_task [OF _ fresh, of x d w "Some p"] ex r by (auto simp: executing_def)
  moreover have "new_id \<noteq> p" using ex fresh by (auto simp: executing_def)
  ultimately have "executing p w j'" using ex by (auto simp: executing_def j')
  moreover have "only_own_resolved w j j'" using fresh by (auto simp: only_own_resolved_def j')
  ultimately show ?thesis by (auto simp: j' split: if_splits)
qed

lemma executing_next_start [simp]: "executing p w (set_next_start_at at j) = executing p w j"
  by (simp add: executing_def set_next_start_at_def execution_of_def)

lemma tasks_next_start [simp]: "tasks_by_id (set_next_start_at at j) = tasks_by_id j"
  by (simp add: set_next_start_at_def)

lemma own_next_start: "only_own_resolved w j (set_next_start_at at j)"
  by (simp add: only_own_resolved_def set_next_start_at_def)

lemma with_task_dom: "dom (task_at (fst (with_task k f j))) = dom (task_at j)"
  by (rule with_task_cases [of k f j]) (auto split: if_splits)

lemma fail_task_dom:
  assumes "distinct (map fst (tasks_by_id j))"
  shows "dom (task_at (fst (fail_task now k msg retry w j))) \<subseteq> dom (task_at j)"
proof -
  let ?f = "\<lambda>t. bindR (check_task_owner t w) (\<lambda>_. fail now msg retry t)"
  obtain j1 r1 where w: "with_task k ?f j = (j1, r1)" by fastforce
  have d: "dom (task_at j1) = dom (task_at j)" using with_task_dom [of k ?f j] w by simp
  have "distinct (map fst (tasks_by_id j1))"
    using w assms by (auto simp: with_task_def put_task_def split: sum.splits)
  from task_at_drop [OF this, of k] have "dom (task_at (drop_created_by k j1)) \<subseteq> dom (task_at j1)"
    by (auto split: option.splits if_splits)
  with w d show ?thesis by (auto simp: fail_task_def bindS_def split: sum.splits)
qed

text \<open>One call on an open handle.\<close>

lemma call_step:
  assumes ex: "executing p w (hs_job hs)" and opened: "is_open hs" and fresh: "task_at (hs_job hs) (call_id ci) = None"
    and r: "handle_apply x ci \<lparr>h_worker_id = w, h_task_id = p\<rparr> c hs = (hs', reply)"
  shows "executing p w (hs_job hs') \<and> is_open hs' \<and> only_own_resolved w (hs_job hs) (hs_job hs') \<and>
    dom (task_at (hs_job hs')) \<subseteq> insert (call_id ci) (dom (task_at (hs_job hs)))"
proof -
  let ?j = "hs_job hs"
  have own: "\<And>t. task_at ?j p = Some t \<Longrightarrow> task_status t \<noteq> Blocked"
    using ex by (auto simp: executing_def is_resolved_iff)
  have written: "\<exists>res. f ?j = (hs_job hs', res) \<and> is_open hs'" if "fst (write_job f hs) = hs'" for f :: "'a job_op"
    using that opened by (cases "f ?j") (auto simp: write_job_def check_open_def)
  show ?thesis
  proof (cases c)
    case (AddTask d)
    with r written [of "add_task x (call_id ci) d w (Some p)"] obtain res where
      "add_task x (call_id ci) d w (Some p) ?j = (hs_job hs', res)" "is_open hs'" by (auto split: prod.splits)
    with add_step [OF ex fresh] show ?thesis by blast
  next
    case (CompleteTask i out)
    with r written [of "complete_task (call_now ci) i out w"] obtain res where
      c: "complete_task (call_now ci) i out w ?j = (hs_job hs', res)" "is_open hs'" by (auto split: prod.splits)
    let ?f = "\<lambda>t. bindR (check_task_owner t w) (\<lambda>_. complete (call_now ci) out t)"
    from c have "hs_job hs' = ?j \<or> with_task i ?f ?j = (hs_job hs', res)"
      by (auto simp: complete_task_def split: sum.splits)
    with owned_step [OF ex resolves_complete, of i "call_now ci" out "hs_job hs'" res] with_task_dom [of i ?f ?j]
      ex only_own_refl c(2) show ?thesis by (auto simp: complete_Inr_iff)
  next
    case (FailTask i msg retry)
    with r written [of "fail_task (call_now ci) i msg retry w"] obtain res where
      c: "fail_task (call_now ci) i msg retry w ?j = (hs_job hs', res)" "is_open hs'" by (auto split: prod.splits)
    with fail_step [OF ex c(1)] fail_task_dom [of ?j "call_now ci" i msg retry w] ex show ?thesis
      by (auto simp: executing_def job_wf_distinct)
  next
    case (SkipTaskBranch reason)
    with r written [of "skip_task_by_executor (call_now ci) p reason w"] obtain res where
      c: "skip_task_by_executor (call_now ci) p reason w ?j = (hs_job hs', res)" "is_open hs'" by (auto split: prod.splits)
    let ?f = "\<lambda>t. bindR (check_task_owner t w) (\<lambda>_. skip (call_now ci) reason ExecutorDecision t)"
    from c have w: "with_task p ?f ?j = (hs_job hs', res)" by (simp add: skip_task_by_executor_def)
    have "executing p w (hs_job hs') \<and> only_own_resolved w ?j (hs_job hs')"
      by (rule owned_step [OF ex resolves_skip _ w]) (use own in \<open>auto simp: skip_Inr_iff\<close>)
    with with_task_dom [of p ?f ?j] w c(2) show ?thesis by auto
  next
    case (SetNextStartAt at)
    with r written [of "modifyS (set_next_start_at at)"] have "hs_job hs' = set_next_start_at at ?j" "is_open hs'"
      by (auto simp: modifyS_def split: prod.splits)
    with ex own_next_start show ?thesis by auto
  next
    case (GetTask i)
    with r ex opened only_own_refl show ?thesis by auto
  next
    case (GetTasksByCode tc)
    with r ex opened only_own_refl show ?thesis by auto
  qed
qed

lemma run_step:
  assumes "executing p w (hs_job hs)" and "is_open hs" and "inj (\<lambda>n. call_id (ci n))"
    and "\<And>m. n \<le> m \<Longrightarrow> task_at (hs_job hs) (call_id (ci m)) = None"
    and "run_program prog x ci \<lparr>h_worker_id = w, h_task_id = p\<rparr> n hs = (hs', r)"
  shows "executing p w (hs_job hs') \<and> only_own_resolved w (hs_job hs) (hs_job hs')"
  using assms
proof (induction prog arbitrary: n hs)
  case (Finish r)
  then show ?case by (simp add: only_own_refl)
next
  case (Call c k)
  obtain hs1 reply where st: "handle_apply x (ci n) \<lparr>h_worker_id = w, h_task_id = p\<rparr> c hs = (hs1, reply)" by fastforce
  note one = call_step [OF Call.prems(1,2) Call.prems(4) [OF order_refl] st]
  have fresh: "task_at (hs_job hs1) (call_id (ci m)) = None" if "Suc n \<le> m" for m
  proof -
    have "call_id (ci m) \<noteq> call_id (ci n)" using injD [OF Call.prems(3), of m n] that by auto
    moreover have "call_id (ci m) \<notin> dom (task_at (hs_job hs))" using Call.prems(4) [of m] that by auto
    ultimately show ?thesis using one by blast
  qed
  have "executing p w (hs_job hs') \<and> only_own_resolved w (hs_job hs1) (hs_job hs')"
    by (rule Call.IH [OF rangeI _ _ Call.prems(3) fresh]) (use one Call.prems(5) st in auto)
  with one only_own_trans show ?case by blast
qed

text \<open>C9. Isolation. Whatever an executor does with its handle, the worker's copy keeps the invariant of the
  iteration, the executed task stays in it, held by the worker and running or resolved, and every
  task the copy held before is left exactly as it was, except that tasks this very worker has running
  may have been resolved; what the execution created is attributed to it.\<close>
theorem execution_isolated:
  assumes "executing p w j" and "inj (\<lambda>n. call_id (ci n))" and "\<And>n. task_at j (call_id (ci n)) = None"
    and "run_program prog x ci \<lparr>h_worker_id = w, h_task_id = p\<rparr> 0 (handle_state_new j) = (hs, r)"
  shows "executing p w (hs_job hs) \<and> only_own_resolved w j (hs_job hs)"
proof -
  have j: "hs_job (handle_state_new j) = j" "is_open (handle_state_new j)" by (simp_all add: handle_state_new_def)
  have "executing p w (hs_job hs) \<and> only_own_resolved w (hs_job (handle_state_new j)) (hs_job hs)"
    by (rule run_step [OF _ j(2) assms(2) _ assms(4)]) (use assms(1,3) j(1) in auto)
  then show ?thesis by (simp add: j)
qed

text \<open>Worker 7 executes task 10, which completes itself through its handle.\<close>

definition sample_calls :: "nat \<Rightarrow> call_input" where
  "sample_calls n = \<lparr>call_now = 1, call_id = n + 100\<rparr>"

definition sample_program :: executor_program where
  "sample_program = Call (CompleteTask 10 []) (\<lambda>_. Finish (ReturnedOutcome OutcomeDeferred))"

lemma sample_calls_fresh: "inj (\<lambda>n. call_id (sample_calls n))" "task_at sample_executing (call_id (sample_calls n)) = None"
  by (simp_all add: sample_calls_def inj_def sample_executing_tasks)

lemma sample_is_executing: "executing 10 7 sample_executing"
  using sample_executing_wf sample_executing_of
  by (simp add: executing_def sample_executing_tasks sample_started_def sample_task_def task_new_def)

theorem execution_isolated_witness:
  "executing 10 7 (hs_job (fst (run_program sample_program std_externs sample_calls
      \<lparr>h_worker_id = 7, h_task_id = 10\<rparr> 0 (handle_state_new sample_executing))))"
proof -
  obtain hs r where "run_program sample_program std_externs sample_calls \<lparr>h_worker_id = 7, h_task_id = 10\<rparr> 0
      (handle_state_new sample_executing) = (hs, r)" by fastforce
  with execution_isolated [OF sample_is_executing sample_calls_fresh(1) sample_calls_fresh(2) this] show ?thesis by simp
qed

end
