(* ===== verification/JM_Shared.thy ===== *)
theory JM_Shared
  imports JM_Storage
begin

text \<open>
  The \<^verbatim>\<open>Storage\<close> trait (\<^verbatim>\<open>storage/mod.rs\<close>) as a record of operations, so that a worker, the cache and
  the cleaner are written once for every storage, and the part of its contract a worker relies on.
  The in-memory storage is put in it together with the other workers that share it: whatever they
  save between two of this worker's calls is part of the state, so a theorem about every such state
  is one about every interleaving.
\<close>

section \<open>The trait\<close>

record 's storage =
  st_get_job :: "job_code \<Rightarrow> ('s, storage_error, job) sresult"
  st_get_job_by_meta :: "job_meta \<Rightarrow> ('s, storage_error, job) sresult"
  st_find_job_meta :: "job_code \<Rightarrow> ('s, storage_error, job_meta) sresult"
  st_get_changed_job :: "job_meta \<Rightarrow> ('s, storage_error, job option) sresult"
  st_save_job :: "job \<Rightarrow> 's \<Rightarrow> 's \<times> job \<times> (storage_error + unit)"
  st_list_job_outdated_iterations :: "job_code \<Rightarrow> u64 \<Rightarrow> ('s, storage_error, u64 list) sresult"
  st_delete_job_iterations :: "job_code \<Rightarrow> u64 list \<Rightarrow> ('s, storage_error, unit) sresult"

text \<open>
  What a worker relies on: a job that is read carries the code it was asked for and a map of tasks, a
  save that is accepted leaves the job in the storage and changes only its version, and a
  save that is refused leaves the caller's copy as it was. \<open>holds s j\<close> says that the storage holds
  the state of \<open>j\<close> under its version, \<open>ok\<close> is what the storage keeps true of itself.
\<close>

locale worker_storage =
  fixes st :: "'s storage" and holds :: "'s \<Rightarrow> job \<Rightarrow> bool" and ok :: "'s \<Rightarrow> bool"
  assumes get_keeps: "ok s \<Longrightarrow> st_get_job st c s = (s', r) \<Longrightarrow> ok s'"
    and save_keeps: "ok s \<Longrightarrow> keys_ok j \<Longrightarrow> st_save_job st j s = (s', j', q) \<Longrightarrow> ok s'"
    and get_sound: "ok s \<Longrightarrow> st_get_job st c s = (s', Inr j) \<Longrightarrow> job_code j = c \<and> keys_ok j"
    and save_ok: "ok s \<Longrightarrow> st_save_job st j s = (s', j', Inr ()) \<Longrightarrow>
      holds s' j' \<and> j' = update_version (version j') j"
    and save_error: "ok s \<Longrightarrow> st_save_job st j s = (s', j', Inl e) \<Longrightarrow> j' = j"

text \<open>What a cache around the storage relies on besides: the answers to its own requests carry the code asked for too.\<close>

locale cacheable_storage = worker_storage st holds ok
  for st :: "'s storage" and holds :: "'s \<Rightarrow> job \<Rightarrow> bool" and ok :: "'s \<Rightarrow> bool" +
  assumes find_keeps: "ok s \<Longrightarrow> st_find_job_meta st c s = (s', fr) \<Longrightarrow> ok s'"
    and find_code: "ok s \<Longrightarrow> st_find_job_meta st c s = (s', Inr m) \<Longrightarrow> jm_code m = c"
    and by_meta_keeps: "ok s \<Longrightarrow> st_get_job_by_meta st m s = (s', r) \<Longrightarrow> ok s'"
    and by_meta_sound: "ok s \<Longrightarrow> st_get_job_by_meta st m s = (s', Inr j) \<Longrightarrow> job_code j = jm_code m \<and> keys_ok j"
    and changed_keeps: "ok s \<Longrightarrow> st_get_changed_job st m s = (s', cr) \<Longrightarrow> ok s'"
    and changed_sound: "ok s \<Longrightarrow> st_get_changed_job st m s = (s', Inr (Some j)) \<Longrightarrow> job_code j = jm_code m \<and> keys_ok j"

section \<open>The in-memory storage, shared with other workers\<close>

text \<open>Before each call of this worker: the jobs other workers try to save, and what its token answers.\<close>

record shared_memory =
  sm_memory :: in_memory
  sm_others :: "(job list \<times> bool) list"

definition save_by_other :: "externs \<Rightarrow> job \<Rightarrow> in_memory \<Rightarrow> in_memory" where
  "save_by_other x j m = fst (mem_save_job x False j m)"

definition let_others_run :: "externs \<Rightarrow> shared_memory \<Rightarrow> shared_memory \<times> bool" where
  "let_others_run x s = (case sm_others s of
      [] \<Rightarrow> (s, False)
    | (js, cancelled) # rest \<Rightarrow>
        (s\<lparr>sm_memory := fold (save_by_other x) js (sm_memory s), sm_others := rest\<rparr>, cancelled))"

definition shared_read :: "externs \<Rightarrow> (bool \<Rightarrow> in_memory \<Rightarrow> storage_error + 'a) \<Rightarrow> (shared_memory, storage_error, 'a) sresult" where
  "shared_read x f s = (case let_others_run x s of (s', cancelled) \<Rightarrow> (s', f cancelled (sm_memory s')))"

definition shared_storage :: "externs \<Rightarrow> shared_memory storage" where
  "shared_storage x =
     \<lparr>st_get_job = (\<lambda>c. shared_read x (\<lambda>cancelled. mem_get_job cancelled c)),
      st_get_job_by_meta = (\<lambda>m. shared_read x (\<lambda>cancelled. mem_get_job_by_meta cancelled m)),
      st_find_job_meta = (\<lambda>c. shared_read x (\<lambda>cancelled. mem_find_job_meta cancelled c)),
      st_get_changed_job = (\<lambda>m. shared_read x (\<lambda>cancelled. mem_get_changed_job cancelled m)),
      st_save_job = (\<lambda>j s. case let_others_run x s of (s', cancelled) \<Rightarrow>
         (case mem_save_job x cancelled j (sm_memory s') of (m, j', r) \<Rightarrow> (s'\<lparr>sm_memory := m\<rparr>, j', r))),
      st_list_job_outdated_iterations =
        (\<lambda>c b. shared_read x (\<lambda>cancelled. mem_list_job_outdated_iterations cancelled c b)),
      st_delete_job_iterations = (\<lambda>c ns s. case let_others_run x s of (s', cancelled) \<Rightarrow>
         (case mem_delete_job_iterations cancelled c ns (sm_memory s') of (m, r) \<Rightarrow> (s'\<lparr>sm_memory := m\<rparr>, r)))\<rparr>"

text \<open>Every job in the memory sits under its own code and came out of a save.\<close>

definition memory_ok :: "in_memory \<Rightarrow> bool" where
  "memory_ok m \<longleftrightarrow> (\<forall>c j. jobs_by_code m c = Some j \<longrightarrow> job_code j = c \<and> keys_ok j)"

lemma fold_update_keys:
  assumes "distinct (map fst m)" and "\<And>i t. map_of m i = Some t \<Longrightarrow> task_id t = i"
  shows "distinct (map fst (fold (\<lambda>t m. AList.update (task_id t) t m) ts m)) \<and>
    (\<forall>i t. map_of (fold (\<lambda>t m. AList.update (task_id t) t m) ts m) i = Some t \<longrightarrow> task_id t = i)"
  using assms
proof (induction ts arbitrary: m)
  case Nil
  then show ?case by simp
next
  case (Cons t ts)
  have a: "distinct (map fst (AList.update (task_id t) t m))" using Cons.prems(1) by simp
  have b: "task_id u = i" if "map_of (AList.update (task_id t) t m) i = Some u" for i u
    using that Cons.prems(2) by (cases "i = task_id t") (auto simp del: map_of_eq_Some_iff)
  show ?case unfolding fold_simps by (rule Cons.IH [OF a b])
qed

lemma copy_keys_ok: "keys_ok (copy_persisted_state x j)"
proof -
  obtain ts where ts: "tasks_by_id (copy_persisted_state x j) = fold (\<lambda>t m. AList.update (task_id t) t m) ts []"
    unfolding copy_persisted_state_def into_job_def restore_def by auto
  show ?thesis unfolding keys_ok_def ts by (rule fold_update_keys) simp_all
qed

lemma mem_save_cases:
  assumes "mem_save_job x cancelled j m = (m', j', r)"
  obtains e where "r = Inl e" "m' = m" "j' = j"
  | "r = Inr ()" "j' = update_version (version j') j"
      "jobs_by_code m' = (jobs_by_code m)(job_code j \<mapsto> copy_persisted_state x j')"
proof (cases r)
  case (Inl e)
  then have "m' = m \<and> j' = j" using assms memory.save_refused [of x cancelled j m m' j' e] by simp
  with Inl that(1) show ?thesis by blast
next
  case (Inr u)
  then have "mem_save_job x cancelled j m = (m', j', Inr ())" using assms by simp
  from mem_save_Inr [OF this] Inr show ?thesis by (intro that(2)) auto
qed

lemma memory_ok_save:
  assumes "memory_ok m" and "mem_save_job x cancelled j m = (m', j', r)"
  shows "memory_ok m'"
  using assms(2)
proof (cases rule: mem_save_cases)
  case 2
  then have "job_code j' = job_code j" by (metis update_version_fields(3))
  with 2 assms(1) show ?thesis by (auto simp: memory_ok_def copy_meta copy_keys_ok)
qed (use assms(1) in simp)

lemma memory_ok_others: "memory_ok m \<Longrightarrow> memory_ok (fold (save_by_other x) js m)"
proof (induction js arbitrary: m)
  case Nil
  then show ?case by simp
next
  case (Cons j js)
  have "memory_ok (save_by_other x j m)"
    unfolding save_by_other_def by (metis Cons.prems memory_ok_save prod.collapse)
  with Cons show ?case by simp
qed

lemma memory_ok_let_others: "memory_ok (sm_memory s) \<Longrightarrow> let_others_run x s = (s', b) \<Longrightarrow> memory_ok (sm_memory s')"
  by (auto simp: let_others_run_def memory_ok_others split: list.splits)

lemma shared_save:
  assumes "st_save_job (shared_storage x) j s = (s', j', r)"
  obtains s1 b m where "let_others_run x s = (s1, b)" "mem_save_job x b j (sm_memory s1) = (m, j', r)"
    "s' = s1\<lparr>sm_memory := m\<rparr>"
  using assms by (auto simp: shared_storage_def split: prod.splits)

definition memory_holds :: "externs \<Rightarrow> shared_memory \<Rightarrow> job \<Rightarrow> bool" where
  "memory_holds x s j \<longleftrightarrow> jobs_by_code (sm_memory s) (job_code j) = Some (copy_persisted_state x j)"

lemma shared_read_ok:
  assumes "memory_ok (sm_memory s)" and "shared_read x f s = (s', r)"
  shows "memory_ok (sm_memory s') \<and> (\<exists>cancelled. r = f cancelled (sm_memory s'))"
  using assms memory_ok_let_others by (auto simp: shared_read_def split: prod.splits)

lemma shared_reads:
  "st_get_job (shared_storage x) c = shared_read x (\<lambda>cancelled. mem_get_job cancelled c)"
  "st_get_job_by_meta (shared_storage x) m = shared_read x (\<lambda>cancelled. mem_get_job_by_meta cancelled m)"
  "st_find_job_meta (shared_storage x) c = shared_read x (\<lambda>cancelled. mem_find_job_meta cancelled c)"
  "st_get_changed_job (shared_storage x) m = shared_read x (\<lambda>cancelled. mem_get_changed_job cancelled m)"
  by (simp_all add: shared_storage_def)

interpretation shared: cacheable_storage "shared_storage x" "memory_holds x" "\<lambda>s. memory_ok (sm_memory s)"
proof unfold_locales
  show "memory_ok (sm_memory s')" if "memory_ok (sm_memory s)" "st_get_job (shared_storage x) c s = (s', r)" for s c s' r
    using shared_read_ok [OF that(1)] that(2) unfolding shared_reads by blast
  show "memory_ok (sm_memory s')" if "memory_ok (sm_memory s)" "st_find_job_meta (shared_storage x) c s = (s', r)" for s c s' r
    using shared_read_ok [OF that(1)] that(2) unfolding shared_reads by blast
  show "memory_ok (sm_memory s')" if "memory_ok (sm_memory s)" "st_get_job_by_meta (shared_storage x) m s = (s', r)" for s m s' r
    using shared_read_ok [OF that(1)] that(2) unfolding shared_reads by blast
  show "memory_ok (sm_memory s')" if "memory_ok (sm_memory s)" "st_get_changed_job (shared_storage x) m s = (s', r)" for s m s' r
    using shared_read_ok [OF that(1)] that(2) unfolding shared_reads by blast
  show "jm_code m = c" if "memory_ok (sm_memory s)" "st_find_job_meta (shared_storage x) c s = (s', Inr m)" for s c s' m
    using shared_read_ok [OF that(1)] that(2) unfolding shared_reads
    by (fastforce simp: mem_find_job_meta_def memory_ok_def split: if_splits option.splits)
  show "job_code j = jm_code m \<and> keys_ok j"
    if "memory_ok (sm_memory s)" "st_get_job_by_meta (shared_storage x) m s = (s', Inr j)" for s m s' j
    using shared_read_ok [OF that(1)] that(2) unfolding shared_reads
    by (fastforce simp: mem_get_job_by_meta_def memory_ok_def split: if_splits option.splits)
  show "job_code j = jm_code m \<and> keys_ok j"
    if "memory_ok (sm_memory s)" "st_get_changed_job (shared_storage x) m s = (s', Inr (Some j))" for s m s' j
    using shared_read_ok [OF that(1)] that(2) unfolding shared_reads
    by (fastforce simp: mem_get_changed_job_def memory_ok_def split: if_splits option.splits)
  show "memory_ok (sm_memory s')" if "memory_ok (sm_memory s)" "st_save_job (shared_storage x) j s = (s', j', q)" for s j s' j' q
    using that memory_ok_let_others memory_ok_save by (auto simp: shared_storage_def split: prod.splits) blast
  show "job_code j = c \<and> keys_ok j"
    if "memory_ok (sm_memory s)" "st_get_job (shared_storage x) c s = (s', Inr j)" for s c s' j
    using shared_read_ok [OF that(1)] that(2) unfolding shared_reads
    by (fastforce simp: mem_get_job_def memory_ok_def split: if_splits option.splits)
  show "memory_holds x s' j' \<and> j' = update_version (version j') j"
    if "st_save_job (shared_storage x) j s = (s', j', Inr ())" for s j s' j'
  proof -
    from shared_save [OF that] obtain s1 b m where m: "mem_save_job x b j (sm_memory s1) = (m, j', Inr ())"
      "s' = s1\<lparr>sm_memory := m\<rparr>" by metis
    from m(1) show ?thesis
      by (cases rule: mem_save_cases) (use m(2) in \<open>auto simp: memory_holds_def, metis update_version_fields(3)\<close>)
  qed
  show "j' = j" if "st_save_job (shared_storage x) j s = (s', j', Inl e)" for s j s' j' e
  proof -
    from shared_save [OF that] obtain s1 b m where
      m: "mem_save_job x b j (sm_memory s1) = (m, j', Inl e)" "s' = s1\<lparr>sm_memory := m\<rparr>" by metis
    from m(1) show ?thesis by (cases rule: mem_save_cases) auto
  qed
qed

end
