(* ===== verification/JM_Metrics.thy ===== *)
theory JM_Metrics
  imports JM_Job
begin

text \<open>
  The measurements of the crate: the calls of \<^verbatim>\<open>infra/metrics.rs\<close>'s \<^verbatim>\<open>MetricsSink\<close> as values, a sink as what
  it does with one, and the sink of \<^verbatim>\<open>infra/metrics_otel.rs\<close>, which names an instrument and its
  attributes for each. A sink is given the measurements in the order they are made.
\<close>

section \<open>What is measured\<close>

datatype measurement =
    JobIterationComplete job_code iteration_verdict duration
  | TaskProcessed job_code string task_resolution duration
  | StorageOperation string string duration
  | CacheHit string
  | CacheMiss string
  | TaskStolen job_code string string
  | SaveConflictRetry job_code string

type_synonym 'm metrics_sink = "measurement \<Rightarrow> 'm \<Rightarrow> 'm"

definition NoopMetrics :: "'m metrics_sink" where
  "NoopMetrics = (\<lambda>_ m. m)"

text \<open>The span of two moments as a duration, and none where the clock went back between them.\<close>

definition span_between :: "externs \<Rightarrow> time \<Rightarrow> time \<Rightarrow> duration" where
  "span_between x began ended = (case to_std x (ended - began) of Some d \<Rightarrow> d | None \<Rightarrow> 0)"

section \<open>The sink of OpenTelemetry\<close>

datatype instrument_kind = Histogram | Counter

record instrument =
  in_kind :: instrument_kind
  in_name :: string
  in_description :: string
  in_unit :: string

record OtelMetrics =
  job_duration :: instrument
  task_duration :: instrument
  storage_latency :: instrument
  cache_hits :: instrument
  cache_misses :: instrument
  task_stolen :: instrument
  save_conflict_retries :: instrument

definition OtelMetrics_new :: OtelMetrics where
  "OtelMetrics_new =
     \<lparr>job_duration = \<lparr>in_kind = Histogram, in_name = ''jobmanager_job_duration'',
        in_description = ''Duration of job execution from start to finish'', in_unit = ''s''\<rparr>,
      task_duration = \<lparr>in_kind = Histogram, in_name = ''jobmanager_task_duration'',
        in_description = ''Duration of individual task execution'', in_unit = ''s''\<rparr>,
      storage_latency = \<lparr>in_kind = Histogram, in_name = ''jobmanager_storage_latency'',
        in_description = ''Latency of storage read and write operations'', in_unit = ''s''\<rparr>,
      cache_hits = \<lparr>in_kind = Counter, in_name = ''jobmanager_storage_cache_hits'',
        in_description = ''Total number of cache hits'', in_unit = ''1''\<rparr>,
      cache_misses = \<lparr>in_kind = Counter, in_name = ''jobmanager_storage_cache_misses'',
        in_description = ''Total number of cache misses'', in_unit = ''1''\<rparr>,
      task_stolen = \<lparr>in_kind = Counter, in_name = ''jobmanager_task_stolen'',
        in_description = ''Total number of task steal events due to worker mismatch'', in_unit = ''1''\<rparr>,
      save_conflict_retries = \<lparr>in_kind = Counter, in_name = ''jobmanager_save_conflict_retry'',
        in_description = ''Total number of save retries caused by optimistic concurrency conflicts'', in_unit = ''1''\<rparr>\<rparr>"

text \<open>A point of an instrument: a value it records, or what it adds, under attributes. The instruments themselves are the SDK's.\<close>

type_synonym attributes = "(string \<times> string) list"

datatype point = Recorded instrument duration attributes | Added instrument nat attributes

fun OtelMetrics_record :: "OtelMetrics \<Rightarrow> measurement \<Rightarrow> point" where
  "OtelMetrics_record om (JobIterationComplete code verdict d) =
     Recorded (job_duration om) d [(''code'', code), (''status'', iteration_verdict_as_str verdict)]"
| "OtelMetrics_record om (TaskProcessed jc tc r d) =
     Recorded (task_duration om) d [(''job_code'', jc), (''task_code'', tc), (''status'', task_resolution_as_str r)]"
| "OtelMetrics_record om (StorageOperation operation status d) =
     Recorded (storage_latency om) d [(''operation'', operation), (''http_status'', status)]"
| "OtelMetrics_record om (CacheHit method) = Added (cache_hits om) 1 [(''method'', method)]"
| "OtelMetrics_record om (CacheMiss method) = Added (cache_misses om) 1 [(''method'', method)]"
| "OtelMetrics_record om (TaskStolen jc tc phase) =
     Added (task_stolen om) 1 [(''job_code'', jc), (''task_code'', tc), (''phase'', phase)]"
| "OtelMetrics_record om (SaveConflictRetry jc phase) =
     Added (save_conflict_retries om) 1 [(''job_code'', jc), (''phase'', phase)]"

definition otel_sink :: "OtelMetrics \<Rightarrow> point list metrics_sink" where
  "otel_sink om m points = points @ [OtelMetrics_record om m]"

definition measure_all :: "'m metrics_sink \<Rightarrow> measurement list \<Rightarrow> 'm \<Rightarrow> 'm" where
  "measure_all sink ms s = fold sink ms s"

lemma verdict_str_inject: "iteration_verdict_as_str v = iteration_verdict_as_str u \<longleftrightarrow> v = u"
  by (cases v; cases u) simp_all

lemma resolution_str_inject: "task_resolution_as_str r = task_resolution_as_str q \<longleftrightarrow> r = q"
  by (cases r; cases q) simp_all

text \<open>No two measurements leave the same point, so what is scraped tells them apart.\<close>

lemma otel_record_inject: "OtelMetrics_record OtelMetrics_new m = OtelMetrics_record OtelMetrics_new n \<longleftrightarrow> m = n"
  by (cases m; cases n) (auto simp: OtelMetrics_new_def verdict_str_inject resolution_str_inject)

lemma otel_measures: "measure_all (otel_sink om) ms ps = ps @ map (OtelMetrics_record om) ms"
  unfolding measure_all_def by (induction ms arbitrary: ps) (simp_all add: otel_sink_def)

lemma noop_measures: "measure_all NoopMetrics ms s = s"
  unfolding measure_all_def by (induction ms arbitrary: s) (simp_all add: NoopMetrics_def)

end
