(* ===== verification/JM_Worker.thy ===== *)
theory JM_Worker
  imports JM_Shared JM_Handle JM_Registry JM_Retrier JM_Outcome JM_Metrics
begin

text \<open>
  \<^verbatim>\<open>execution/worker.rs\<close>: one worker starts at most one task of a job it is handed, executes it and saves
  the result. A worker reaches the storage through the record of \<^verbatim>\<open>JM_Shared\<close>; the rest of what it
  writes to, the reports of finished and of started iterations and the measurements, is its world. The readings of the
  clock, the minted identifiers and the races against the cancellation token are inputs, one of each
  per step of the world's counter. Logging is left out.
\<close>

section \<open>State and inputs\<close>

datatype save_outcome = Saved | JobStolen | SavedTaskStolen

datatype merge_decision = MergeRetry job | MergeDone job save_outcome

datatype executor_result = ExecutorReturned executor_return | ReleasedByDeadline

datatype iteration_advance = AdvanceOpen job | AdvanceClosed next_iteration_status | AdvanceStalled

record 's world =
  w_store :: 's
  w_finished :: "(job_code \<times> u64) list"
  w_channel :: "(job_code \<times> u64) list"
  w_measured :: "measurement list"
  w_ticks :: nat

record 's worker =
  wk_id :: uuid
  wk_registry :: job_registry
  wk_storage :: "'s storage"
  wk_retrier :: retrier_config
  wk_notifier :: "nat option"

text \<open>What every worker is given alike; the sinks of the reports and of the measurements are the world's lists.\<close>

record 's worker_context =
  wc_registry :: job_registry
  wc_storage :: "'s storage"
  wc_notifier :: "nat option"

definition worker_new :: "uuid \<Rightarrow> retrier_config \<Rightarrow> 's worker_context \<Rightarrow> 's worker" where
  "worker_new i cfg context =
     \<lparr>wk_id = i, wk_registry = wc_registry context, wk_storage = wc_storage context, wk_retrier = cfg,
      wk_notifier = wc_notifier context\<rparr>"

fun panic_payload_to_string :: "panic_payload \<Rightarrow> string" where
  "panic_payload_to_string (PanicStr message) = message"
| "panic_payload_to_string (PanicString message) = message"
| "panic_payload_to_string PanicOther = ''unknown panic''"

record 's inputs =
  in_externs :: externs
  in_clock :: "nat \<Rightarrow> clock"
  in_mint :: "nat \<Rightarrow> nat \<Rightarrow> uuid"
  in_race :: "nat \<Rightarrow> ('s world \<times> job option) cancellation"

type_synonym ('s, 'a) worker_op = "('s world, internal_error, 'a) sresult"

definition tick :: "'s world \<Rightarrow> 's world" where
  "tick w = w\<lparr>w_ticks := Suc (w_ticks w)\<rparr>"

definition measure :: "measurement \<Rightarrow> 's world \<Rightarrow> 's world" where
  "measure m w = w\<lparr>w_measured := w_measured w @ [m]\<rparr>"

definition now_of :: "'s inputs \<Rightarrow> 's world \<Rightarrow> time" where
  "now_of inp w = read (in_clock inp (w_ticks w)) 0"

section \<open>Saving a job, merging on a conflict\<close>

text \<open>One attempt of \<^verbatim>\<open>save_job_state\<close>: the job is taken out of its cell for the attempt and put back by it.\<close>

definition save_attempt ::
  "'s worker \<Rightarrow> job_code \<Rightarrow> (job \<Rightarrow> job \<Rightarrow> ('s, merge_decision) worker_op) \<Rightarrow>
   ('s world \<times> job option, internal_error, (save_outcome, internal_error) retry_step) sresult" where
  "save_attempt W code handler = (\<lambda>(w, held). case held of
      None \<Rightarrow> ((w, None), Inl (InternalOther ''job state missing''))
    | Some current \<Rightarrow> (case st_save_job (wk_storage W) current (w_store w) of
        (s, current', Inr _) \<Rightarrow> ((w\<lparr>w_store := s\<rparr>, Some current'), Inr (Done Saved))
      | (s, current', Inl e) \<Rightarrow>
          if is_conflict e then
            (case st_get_job (wk_storage W) code s of
               (s', Inl e') \<Rightarrow> ((w\<lparr>w_store := s'\<rparr>, None), Inl (internal_of_storage e'))
             | (s', Inr saved_job) \<Rightarrow> (case handler current' saved_job (w\<lparr>w_store := s'\<rparr>) of
                 (w', Inl e') \<Rightarrow> ((w', None), Inl e')
               | (w', Inr (MergeRetry j)) \<Rightarrow> ((w', Some j), Inr (Retry (internal_of_storage e)))
               | (w', Inr (MergeDone j outcome)) \<Rightarrow> ((w', Some j), Inr (Done outcome))))
          else ((w\<lparr>w_store := s\<rparr>, None), Inl (internal_of_storage e))))"

definition save_job_state ::
  "'s worker \<Rightarrow> 's inputs \<Rightarrow> (job \<Rightarrow> job \<Rightarrow> ('s, merge_decision) worker_op) \<Rightarrow> job \<Rightarrow> ('s, job \<times> save_outcome) worker_op" where
  "save_job_state W inp handler j w =
     (case retry internal_retry_error (wk_retrier W) (in_race inp (w_ticks w))
             (save_attempt W (job_code j) handler) (tick w, Some j) of
        ((w', held), Inl e) \<Rightarrow> (w', Inl e)
      | ((w', None), Inr outcome) \<Rightarrow> (w', Inl (InternalOther ''job state missing''))
      | ((w', Some updated), Inr outcome) \<Rightarrow> (w', Inr (updated, outcome)))"

text \<open>The handlers of a conflict.\<close>

definition stolen_handler :: "job \<Rightarrow> job \<Rightarrow> ('s, merge_decision) worker_op" where
  "stolen_handler current saved_job w = (w, Inr (MergeDone saved_job JobStolen))"

definition picked_handler ::
  "'s worker \<Rightarrow> 's inputs \<Rightarrow> uuid \<Rightarrow> job_code \<Rightarrow> string \<Rightarrow> job \<Rightarrow> job \<Rightarrow> ('s, merge_decision) worker_op" where
  "picked_handler W inp i jc tc current saved_job w =
     (case merge_with_picked_task (in_externs inp) (in_clock inp (w_ticks w)) current (wk_id W) i saved_job of
        (j, Inr _) \<Rightarrow> (measure (SaveConflictRetry jc ''pick_start_conflict'') (tick w), Inr (MergeRetry j))
      | (j, Inl TaskWorkerMismatch) \<Rightarrow>
          (measure (TaskStolen jc tc ''pick_start_conflict'') (tick w), Inr (MergeDone j SavedTaskStolen))
      | (j, Inl e) \<Rightarrow> (tick w, Inl (internal_of_job e)))"

definition processed_handler ::
  "'s worker \<Rightarrow> 's inputs \<Rightarrow> uuid \<Rightarrow> job_code \<Rightarrow> string \<Rightarrow> string \<Rightarrow> job \<Rightarrow> job \<Rightarrow> ('s, merge_decision) worker_op" where
  "processed_handler W inp i jc tc save_reason current saved_job w =
     (case merge_with_processed_task (in_externs inp) (in_clock inp (w_ticks w)) current (wk_id W) i saved_job of
        (j, Inr _) \<Rightarrow> (measure (SaveConflictRetry jc save_reason) (tick w), Inr (MergeRetry j))
      | (j, Inl (IterationDeadlock code tasks)) \<Rightarrow> (measure (SaveConflictRetry jc save_reason) (tick w), Inr (MergeRetry j))
      | (j, Inl (IterationAlreadySettled code)) \<Rightarrow>
          (measure (TaskStolen jc tc ''settled_iteration'') (tick w), Inr (MergeDone j JobStolen))
      | (j, Inl TaskWorkerMismatch) \<Rightarrow> (measure (TaskStolen jc tc save_reason) (tick w), Inr (MergeDone j SavedTaskStolen))
      | (j, Inl e) \<Rightarrow> (tick w, Inl (internal_of_job e)))"

section \<open>Reports\<close>

definition report_finished_iteration :: "job \<Rightarrow> 's world \<Rightarrow> 's world" where
  "report_finished_iteration j w = w\<lparr>w_finished := w_finished w @ [(job_code j, iter_num j)]\<rparr>"

definition report_started_iteration :: "'s worker \<Rightarrow> job \<Rightarrow> 's world \<Rightarrow> 's world" where
  "report_started_iteration W j w = (case wk_notifier W of
      None \<Rightarrow> w
    | Some capacity \<Rightarrow>
        if length (w_channel w) < capacity then w\<lparr>w_channel := w_channel w @ [(job_code j, iter_num j)]\<rparr> else w)"

definition record_job_iteration :: "externs \<Rightarrow> job \<Rightarrow> iteration_verdict \<Rightarrow> 's world \<Rightarrow> 's world" where
  "record_job_iteration x j verdict =
     measure (JobIterationComplete (job_code j) verdict
       (case completed_at j of None \<Rightarrow> 0 | Some completed \<Rightarrow> span_between x (started_at j) completed))"

definition job_iteration_settled :: "externs \<Rightarrow> job \<Rightarrow> 's world \<Rightarrow> 's world" where
  "job_iteration_settled x j w = (case iteration_verdict j of
      None \<Rightarrow> w
    | Some verdict \<Rightarrow> report_finished_iteration j (record_job_iteration x j verdict w))"

section \<open>Starting a task\<close>

definition create_new_job :: "'s worker \<Rightarrow> 's inputs \<Rightarrow> job_code \<Rightarrow> ('s, job) worker_op" where
  "create_new_job W inp code w = (case get_job code (wk_registry W) of
      Inl e \<Rightarrow> (w, Inl (internal_of_error e))
    | Inr jd \<Rightarrow>
        (case job_new (in_externs inp) (now_of inp w) (in_mint inp (w_ticks w) 0)
                (\<lambda>k. in_mint inp (w_ticks w) (Suc k)) jd [] (wk_id W) of
           Inl e \<Rightarrow> (tick w, Inl (internal_of_job e))
         | Inr j \<Rightarrow> bindS (save_job_state W inp stolen_handler j) (\<lambda>(j', outcome). returnS j') (tick w)))"

definition start_new_job_iteration :: "'s worker \<Rightarrow> 's inputs \<Rightarrow> job \<Rightarrow> ('s, job) worker_op" where
  "start_new_job_iteration W inp j w = (case get_job (job_code j) (wk_registry W) of
      Inl e \<Rightarrow> (w, Inl (internal_of_error e))
    | Inr jd \<Rightarrow>
        (case next_iteration (in_externs inp) (in_clock inp (w_ticks w)) (in_mint inp (w_ticks w) 0)
                (\<lambda>k. in_mint inp (w_ticks w) (Suc k)) jd (wk_id W) j of
           (j1, Inl e) \<Rightarrow> (tick w, Inl (internal_of_job e))
         | (j1, Inr _) \<Rightarrow>
             bindS (save_job_state W inp stolen_handler j1)
               (\<lambda>(j2, outcome) w'. (if outcome = Saved then report_started_iteration W j2 w' else w', Inr j2)) (tick w)))"

definition advance_job_iteration :: "'s worker \<Rightarrow> 's inputs \<Rightarrow> job \<Rightarrow> 's world \<Rightarrow> 's world \<times> iteration_advance" where
  "advance_job_iteration W inp j w0 =
     (let w = (if is_processed j then report_finished_iteration j w0 else w0) in
      case find_iteration_status (in_externs inp) (now_of inp w) j of
        InProgress \<Rightarrow> (tick w, if is_ready_for_processing j then AdvanceOpen j else AdvanceStalled)
      | Closed Ready \<Rightarrow> (case start_new_job_iteration W inp j (tick w) of
            (w', Inl e) \<Rightarrow> (w', AdvanceStalled)
          | (w', Inr j') \<Rightarrow> (w', if is_ready_for_processing j' then AdvanceOpen j' else AdvanceStalled))
      | Closed status \<Rightarrow> (tick w, AdvanceClosed status))"

definition save_settled_job_iteration :: "'s worker \<Rightarrow> 's inputs \<Rightarrow> job \<Rightarrow> ('s, task_start) worker_op" where
  "save_settled_job_iteration W inp j =
     bindS (save_job_state W inp stolen_handler j) (\<lambda>(j', outcome) w.
       if outcome \<noteq> Saved then (w, Inr TsLostToAnotherWorker)
       else let w' = job_iteration_settled (in_externs inp) j' w in
         case find_iteration_status (in_externs inp) (now_of inp w') j' of
           InProgress \<Rightarrow> (tick w', Inl (InternalOther ''job iteration is open after the write that settled it''))
         | Closed status \<Rightarrow> (tick w', Inr (TsIterationClosed status)))"

definition start_picked_task :: "'s worker \<Rightarrow> 's inputs \<Rightarrow> job \<Rightarrow> uuid \<Rightarrow> ('s, task_start) worker_op" where
  "start_picked_task W inp j i w = (case get_task_arc i j of
      Inl e \<Rightarrow> (w, Inl (internal_of_job e))
    | Inr t \<Rightarrow>
        (case start_task (in_externs inp) (now_of inp w) i (wk_id W) j of
           (j1, Inl TaskWorkerMismatch) \<Rightarrow>
             (measure (TaskStolen (job_code j) (task_code t) ''pick_start_local'') (tick w), Inr TsLostToAnotherWorker)
         | (j1, Inl e) \<Rightarrow> (tick w, Inl (internal_of_job e))
         | (j1, Inr _) \<Rightarrow>
             bindS (save_job_state W inp (picked_handler W inp i (job_code j) (task_code t)) j1) (\<lambda>(j2, outcome) w'.
               if outcome = SavedTaskStolen then (w', Inr TsLostToAnotherWorker)
               else (tick w', Inr (TsStarted \<lparr>started_job = j2, started_task_id = i\<rparr>
                       (has_pickable_task (in_externs inp) (now_of inp w') j2)))) (tick w)))"

definition start_task_in_iteration :: "'s worker \<Rightarrow> 's inputs \<Rightarrow> job \<Rightarrow> ('s, task_start) worker_op" where
  "start_task_in_iteration W inp j w =
     (case pick_task_to_execute (in_externs inp) (in_clock inp (w_ticks w)) (wk_id W) j of
        (j1, Inl e) \<Rightarrow> (tick w, Inl (internal_of_job e))
      | (j1, Inr (PickWaiting retry_at)) \<Rightarrow> (tick w, Inr (TsNoTaskAvailable retry_at))
      | (j1, Inr IterationSettled) \<Rightarrow> save_settled_job_iteration W inp j1 (tick w)
      | (j1, Inr (PickReady i)) \<Rightarrow> start_picked_task W inp j1 i (tick w))"

definition start_in_job :: "'s worker \<Rightarrow> 's inputs \<Rightarrow> job \<Rightarrow> 's world \<Rightarrow> 's world \<times> task_start" where
  "start_in_job W inp j w = (case advance_job_iteration W inp j w of
      (w', AdvanceClosed status) \<Rightarrow> (w', TsIterationClosed status)
    | (w', AdvanceStalled) \<Rightarrow> (w', TsStalled)
    | (w', AdvanceOpen j') \<Rightarrow> (case start_task_in_iteration W inp j' w' of
          (w'', Inl e) \<Rightarrow> (w'', TsStalled)
        | (w'', Inr ts) \<Rightarrow> (w'', ts)))"

definition worker_start_task :: "'s worker \<Rightarrow> 's inputs \<Rightarrow> job_code \<Rightarrow> 's world \<Rightarrow> 's world \<times> task_start" where
  "worker_start_task W inp code w = (case st_get_job (wk_storage W) code (w_store w) of
      (s, Inr j) \<Rightarrow> start_in_job W inp j (w\<lparr>w_store := s\<rparr>)
    | (s, Inl (NotFound msg)) \<Rightarrow> (case create_new_job W inp code (w\<lparr>w_store := s\<rparr>) of
          (w', Inr j) \<Rightarrow> start_in_job W inp j w'
        | (w', Inl e) \<Rightarrow> (w', TsStalled))
    | (s, Inl e) \<Rightarrow> (w\<lparr>w_store := s\<rparr>, TsStalled))"

section \<open>Executing a task\<close>

text \<open>
  \<open>xi_program\<close> is what an executor does for a task, \<open>xi_calls\<close> the inputs of its calls, \<open>xi_shutdown\<close>
  whether the pool's token is cancelled once it returned, and \<open>xi_deadline_first d\<close> whether it was
  still running when the \<open>d\<close> left until the deadline were over.
\<close>

record execution_inputs =
  xi_program :: "executor \<Rightarrow> task \<Rightarrow> executor_program"
  xi_calls :: "nat \<Rightarrow> call_input"
  xi_shutdown :: bool
  xi_deadline_first :: "duration \<Rightarrow> bool"

definition deadline_reached :: "'s inputs \<Rightarrow> execution_inputs \<Rightarrow> task \<Rightarrow> 's world \<Rightarrow> bool" where
  "deadline_reached inp ex t w = (case deadline_at t of
      None \<Rightarrow> False
    | Some d \<Rightarrow> xi_deadline_first ex
        (case to_std (in_externs inp) (d - now_of inp w) of Some left \<Rightarrow> left | None \<Rightarrow> 0))"

definition run_task_executor ::
  "'s worker \<Rightarrow> 's inputs \<Rightarrow> execution_inputs \<Rightarrow> job \<Rightarrow> uuid \<Rightarrow> ('s, job \<times> executor_result) worker_op" where
  "run_task_executor W inp ex j i w = (case get_task_arc i j of
      Inl e \<Rightarrow> (w, Inl (internal_of_job e))
    | Inr t \<Rightarrow> (case get_task_executor (job_code j) (task_code t) (wk_registry W) of
        Inl e \<Rightarrow> (w, Inl (internal_of_error e))
      | Inr executor \<Rightarrow>
          (case run_program (xi_program ex executor t) (in_externs inp) (xi_calls ex)
                  \<lparr>h_worker_id = wk_id W, h_task_id = i\<rparr> 0 (handle_state_new j) of
             (hs, returned) \<Rightarrow>
               (tick w,
                if xi_shutdown ex then Inl InternalCancelled
                else Inr (hs_job (close_handle hs),
                  if returned = ReturnedOutcome OutcomeCancelled \<and> deadline_reached inp ex t w
                  then ReleasedByDeadline else ExecutorReturned returned)))))"

definition find_task_resolution :: "job \<Rightarrow> uuid \<Rightarrow> internal_error + task_resolution" where
  "find_task_resolution j i = (case find_task i j of
      Inl e \<Rightarrow> Inl (internal_of_job e)
    | Inr t \<Rightarrow> (case resolution t of
        Some r \<Rightarrow> Inr r | None \<Rightarrow> Inl (InternalOther ''task is left unresolved'')))"

definition check_task_resolution :: "job \<Rightarrow> uuid \<Rightarrow> internal_error + unit" where
  "check_task_resolution j i = (case find_task i j of
      Inl e \<Rightarrow> Inl (internal_of_job e)
    | Inr t \<Rightarrow> if is_resolved t then Inr ()
        else Inl (InternalOther ''executor returned Deferred without resolving task''))"

fun record_outcome ::
  "time \<Rightarrow> uuid \<Rightarrow> uuid \<Rightarrow> executor_return \<Rightarrow> (job, internal_error, task_resolution) sresult" where
  "record_outcome now worker i (ReturnedOutcome (OutcomeCompleted out)) j =
     (case complete_task now i out worker j of
        (j', r) \<Rightarrow> (j', map_err internal_of_job (bindR r (\<lambda>_. Inr ResolvedCompleted))))"
| "record_outcome now worker i (ReturnedOutcome (OutcomeTerminallyFailed reason)) j =
     (case fail_task now i reason Never worker j of
        (j', r) \<Rightarrow> (j', map_err internal_of_job (bindR r (\<lambda>_. Inr ResolvedFailed))))"
| "record_outcome now worker i (ReturnedOutcome (OutcomeSkippedBranch reason)) j =
     (case skip_task_by_executor now i reason worker j of
        (j', r) \<Rightarrow> (j', map_err internal_of_job (bindR r (\<lambda>_. Inr ResolvedSkipped))))"
| "record_outcome now worker i (ReturnedOutcome OutcomeDeferred) j =
     (j, bindR (check_task_resolution j i) (\<lambda>_. find_task_resolution j i))"
| "record_outcome now worker i (ReturnedOutcome OutcomeCancelled) j =
     (j, Inl (InternalOther ''executor returned Cancelled without a cancellation of its execution: return the outcome of the work, or select on the token and return Cancelled once it fires''))"
| "record_outcome now worker i (ReturnedError msg) j = (j, Inl (InternalOther msg))"
| "record_outcome now worker i (Panicked payload) j =
     (j, Inl (InternalOther (''executor panicked: '' @ panic_payload_to_string payload)))"

text \<open>\<open>later_now\<close> is the reading of the clock made where a failure is recorded.\<close>

definition apply_executor_outcome ::
  "time \<Rightarrow> time \<Rightarrow> uuid \<Rightarrow> uuid \<Rightarrow> executor_return \<Rightarrow> (job, internal_error, task_resolution) sresult" where
  "apply_executor_outcome now later_now worker i returned j =
     (case record_outcome now worker i returned j of
        (j1, Inr r) \<Rightarrow> (case get_task_arc i j1 of Inl e \<Rightarrow> (j1, Inl (internal_of_job e)) | Inr t \<Rightarrow> (j1, Inr r))
      | (j1, Inl e) \<Rightarrow>
          (case record_task_execution_failure later_now i (internal_error_display e) WhileBudgetLasts worker j1 of
             (j2, Inl e') \<Rightarrow> (j2, Inl (internal_of_job e'))
           | (j2, Inr dropped) \<Rightarrow> (j2, find_task_resolution j2 i)))"

definition record_task_processed :: "externs \<Rightarrow> uuid \<Rightarrow> job \<Rightarrow> 's world \<Rightarrow> 's world" where
  "record_task_processed x i j w = (case find_task i j of
      Inl e \<Rightarrow> w
    | Inr t \<Rightarrow> (case resolution t of
        None \<Rightarrow> w
      | Some r \<Rightarrow> measure (TaskProcessed (job_code j) (task_code t) r
          (case (task_completed_at t, task_started_at t) of
             (Some completed, Some started) \<Rightarrow> span_between x started completed
           | _ \<Rightarrow> 0)) w))"

definition save_processed_task ::
  "'s worker \<Rightarrow> 's inputs \<Rightarrow> uuid \<Rightarrow> (job \<Rightarrow> job \<Rightarrow> ('s, merge_decision) worker_op) \<Rightarrow> job \<Rightarrow>
   ('s, job \<times> save_outcome) worker_op" where
  "save_processed_task W inp i handler j =
     bindS (save_job_state W inp handler j) (\<lambda>(j', outcome) w.
       (if outcome = SavedTaskStolen \<or> outcome = JobStolen then w else record_task_processed (in_externs inp) i j' w,
        Inr (j', outcome)))"

definition save_reason_of :: "task_resolution \<Rightarrow> string" where
  "save_reason_of r = (case r of
      ResolvedCompleted \<Rightarrow> ''save_completed_task'' | ResolvedFailed \<Rightarrow> ''save_failed_task'' | ResolvedSkipped \<Rightarrow> ''save_skipped_task'')"

definition save_task :: "'s worker \<Rightarrow> 's inputs \<Rightarrow> uuid \<Rightarrow> task_resolution \<Rightarrow> job \<Rightarrow> ('s, execution_end) worker_op" where
  "save_task W inp i r j w = (case find_task i j of
      Inl e \<Rightarrow> (w, Inl (internal_of_job e))
    | Inr t \<Rightarrow>
        bindS (save_processed_task W inp i (processed_handler W inp i (job_code j) (task_code t) (save_reason_of r))
            (fst (try_settle_iteration (in_externs inp) (in_clock inp (w_ticks w)) (wk_id W) j)))
          (\<lambda>(j', outcome) w'.
             let w1 = (if outcome = Saved then job_iteration_settled (in_externs inp) j' w' else w');
                 left = EeTaskEnded (has_pickable_task (in_externs inp) (now_of inp w1) j')
             in (tick w1, Inr (case find_iteration_status (in_externs inp) (now_of inp w1) j' of
                   Closed status \<Rightarrow> if outcome = Saved then EeIterationClosed status else left
                 | InProgress \<Rightarrow> left))) (tick w))"

definition execute_started_task ::
  "'s worker \<Rightarrow> 's inputs \<Rightarrow> execution_inputs \<Rightarrow> started_task \<Rightarrow> ('s, execution_end) worker_op" where
  "execute_started_task W inp ex st =
     bindS (run_task_executor W inp ex (started_job st) (started_task_id st)) (\<lambda>(j, result) w.
       case result of
         ReleasedByDeadline \<Rightarrow> (tick w, Inr (EeTaskEnded (has_pickable_task (in_externs inp) (now_of inp w) j)))
       | ExecutorReturned returned \<Rightarrow>
           (case apply_executor_outcome (now_of inp w) (read (in_clock inp (w_ticks w)) 1) (wk_id W)
                   (started_task_id st) returned j of
              (j', Inl e) \<Rightarrow> (tick w, Inl e)
            | (j', Inr r) \<Rightarrow> save_task W inp (started_task_id st) r j' (tick w)))"

definition execute_task ::
  "'s worker \<Rightarrow> 's inputs \<Rightarrow> execution_inputs \<Rightarrow> started_task \<Rightarrow> 's world \<Rightarrow> 's world \<times> execution_end option" where
  "execute_task W inp ex st w = (case execute_started_task W inp ex st w of
      (w', Inr ended) \<Rightarrow> (w', Some ended)
    | (w', Inl e) \<Rightarrow> (w', None))"

end
