(* ===== verification/JM_Worker_Props.thy ===== *)
theory JM_Worker_Props
  imports JM_Worker
begin

text \<open>
  What a worker (\<^verbatim>\<open>execution/worker.rs\<close>) guarantees over every storage that keeps its contract, and
  whatever other workers do in between: a start it reports was written, a result it saved is what
  the storage holds, however many conflicts it merged through, and every execution that returns
  leaves its task resolved.
\<close>

section \<open>A save that went through\<close>

definition quiet :: "(job \<Rightarrow> job \<Rightarrow> ('s, merge_decision) worker_op) \<Rightarrow> bool" where
  "quiet handler \<longleftrightarrow>
     (\<forall>current saved_job w. w_store (fst (handler current saved_job w)) = w_store w) \<and>
     (\<forall>current saved_job w w' j. handler current saved_job w \<noteq> (w', Inr (MergeDone j Saved)))"

lemma quiet_store: "quiet handler \<Longrightarrow> handler current saved_job w = (w', r) \<Longrightarrow> w_store w' = w_store w"
  unfolding quiet_def by (metis fst_conv)

lemma quiet_stolen: "quiet stolen_handler"
  by (simp add: quiet_def stolen_handler_def)

lemma world_fields [simp]:
  "w_store (measure m w) = w_store w" "w_store (tick w) = w_store w" "w_ticks (measure m w) = w_ticks w"
  "w_measured (measure m w) = w_measured w @ [m]" "w_measured (tick w) = w_measured w"
  by (simp_all add: measure_def tick_def)

lemma quiet_picked: "quiet (picked_handler W inp i jc tc)"
  by (auto simp: quiet_def picked_handler_def split: prod.splits sum.splits job_error.splits)

lemma picked_handler_done:
  "picked_handler W inp i jc tc current saved_job w = (w', Inr (MergeDone j outcome)) \<Longrightarrow> outcome = SavedTaskStolen"
  by (cases "merge_with_picked_task (in_externs inp) (in_clock inp (w_ticks w)) current (wk_id W) i saved_job")
    (auto simp: picked_handler_def split: sum.splits job_error.splits)

lemma quiet_processed: "quiet (processed_handler W inp i jc tc save_reason)"
  by (auto simp: quiet_def processed_handler_def split: prod.splits sum.splits job_error.splits)

lemma store_processed [simp]: "w_store (record_task_processed x i j w) = w_store w"
  by (simp add: record_task_processed_def split: sum.split option.split)

lemma save_processed_cases:
  assumes "save_processed_task W inp i handler j w = (w', Inr (j', outcome))"
  obtains w1 where "save_job_state W inp handler j w = (w1, Inr (j', outcome))"
    "w' = (if outcome = Saved then record_task_processed (in_externs inp) i j' w1 else w1)"
  using assms by (cases outcome) (auto simp: save_processed_task_def bindS_Inr_iff)

context worker_storage
begin

text \<open>One attempt in a good state: it is retried with a merged job, or it ends the loop.\<close>

lemma attempt_retry:
  assumes W: "wk_storage W = st" and q: "quiet handler" and ok: "ok (w_store w)"
    and keyed: "\<And>current. held = Some current \<Longrightarrow> keys_ok current"
    and r: "save_attempt W code handler (w, held) = ((w', held'), Inr (Retry cause))"
  shows "ok (w_store w') \<and> (\<exists>current saved_job w0 j. held = Some current \<and> keys_ok saved_job \<and> job_code saved_job = code \<and>
    handler current saved_job w0 = (w', Inr (MergeRetry j)) \<and> held' = Some j)"
proof -
  from r obtain current where h: "held = Some current" by (cases held) (auto simp: save_attempt_def)
  obtain s c' q' where s: "st_save_job st current (w_store w) = (s, c', q')" by (metis prod_cases3)
  from r h W s obtain e where e: "q' = Inl e" "is_conflict e"
    by (cases q') (auto simp: save_attempt_def split: if_splits)
  have c': "c' = current" using save_error [OF ok] s e(1) by simp
  have ok1: "ok s" by (rule save_keeps [OF ok keyed [OF h] s])
  obtain s2 g where g: "st_get_job st code s = (s2, g)" by fastforce
  have ok2: "ok s2" by (rule get_keeps [OF ok1 g])
  from r h W s e g obtain saved_job where sv: "g = Inr saved_job" by (cases g) (auto simp: save_attempt_def)
  let ?w = "w\<lparr>w_store := s2\<rparr>"
  obtain w1 d where d: "handler current saved_job ?w = (w1, d)" by fastforce
  from r h W s e g sv d c' obtain j where j: "d = Inr (MergeRetry j)" "held' = Some j" "w' = w1"
    by (auto simp: save_attempt_def split: sum.splits merge_decision.splits)
  have "w_store w' = s2" using quiet_store [OF q d] j(3) by simp
  with ok2 get_sound [OF ok1] g sv h d j show ?thesis by auto
qed

lemma attempt_done:
  assumes W: "wk_storage W = st" and q: "quiet handler" and ok: "ok (w_store w)"
    and keyed: "\<And>current. held = Some current \<Longrightarrow> keys_ok current"
    and r: "save_attempt W code handler (w, held) = ((w', held'), Inr (Done outcome))"
  shows "ok (w_store w') \<and> (outcome = Saved \<longrightarrow> (\<exists>current j'. held = Some current \<and> held' = Some j' \<and>
    j' = update_version (version j') current \<and> holds (w_store w') j')) \<and>
    (outcome \<noteq> Saved \<longrightarrow> (\<exists>current saved_job w0 j'. keys_ok saved_job \<and> held' = Some j' \<and>
      handler current saved_job w0 = (w', Inr (MergeDone j' outcome))))"
proof -
  from r obtain current where h: "held = Some current" by (cases held) (auto simp: save_attempt_def)
  obtain s c' q' where s: "st_save_job st current (w_store w) = (s, c', q')" by (metis prod_cases3)
  have ok1: "ok s" by (rule save_keeps [OF ok keyed [OF h] s])
  show ?thesis
  proof (cases q')
    case (Inr u)
    with r h W s have "w' = w\<lparr>w_store := s\<rparr>" "held' = Some c'" by (auto simp: save_attempt_def)
    moreover have "outcome = Saved" using r h W s Inr by (auto simp: save_attempt_def)
    ultimately show ?thesis using ok1 save_ok [OF ok, of current s c'] s Inr h by simp
  next
    case (Inl e)
    with r h W s have e: "is_conflict e" by (auto simp: save_attempt_def split: if_splits)
    obtain s2 g where g: "st_get_job st code s = (s2, g)" by fastforce
    have ok2: "ok s2" by (rule get_keeps [OF ok1 g])
    from r h W s Inl e g obtain saved_job where sv: "g = Inr saved_job" by (cases g) (auto simp: save_attempt_def)
    obtain w1 d where d: "handler c' saved_job (w\<lparr>w_store := s2\<rparr>) = (w1, d)" by fastforce
    from r h W s Inl e g sv d obtain j where j: "d = Inr (MergeDone j outcome)" "w' = w1" "held' = Some j"
      by (auto simp: save_attempt_def split: sum.splits merge_decision.splits)
    have "w_store w' = s2" using quiet_store [OF q d] j(2) by simp
    moreover have "outcome \<noteq> Saved" using q d j(1) by (auto simp: quiet_def)
    moreover have "keys_ok saved_job" using get_sound [OF ok1] g sv by blast
    ultimately show ?thesis using ok2 d j by blast
  qed
qed

text \<open>
  What a whole save leaves: a property of the worker's job that every merge restores holds of the job
  that was written, and the storage holds it.
\<close>

lemma save_written:
  assumes W: "wk_storage W = st" and q: "quiet handler" and ok: "ok (w_store w)" and I: "I j" and keyed: "\<And>j. I j \<Longrightarrow> keys_ok j"
    and merge: "\<And>current saved_job w0 w1 j1. I current \<Longrightarrow> keys_ok saved_job \<Longrightarrow> job_code saved_job = job_code j \<Longrightarrow>
      handler current saved_job w0 = (w1, Inr (MergeRetry j1)) \<Longrightarrow> I j1"
    and r: "save_job_state W inp handler j w = (w', Inr (j', outcome))"
  shows "ok (w_store w') \<and> (outcome = Saved \<longrightarrow>
    (\<exists>current. I current \<and> j' = update_version (version j') current \<and> holds (w_store w') j')) \<and>
    (outcome \<noteq> Saved \<longrightarrow> (\<exists>current saved_job w0. keys_ok saved_job \<and>
       handler current saved_job w0 = (w', Inr (MergeDone j' outcome))))"
proof -
  let ?h = "save_attempt W (job_code j) handler"
  from r have run: "retry_from internal_retry_error (wk_retrier W) (in_race inp (w_ticks w)) ?h 0 (tick w, Some j) =
      ((w', Some j'), Inr outcome)"
    by (auto simp: save_job_state_def retry_def split: prod.splits sum.splits option.splits)
  let ?I = "\<lambda>(w, held). ok (w_store w) \<and> (\<forall>current. held = Some current \<longrightarrow> I current)"
  have "\<exists>s0. ?I s0 \<and> ?h s0 = ((w', Some j'), Inr (Done outcome))"
  proof (rule retry_invariant [OF _ _ run])
    show "?I (tick w, Some j)" using ok I by (simp add: tick_def)
    fix s s' cause assume a: "?I s" "?h s = (s', Inr (Retry cause))"
    obtain w0 held w1 held1 where s: "s = (w0, held)" "s' = (w1, held1)" by fastforce
    from attempt_retry [OF W q, of w0 held "job_code j" w1 held1 cause] a s keyed obtain current saved_job w2 j1 where
      "ok (w_store w1)" "held = Some current" "keys_ok saved_job" "job_code saved_job = job_code j"
      "handler current saved_job w2 = (w1, Inr (MergeRetry j1))" "held1 = Some j1" by auto
    with a s merge [of current saved_job w2 w1 j1] show "?I s'" by simp
  qed
  then obtain w0 held where s0: "?I (w0, held)" "?h (w0, held) = ((w', Some j'), Inr (Done outcome))" by auto
  with attempt_done [OF W q _ _ s0(2)] keyed show ?thesis by auto
qed

end

section \<open>What the merges restore\<close>

lemma keys_ok_put: "keys_ok j \<Longrightarrow> task_id t = i \<Longrightarrow> keys_ok (put_task i t j)"
  by (auto simp: keys_ok_def)

lemma keys_ok_fields [simp]:
  "keys_ok (j\<lparr>job_status := a\<rparr>) = keys_ok j" "keys_ok (j\<lparr>updated_by_worker_id := b\<rparr>) = keys_ok j"
  "keys_ok (j\<lparr>running_at := d\<rparr>) = keys_ok j" "keys_ok (j\<lparr>next_start_at := e\<rparr>) = keys_ok j"
  "keys_ok (update_version v j) = keys_ok j"
  by (simp_all add: keys_ok_def update_version_def)

lemma task_at_update_version [simp]: "task_at (update_version v j) i = task_at j i"
  by (simp add: update_version_def)

lemma merge_picked_at:
  assumes "merge_with_picked_task x c wj w i j = (j', Inr ())" and "keys_ok wj" and "keys_ok j"
  shows "task_at j' i = task_at wj i \<and> keys_ok j'"
proof -
  from assms(1) obtain t s where t: "task_at wj i = Some t"
    and run: "bindS (fail_tasks_by_lifetime x c) (\<lambda>_. bindS (skip_unreachable_tasks x c (read c 1)) (\<lambda>_.
        modifyS (\<lambda>j. (put_task i t j)\<lparr>updated_by_worker_id := w,
          running_at := (if running_at j = None then running_at wj else running_at j)\<rparr>))) (j\<lparr>job_status := s\<rparr>) = (j', Inr ())"
    by (auto simp: merge_with_picked_task_def get_task_arc_def split: if_splits sum.splits option.splits)
  from run obtain j1 j2 a b where 1: "fail_tasks_by_lifetime x c (j\<lparr>job_status := s\<rparr>) = (j1, Inr a)"
    and 2: "skip_unreachable_tasks x c (read c 1) j1 = (j2, Inr b)"
    and j': "j' = (put_task i t j2)\<lparr>updated_by_worker_id := w,
          running_at := (if running_at j2 = None then running_at wj else running_at j2)\<rparr>"
    by (auto simp: bindS_Inr_iff modifyS_def)
  have "keys_ok j1" using keys.kept_fail_tasks_by_lifetime [of "j\<lparr>job_status := s\<rparr>" x c] 1 assms(3) by simp
  then have "keys_ok j2" using keys.kept_skip_unreachable_tasks [of j1 x c "read c 1"] 2 by simp
  moreover have "task_id t = i" using assms(2) t by (simp add: keys_ok_def)
  ultimately show ?thesis using t by (simp add: j' keys_ok_put)
qed

lemma merge_tasks_keys:
  assumes "keys_ok wj" and "keys_ok j"
  shows "keys_ok (merge_tasks wj w j)"
proof -
  have "keys_ok (fold (\<lambda>(i, t) j. if merges_over j w i t then put_task i t j else j) xs j)"
    if "\<And>i t. (i, t) \<in> set xs \<Longrightarrow> task_id t = i" for xs
    using assms(2) that by (induction xs arbitrary: j) (auto simp: keys_ok_put)
  moreover have "task_id t = i" if "(i, t) \<in> set (tasks_by_id wj)" for i t
    using assms(1) that by (auto simp: keys_ok_def)
  ultimately show ?thesis by (simp add: merge_tasks_def)
qed

lemma merge_processed_keys:
  assumes "keys_ok wj" and "keys_ok j"
  shows "keys_ok (fst (merge_with_processed_task x c wj w i j))"
proof -
  have "keys_ok (fst (bindS (ensure_running (read c 0) w) (\<lambda>_.
      bindS (modifyS (\<lambda>j. j\<lparr>
          running_at := (case running_at wj of Some r \<Rightarrow> Some r | None \<Rightarrow> running_at j),
          next_start_at := (case next_start_at wj of Some n \<Rightarrow> Some n | None \<Rightarrow> next_start_at j)\<rparr>)) (\<lambda>_.
      bindS (try_settle_iteration x (later 1 c) w) (\<lambda>_. returnS ())))
        ((merge_tasks wj w j)\<lparr>updated_by_worker_id := w\<rparr>)))"
    by (intro keys.kept_bindS keys.kept_ensure_running keys.kept_modifyS keys.kept_try_settle_iteration)
      (use assms merge_tasks_keys in \<open>auto simp: returnS_def\<close>)
  with assms(2) show ?thesis
    by (auto simp: merge_with_processed_task_def split: sum.splits)
qed

text \<open>A merge of a processed task that is retried carried the result over, also where it found a deadlock.\<close>

lemma merge_processed_retried:
  assumes r: "processed_handler W inp i jc tc save_reason current saved_job w0 = (w1, Inr (MergeRetry j1))"
    and keys: "keys_ok current" "keys_ok saved_job"
    and t: "task_at current i = Some t" "processing_by_worker t = Some (wk_id W)" "is_resolved t"
  shows "keys_ok j1 \<and> task_at j1 i = Some t"
proof -
  let ?m = "merge_with_processed_task (in_externs inp) (in_clock inp (w_ticks w0)) current (wk_id W) i saved_job"
  obtain q where m: "?m = (j1, q)" and q: "q = Inr () \<or> (\<exists>a b. q = Inl (IterationDeadlock a b))"
    using r by (cases ?m) (auto simp: processed_handler_def split: sum.splits job_error.splits)
  have "check_task_stolen i (wk_id W) saved_job \<noteq> Inl (IterationDeadlock a b)" for a b
    by (auto simp: check_task_stolen_def get_task_arc_def check_task_owner_def bindR_Inl_iff split: option.splits if_splits)
  with m q have let_through: "job_id saved_job = job_id current" "check_task_stolen i (wk_id W) saved_job = Inr ()"
    "\<not> is_processed saved_job"
    by (auto simp: merge_with_processed_task_def split: if_splits sum.splits)
  have "task_at (merge_tasks current (wk_id W) saved_job) i = Some t"
    using t keys(1) by (simp add: merge_tasks_at merges_over_def keys_ok_def)
  from merge_processed_at [OF let_through this t(3), of "in_externs inp" "in_clock inp (w_ticks w0)"]
    merge_processed_keys [OF keys, of "in_externs inp" "in_clock inp (w_ticks w0)" "wk_id W" i] m
  show ?thesis by simp
qed

section \<open>Jobs a worker holds\<close>

lemma insert_initial_keys:
  assumes "foldR (insert_initial_task x w ids) ps tasks = Inr tasks'"
    and "distinct (map fst tasks)" and "\<And>i t. (i, t) \<in> set tasks \<Longrightarrow> task_id t = i"
  shows "distinct (map fst tasks') \<and> (\<forall>(i, t) \<in> set tasks'. task_id t = i)"
  using assms
proof (induction ps arbitrary: tasks)
  case Nil
  then show ?case by auto
next
  case (Cons p ps)
  obtain position d where p: "p = (position, d)" by fastforce
  with Cons.prems(1) obtain resolved where
    r: "foldR (insert_initial_task x w ids) ps (AList.update (ids ! position)
        (task_new x (ids ! position) w None d resolved) tasks) = Inr tasks'"
    by (auto simp: insert_initial_task_def split: if_splits)
  have id: "task_id (task_new x a w None d resolved) = a" for a by (simp add: task_new_def)
  show ?case
    by (rule Cons.IH [OF r]) (use Cons.prems(2,3) id in \<open>auto simp: set_update_distinct\<close>)
qed

lemma job_new_keys: "job_new x now new_id fresh jd meta w = Inr j \<Longrightarrow> keys_ok j"
  using insert_initial_keys [of x w _ _ "[]"] by (fastforce simp: job_new_def Let_def keys_ok_def)

lemma next_iteration_keys:
  assumes "next_iteration x c new_id fresh jd w j = (j', Inr ())"
  shows "keys_ok j'"
proof -
  from assms obtain n where "job_new x (read c 1) new_id fresh jd (metadata j) w = Inr n"
    "j' = n\<lparr>job_id := job_id j, iter_num := iter_num j + 1, started_at := read c 2\<rparr>"
    by (auto simp: next_iteration_def split: if_splits sum.splits)
  with job_new_keys show ?thesis by (fastforce simp: keys_ok_def)
qed

lemma start_task_at:
  assumes "start_task x now i w j = (j', Inr ())"
  shows "\<exists>t. task_at j' i = Some t \<and> task_status t = Started \<and> processing_by_worker t = Some w"
  using assms by (auto simp: start_task_def bindS_Inr_iff with_task_Inr_iff modifyS_def start_Inr_iff)

context worker_storage
begin

text \<open>A job that comes back from a save under the handler of a lost race.\<close>

lemma saved_keys:
  assumes W: "wk_storage W = st" and ok: "ok (w_store w)" and j: "keys_ok j"
    and r: "save_job_state W inp stolen_handler j w = (w', Inr (j', outcome))"
  shows "ok (w_store w') \<and> keys_ok j'"
proof -
  note sw = save_written [OF W quiet_stolen ok, where I = keys_ok, OF j _ _ r]
  have "ok (w_store w') \<and> (outcome = Saved \<longrightarrow> (\<exists>current. keys_ok current \<and> j' = update_version (version j') current)) \<and>
      (outcome \<noteq> Saved \<longrightarrow> keys_ok j')"
    using sw by (fastforce simp: stolen_handler_def)
  then show ?thesis by (metis keys_ok_fields(5))
qed

lemma create_keys:
  assumes "wk_storage W = st" and "ok (w_store w)" and "create_new_job W inp code w = (w', Inr j)"
  shows "ok (w_store w') \<and> keys_ok j"
proof -
  from assms(3) obtain n outcome where n: "keys_ok n"
    "save_job_state W inp stolen_handler n (tick w) = (w', Inr (j, outcome))"
    by (auto simp: create_new_job_def bindS_Inr_iff split: sum.splits dest: job_new_keys)
  have "ok (w_store (tick w))" using assms(2) by (simp add: tick_def)
  from saved_keys [OF assms(1) this n] show ?thesis .
qed

lemma next_keys:
  assumes "wk_storage W = st" and "ok (w_store w)" and "start_new_job_iteration W inp j w = (w', Inr j')"
  shows "ok (w_store w') \<and> keys_ok j'"
proof -
  from assms(3) obtain n w1 outcome where n: "keys_ok n"
    "save_job_state W inp stolen_handler n (tick w) = (w1, Inr (j', outcome))"
    and w': "w' = (if outcome = Saved then report_started_iteration W j' w1 else w1)"
    by (auto simp: start_new_job_iteration_def bindS_Inr_iff split: sum.splits prod.splits dest: next_iteration_keys)
  have "ok (w_store (tick w))" using assms(2) by (simp add: tick_def)
  from saved_keys [OF assms(1) this n] w' show ?thesis
    by (auto simp: report_started_iteration_def split: option.splits)
qed

lemma advance_keys:
  assumes "wk_storage W = st" and "ok (w_store w)" and "keys_ok j"
    and "advance_job_iteration W inp j w = (w', AdvanceOpen j')"
  shows "ok (w_store w') \<and> keys_ok j'"
proof -
  let ?w = "if is_processed j then report_finished_iteration j w else w"
  have ok: "ok (w_store (tick ?w))" using assms(2) by (simp add: tick_def report_finished_iteration_def)
  show ?thesis
    using assms(4) next_keys [OF assms(1) ok, of inp j w' j'] ok assms(3)
    by (auto simp: advance_job_iteration_def Let_def split: iteration_status.splits next_iteration_status.splits
        prod.splits sum.splits if_splits)
qed

lemma start_picked_written:
  assumes W: "wk_storage W = st" and ok: "ok (w_store w)" and j: "keys_ok j"
    and r: "start_picked_task W inp j i w = (w', Inr (TsStarted s left))"
  shows "started_task_id s = i \<and> (\<exists>t. task_at (started_job s) i = Some t \<and> task_status t = Started \<and>
      processing_by_worker t = Some (wk_id W)) \<and>
    holds (w_store w') (started_job s) \<and> keys_ok (started_job s)"
proof -
  from r obtain j1 j2 w1 outcome tc where s1: "start_task (in_externs inp) (now_of inp w) i (wk_id W) j = (j1, Inr ())"
    and sv: "save_job_state W inp (picked_handler W inp i (job_code j) tc) j1 (tick w) = (w1, Inr (j2, outcome))"
    and o: "outcome \<noteq> SavedTaskStolen" and s: "s = \<lparr>started_job = j2, started_task_id = i\<rparr>" "w' = tick w1"
    by (auto simp: start_picked_task_def bindS_Inr_iff split: sum.splits prod.splits job_error.splits if_splits)
  from start_task_at [OF s1] obtain t where t: "task_at j1 i = Some t" "task_status t = Started"
    "processing_by_worker t = Some (wk_id W)" by blast
  have k1: "keys_ok j1" using keys.kept_start_task [OF j] s1 by (metis fst_conv)
  have ok1: "ok (w_store (tick w))" using ok by (simp add: tick_def)
  let ?I = "\<lambda>j. keys_ok j \<and> task_at j i = Some t"
  have "?I j3" if "?I current" "keys_ok saved_job" "picked_handler W inp i (job_code j) tc current saved_job w0 = (w2, Inr (MergeRetry j3))"
    for current saved_job w0 w2 j3
    using that merge_picked_at [of "in_externs inp" "in_clock inp (w_ticks w0)" current "wk_id W" i saved_job j3]
    by (auto simp: picked_handler_def split: prod.splits sum.splits job_error.splits)
  with save_written [OF W quiet_picked ok1, where I = ?I, OF _ _ _ sv] k1 t(1) have
    sw: "outcome = Saved \<longrightarrow> (\<exists>current. ?I current \<and> j2 = update_version (version j2) current \<and> holds (w_store w1) j2)"
      "outcome \<noteq> Saved \<longrightarrow> (\<exists>current saved_job w0. picked_handler W inp i (job_code j) tc current saved_job w0 = (w1, Inr (MergeDone j2 outcome)))"
    by blast+
  have "outcome = Saved"
    using sw(2) o picked_handler_done by blast
  with sw(1) obtain current where c: "?I current" "j2 = update_version (version j2) current"
    "holds (w_store w1) j2" by blast
  then have "keys_ok j2" "task_at j2 i = Some t"
    by (metis keys_ok_fields(5), metis task_at_update_version)
  with c(3) s t show ?thesis by (simp add: tick_def)
qed

lemma start_in_job_written:
  assumes W: "wk_storage W = st" and ok: "ok (w_store w)" and j: "keys_ok j"
    and r: "start_in_job W inp j w = (w', TsStarted s left)"
  shows "(\<exists>t. task_at (started_job s) (started_task_id s) = Some t \<and> task_status t = Started \<and>
      processing_by_worker t = Some (wk_id W)) \<and>
    holds (w_store w') (started_job s) \<and> keys_ok (started_job s)"
proof -
  from r obtain w1 j1 where a: "advance_job_iteration W inp j w = (w1, AdvanceOpen j1)"
    and b: "start_task_in_iteration W inp j1 w1 = (w', Inr (TsStarted s left))"
    by (auto simp: start_in_job_def split: prod.splits iteration_advance.splits sum.splits)
  note adv = advance_keys [OF W ok j a]
  from b obtain j2 i where p: "pick_task_to_execute (in_externs inp) (in_clock inp (w_ticks w1)) (wk_id W) j1 = (j2, Inr (PickReady i))"
    and c: "start_picked_task W inp j2 i (tick w1) = (w', Inr (TsStarted s left))"
    by (auto simp: start_task_in_iteration_def save_settled_job_iteration_def bindS_Inr_iff Let_def
        split: prod.splits sum.splits task_pickup.splits if_splits iteration_status.splits)
  have "keys_ok j2" using keys.kept_pick_task_to_execute [of j1 "in_externs inp" "in_clock inp (w_ticks w1)" "wk_id W"] adv p
    by simp
  moreover have "ok (w_store (tick w1))" using adv by (simp add: tick_def)
  ultimately show ?thesis using start_picked_written [OF W _ _ c] by blast
qed

lemma start_written:
  assumes W: "wk_storage W = st" and ok: "ok (w_store w)"
    and r: "worker_start_task W inp code w = (w', TsStarted s left)"
  shows "(\<exists>t. task_at (started_job s) (started_task_id s) = Some t \<and> task_status t = Started \<and>
      processing_by_worker t = Some (wk_id W)) \<and>
    holds (w_store w') (started_job s) \<and> keys_ok (started_job s)"
proof -
  obtain s1 g where g: "st_get_job st code (w_store w) = (s1, g)" by fastforce
  have ok1: "ok (w_store (w\<lparr>w_store := s1\<rparr>))" using get_keeps [OF ok g] by simp
  show ?thesis
  proof (cases g)
    case (Inr j)
    with r g W have "start_in_job W inp j (w\<lparr>w_store := s1\<rparr>) = (w', TsStarted s left)"
      by (simp add: worker_start_task_def)
    with start_in_job_written [OF W ok1] get_sound [OF ok] g Inr show ?thesis by blast
  next
    case (Inl e)
    with r g W obtain j w2 where c: "create_new_job W inp code (w\<lparr>w_store := s1\<rparr>) = (w2, Inr j)"
      and t: "start_in_job W inp j w2 = (w', TsStarted s left)"
      by (auto simp: worker_start_task_def split: storage_error.splits prod.splits sum.splits)
    from create_keys [OF W ok1 c] start_in_job_written [OF W _ _ t] show ?thesis by blast
  qed
qed

text \<open>A result that was saved is the result the storage holds.\<close>

lemma result_written:
  assumes W: "wk_storage W = st" and ok: "ok (w_store w)" and j: "keys_ok j"
    and t: "task_at j i = Some t" "processing_by_worker t = Some (wk_id W)" "is_resolved t"
    and r: "save_processed_task W inp i (processed_handler W inp i jc tc save_reason) j w = (w', Inr (j', Saved))"
  shows "holds (w_store w') j' \<and> keys_ok j' \<and> task_at j' i = Some t"
proof -
  let ?I = "\<lambda>j. keys_ok j \<and> task_at j i = Some t"
  obtain w1 where sv: "save_job_state W inp (processed_handler W inp i jc tc save_reason) j w = (w1, Inr (j', Saved))"
    and w': "w_store w' = w_store w1"
    by (rule save_processed_cases [OF r]) simp
  have "?I j3" if "?I current" "keys_ok saved_job" "processed_handler W inp i jc tc save_reason current saved_job w0 = (w2, Inr (MergeRetry j3))"
    for current saved_job w0 w2 j3
    using that merge_processed_retried [OF that(3) _ that(2) _ t(2,3)] by blast
  with save_written [OF W quiet_processed ok, where I = ?I, OF _ _ _ sv] j t(1)
  obtain current where c: "?I current" "j' = update_version (version j') current"
    "holds (w_store w') j'" unfolding w' by blast
  then have "keys_ok j'" "task_at j' i = Some t"
    by (metis keys_ok_fields(5), metis task_at_update_version)
  with c(3) show ?thesis by blast
qed

end

text \<open>A reported start was written. Whatever the other workers sharing the storage save in between, when a
  worker reports that it started a task, the storage holds at that moment exactly the state it
  reports, and in it the task is running and held by this worker: a task is never executed on a start
  that did not reach the storage.\<close>
lemma started_task_written:
  assumes "wk_storage W = shared_storage x" and "memory_ok (sm_memory (w_store w))"
    and "worker_start_task W inp code w = (w', TsStarted s left)"
  shows "(\<exists>t. task_at (started_job s) (started_task_id s) = Some t \<and> task_status t = Started \<and>
      processing_by_worker t = Some (wk_id W)) \<and>
    mem_get_job False (job_code (started_job s)) (sm_memory (w_store w')) = Inr (copy_persisted_state x (started_job s))"
  using shared.start_written [OF assms(1) assms(2,3)] by (simp add: mem_get_job_def memory_holds_def)

text \<open>A saved result survives conflicts. However often the save of a result runs into another worker's write
  and is merged onto it, once it is reported as saved the storage holds exactly the result this worker
  recorded for its task.\<close>
lemma saved_result_kept:
  assumes "wk_storage W = shared_storage x" and "memory_ok (sm_memory (w_store w))" and "keys_ok j"
    and "task_at j i = Some t" and "processing_by_worker t = Some (wk_id W)" and "is_resolved t"
    and "save_processed_task W inp i (processed_handler W inp i jc tc save_reason) j w = (w', Inr (j', Saved))"
  shows "\<exists>sj. mem_get_job False (job_code j') (sm_memory (w_store w')) = Inr sj \<and> version sj = version j' \<and>
    task_at sj i = Some (persisted_task x t)"
  using shared.result_written [OF assms(1) assms(2-7)] task_at_copy [of j' x i]
  by (auto simp: mem_get_job_def memory_holds_def copy_meta)

section \<open>Every execution that returns resolves its task\<close>

lemma executing_task:
  assumes "executing p w j"
  obtains t where "task_at j p = Some t" "created_by_task t = None" "processing_by_worker t = Some w" "task_wf t"
    "task_status t = Started \<or> is_resolved t"
  using assms job_wf_task by (fastforce simp: executing_def)

lemma resolution_resolved: "is_resolved t \<longleftrightarrow> (\<exists>r. resolution t = Some r)"
  by (auto simp: is_resolved_def)

lemma find_resolution:
  "task_at j i = Some t \<Longrightarrow> resolution t = Some r \<Longrightarrow> find_task_resolution j i = Inr r"
  by (simp add: find_task_resolution_def get_task_arc_def)

text \<open>The three ways a worker resolves the task itself: it is refused and changes nothing, or the task is resolved.\<close>

lemma resolved_by_owner:
  assumes ex: "executing p w j" and f: "resolves f"
    and res: "\<And>t t'. f t = Inr t' \<Longrightarrow> task_status t = Started \<or> task_status t = Blocked"
      "\<And>t t'. f t = Inr t' \<Longrightarrow> resolution t' = Some r"
    and run: "with_task p (\<lambda>t. bindR (check_task_owner t w) (\<lambda>_. f t)) j = (j', q)"
  shows "(\<exists>e. q = Inl e \<and> j' = j) \<or>
    (q = Inr () \<and> executing p w j' \<and> only_own_resolved w j j' \<and> (\<exists>t. task_at j' p = Some t \<and> resolution t = Some r))"
proof -
  from ex obtain t where t: "task_at j p = Some t" "task_status t = Started \<or> is_resolved t" by (rule executing_task)
  have "executing p w j' \<and> only_own_resolved w j j'"
    by (rule owned_step [OF ex f _ run]) (use t res(1) in \<open>fastforce simp: is_resolved_iff\<close>)
  moreover have "(\<exists>e. q = Inl e \<and> j' = j) \<or> (q = Inr () \<and> (\<exists>t. task_at j' p = Some t \<and> resolution t = Some r))"
    by (rule with_task_cases [of p "\<lambda>t. bindR (check_task_owner t w) (\<lambda>_. f t)" j]) (use run res(2) in auto)
  ultimately show ?thesis by blast
qed

lemma fail_own_at:
  assumes "executing p w j" and "fail_task now p msg again w j = (j', Inr n)"
  shows "\<exists>t. task_at j' p = Some t \<and> resolution t = Some ResolvedFailed"
proof -
  from fail_task_Inr [OF assms(2)] obtain t t' where t: "task_at j p = Some t" "fail now msg again t = Inr t'"
    and j': "j' = drop_created_by p (put_task p t' j)" by blast
  have "distinct (map fst (tasks_by_id (put_task p t' j)))"
    using assms(1) by (simp add: executing_def job_wf_distinct)
  moreover have "created_by_task t = None" using assms(1) t(1) by (auto simp: executing_def)
  ultimately show ?thesis using t by (auto simp: j' task_at_drop fail_Inr_iff resolution_def)
qed

lemma failed_by_owner:
  assumes ex: "executing p w j" and r: "fail_task now p msg again w j = (j', q)"
  shows "(\<exists>e. q = Inl e \<and> j' = j) \<or>
    (\<exists>n. q = Inr n \<and> executing p w j' \<and> only_own_resolved w j j' \<and>
       (\<exists>t. task_at j' p = Some t \<and> resolution t = Some ResolvedFailed))"
proof (cases q)
  case (Inl e)
  let ?f = "\<lambda>t. bindR (check_task_owner t w) (\<lambda>_. fail now msg again t)"
  show ?thesis
  proof (rule with_task_cases [of p ?f j])
    fix e' assume "with_task p ?f j = (j, Inl e')"
    with r have "j' = j \<and> q = Inl e'" by (simp add: fail_task_def bindS_def)
    then show ?thesis by blast
  next
    fix t t' assume "with_task p ?f j = (put_task p t' j, Inr ())"
    with r Inl show ?thesis by (simp add: fail_task_def bindS_def)
  qed
next
  case (Inr n)
  with r have f: "fail_task now p msg again w j = (j', Inr n)" by simp
  with fail_own_at [OF ex f] fail_step [OF ex r] Inr show ?thesis by blast
qed

lemma failure_recorded:
  assumes ex: "executing p w j"
  shows "\<exists>j' n. record_task_execution_failure now p msg again w j = (j', Inr n) \<and> executing p w j' \<and>
    only_own_resolved w j j' \<and> (\<exists>t. task_at j' p = Some t \<and> is_resolved t)"
proof -
  from ex obtain t where t: "task_at j p = Some t" "processing_by_worker t = Some w"
    "task_status t = Started \<or> is_resolved t" by (rule executing_task)
  show ?thesis
  proof (cases "is_resolved t")
    case True
    with t ex only_own_refl show ?thesis by (simp add: record_task_execution_failure_def get_task_arc_def)
  next
    case False
    with t have st: "task_status t = Started" by simp
    have "\<exists>j' n. fail_task now p msg again w j = (j', Inr n)"
      using t st by (simp add: fail_task_def bindS_def with_task_def get_task_arc_def check_task_owner_def fail_def)
    then obtain j' n where f: "fail_task now p msg again w j = (j', Inr n)" by blast
    with failed_by_owner [OF ex f] t(1) False show ?thesis
      by (auto simp: record_task_execution_failure_def get_task_arc_def resolution_resolved)
  qed
qed

text \<open>What recording an outcome leaves: it is refused and the copy is as it was, or the task carries the resolution.\<close>

lemma record_outcome_cases:
  assumes ex: "executing p w j" and r: "record_outcome now w p returned j = (j', q)"
  shows "(\<exists>e. q = Inl e \<and> j' = j) \<or>
    (\<exists>res. q = Inr res \<and> executing p w j' \<and> only_own_resolved w j j' \<and> (\<exists>t. task_at j' p = Some t \<and> resolution t = Some res))"
proof (cases "(now, w, p, returned, j)" rule: record_outcome.cases)
  case (1 now w p out j)
  obtain j1 q1 where c: "complete_task now p out w j = (j1, q1)" by fastforce
  have "(\<exists>e. q1 = Inl e \<and> j1 = j) \<or> (q1 = Inr () \<and> executing p w j1 \<and> only_own_resolved w j j1 \<and>
      (\<exists>t. task_at j1 p = Some t \<and> resolution t = Some ResolvedCompleted))"
  proof (cases "validate_task_output out (job_limits j)")
    case (Inl e)
    then have "complete_task now p out w j = (j, Inl e)" by (simp add: complete_task_def)
    with c show ?thesis by auto
  next
    case (Inr u)
    with c have "with_task p (\<lambda>t. bindR (check_task_owner t w) (\<lambda>_. complete now out t)) j = (j1, q1)"
      by (simp add: complete_task_def)
    from resolved_by_owner [OF _ resolves_complete _ _ this, of ResolvedCompleted] 1 ex show ?thesis
      by (auto simp: complete_Inr_iff resolution_def)
  qed
  with 1 r c show ?thesis by (auto simp: internal_of_job_def)
next
  case (2 now w p reason j)
  obtain j1 q1 where c: "fail_task now p reason Never w j = (j1, q1)" by fastforce
  with failed_by_owner [OF _ c] 2 r ex show ?thesis by auto
next
  case (3 now w p reason j)
  obtain j1 q1 where c: "skip_task_by_executor now p reason w j = (j1, q1)" by fastforce
  then have s: "with_task p (\<lambda>t. bindR (check_task_owner t w) (\<lambda>_. skip now reason ExecutorDecision t)) j = (j1, q1)"
    by (simp add: skip_task_by_executor_def)
  have "(\<exists>e. q1 = Inl e \<and> j1 = j) \<or> (q1 = Inr () \<and> executing p w j1 \<and> only_own_resolved w j j1 \<and>
      (\<exists>t. task_at j1 p = Some t \<and> resolution t = Some ResolvedSkipped))"
    by (rule resolved_by_owner [OF _ resolves_skip _ _ s]) (use 3 ex in \<open>auto simp: skip_Inr_iff resolution_def\<close>)
  with 3 r c show ?thesis by (auto simp: internal_of_job_def)
next
  case (4 now w p j)
  from ex 4 obtain t where t: "task_at j p = Some t" by (auto elim: executing_task)
  with 4 r ex only_own_refl show ?thesis
    by (cases "resolution t") (auto simp: check_task_resolution_def find_task_resolution_def get_task_arc_def is_resolved_def)
qed (use r in auto)

lemma outcome_resolves:
  assumes ex: "executing p w j"
  shows "\<exists>j' r t. apply_executor_outcome now later_now w p returned j = (j', Inr r) \<and> executing p w j' \<and>
    only_own_resolved w j j' \<and> task_at j' p = Some t \<and> resolution t = Some r"
proof -
  obtain j1 q where r: "record_outcome now w p returned j = (j1, q)" by fastforce
  from record_outcome_cases [OF ex r] show ?thesis
  proof (elim disjE exE conjE)
    fix e assume e: "q = Inl e" "j1 = j"
    from failure_recorded [OF ex, of later_now "internal_error_display e" WhileBudgetLasts] obtain j' n t where
      f: "record_task_execution_failure later_now p (internal_error_display e) WhileBudgetLasts w j = (j', Inr n)"
        "executing p w j'" "only_own_resolved w j j'" "task_at j' p = Some t" "is_resolved t" by blast
    from f(5) obtain res where "resolution t = Some res" by (auto simp: resolution_resolved)
    with f r e find_resolution [OF f(4)] show ?thesis by (auto simp: apply_executor_outcome_def)
  next
    fix res t assume "q = Inr res" "executing p w j1" "only_own_resolved w j j1" "task_at j1 p = Some t" "resolution t = Some res"
    with r show ?thesis by (auto simp: apply_executor_outcome_def get_task_arc_def)
  qed
qed


section \<open>A worker on a shared storage\<close>

definition sample_worker :: "shared_memory worker" where
  "sample_worker = \<lparr>wk_id = 7, wk_registry = \<lparr>reg_jobs = [(''job'', sample_jd)], reg_executors = [(''job:task'', 7)]\<rparr>,
     wk_storage = shared_storage std_externs, wk_retrier = \<lparr>max_attempts_cfg = 3, rand_delay = 0, delays = []\<rparr>,
     wk_notifier = None\<rparr>"
definition sample_clock :: clock where
  "sample_clock = \<lparr>read = (\<lambda>_. 1), stamp = (\<lambda>_. 1)\<rparr>"
definition sample_inputs :: "shared_memory inputs" where
  "sample_inputs = \<lparr>in_externs = std_externs, in_clock = (\<lambda>_. sample_clock),
     in_mint = (\<lambda>n k. 1000 * n + k), in_race = (\<lambda>_. not_cancelled)\<rparr>"
definition sample_world :: "shared_memory world" where
  "sample_world = \<lparr>w_store = \<lparr>sm_memory = sample_memory, sm_others = []\<rparr>, w_finished = [], w_channel = [], w_measured = [], w_ticks = 0\<rparr>"

lemma sample_read:
  "st_get_job (shared_storage std_externs) ''job'' (w_store sample_world) = (w_store sample_world, Inr sample_reread)"
  by (simp add: shared_storage_def shared_read_def let_others_run_def sample_world_def mem_get_job_def sample_memory_def)

lemma sample_reread_fields: "job_status sample_reread = JobStarted" "job_id sample_reread = 99"
  by (simp_all add: sample_reread_def copy_persisted_state_def into_job_def restore_def from_job_def update_version_def sample_job_def)

lemma sample_reread_tasks: "tasks_by_id sample_reread =
    [(10, persisted_task std_externs (sample_task\<lparr>task_id := 10\<rparr>)), (11, persisted_task std_externs sample_waiting)]"
proof -
  have "keys_ok (update_version ''1'' sample_job)" using job_wf_keys [OF sample_job_wf] by simp
  from persisted_tasks [OF this, of std_externs] show ?thesis
    by (simp add: sample_reread_def update_version_def sample_job_def)
qed

lemma sample_picks: "\<exists>j. pick_task_to_execute std_externs sample_clock 7 sample_reread = (j, Inr (PickReady 10)) \<and>
    tasks_by_id j = tasks_by_id sample_reread \<and> version j = ''1'' \<and> iter_num j = 1 \<and> job_code j = ''job''"
  by (simp add: pick_task_to_execute_def bindS_def ensure_running_def start_work_def sample_reread_fields
      transition_to_def can_transition_to_def fail_tasks_by_lifetime_def expired_tasks_def sample_reread_tasks
      find_pickable_task_def can_be_picked_up_at_def check_availability_at_def persisted_task_def sample_task_def
      task_new_def sample_waiting_def sample_reread_meta with_task_def)


lemma sample_starts:
  assumes "tasks_by_id j = tasks_by_id sample_reread"
  shows "\<exists>j'. start_task std_externs 1 10 7 j = (j', Inr ()) \<and> version j' = version j \<and> iter_num j' = iter_num j \<and> job_code j' = job_code j"
proof -
  have "\<exists>t'. start std_externs 1 7 (persisted_task std_externs (sample_task\<lparr>task_id := 10\<rparr>)) = Inr t'"
    by (simp add: start_def check_availability_at_def persisted_task_def whole_millis_def sample_defs)
  then obtain t' where "start std_externs 1 7 (persisted_task std_externs (sample_task\<lparr>task_id := 10\<rparr>)) = Inr t'" ..
  with assms show ?thesis
    by (simp add: start_task_def bindS_def with_task_def get_task_arc_def sample_reread_tasks modifyS_def put_task_def)
qed

lemma sample_saves:
  assumes "version j = ''1''" "iter_num j = 1" "job_code j = ''job''" and "w_store w = w_store sample_world"
  shows "\<exists>w' j'. save_job_state sample_worker sample_inputs handler j w = (w', Inr (j', Saved))"
proof -
  have "\<exists>m j'. mem_save_job std_externs False j sample_memory = (m, j', Inr ())"
    using assms by (simp add: mem_save_job_def is_save_allowed_def sample_memory_def sample_reread_meta Let_def)
  then obtain m j' where "mem_save_job std_externs False j sample_memory = (m, j', Inr ())" by blast
  with assms show ?thesis
    by (simp add: save_job_state_def retry_def retry_from.simps save_attempt_def sample_worker_def sample_inputs_def
        not_cancelled_def tick_def shared_storage_def let_others_run_def sample_world_def)
qed

text \<open>The job with the task picked, and with its start recorded; and the start over any storage that reads and saves them.\<close>

definition sample_picked :: job where
  "sample_picked = fst (pick_task_to_execute std_externs sample_clock 7 sample_reread)"
definition sample_start_saved :: job where
  "sample_start_saved = fst (start_task std_externs 1 10 7 sample_picked)"

lemma sample_picked_run:
  "pick_task_to_execute std_externs sample_clock 7 sample_reread = (sample_picked, Inr (PickReady 10))"
  "tasks_by_id sample_picked = tasks_by_id sample_reread" "version sample_picked = ''1''"
  "iter_num sample_picked = 1" "job_code sample_picked = ''job''"
  using sample_picks by (auto simp: sample_picked_def)

lemma sample_start_run: "start_task std_externs 1 10 7 sample_picked = (sample_start_saved, Inr ())"
  "version sample_start_saved = ''1''" "iter_num sample_start_saved = 1" "job_code sample_start_saved = ''job''"
  using sample_starts [OF sample_picked_run(2)] sample_picked_run by (auto simp: sample_start_saved_def)

lemma sample_start_flow:
  fixes W :: "'s worker" and inp :: "'s inputs" and w :: "'s world"
  assumes W: "wk_id W = 7" and inp: "in_externs inp = std_externs" "\<And>n. in_clock inp n = sample_clock"
    and g: "st_get_job (wk_storage W) ''job'' (w_store w) = (s1, Inr sample_reread)"
    and sv: "\<And>w2. w_store w2 = s1 \<Longrightarrow>
      \<exists>w' j'. save_job_state W inp (picked_handler W inp 10 ''job'' ''task'') sample_start_saved w2 = (w', Inr (j', Saved))"
  shows "\<exists>w' s left. worker_start_task W inp ''job'' w = (w', TsStarted s left)"
proof -
  let ?w = "w\<lparr>w_store := s1\<rparr>"
  have "w_store (tick (tick (tick ?w))) = s1" by (simp add: tick_def)
  from sv [OF this] obtain w' j2 where
    v: "save_job_state W inp (picked_handler W inp 10 ''job'' ''task'') sample_start_saved (tick (tick (tick ?w))) = (w', Inr (j2, Saved))" by blast
  have now: "now_of inp w = 1" for w by (simp add: now_of_def inp sample_clock_def)
  have t: "\<exists>t. get_task_arc 10 sample_picked = Inr t \<and> task_code t = ''task''"
    by (simp add: get_task_arc_def sample_picked_run(2) sample_reread_tasks persisted_task_def sample_task_def task_new_def sample_depends)
  have a: "advance_job_iteration W inp sample_reread ?w = (tick ?w, AdvanceOpen sample_reread)"
    by (simp add: advance_job_iteration_def Let_def find_iteration_status_def is_processed_def iteration_verdict_def
        is_ready_for_processing_def sample_reread_fields)
  have "start_task_in_iteration W inp sample_reread (tick ?w) = start_picked_task W inp sample_picked 10 (tick (tick ?w))"
    by (simp add: start_task_in_iteration_def inp W sample_picked_run(1))
  also have "\<exists>s left w''. \<dots> = (w'', Inr (TsStarted s left))"
    using t sample_start_run(1) v by (auto simp: start_picked_task_def inp W now bindS_def sample_picked_run(5))
  finally show ?thesis
    by (auto simp: worker_start_task_def g start_in_job_def a)
qed

lemma sample_starts_task: "\<exists>w' s left. worker_start_task sample_worker sample_inputs ''job'' sample_world = (w', TsStarted s left)"
proof (rule sample_start_flow [where W = sample_worker and inp = sample_inputs and w = sample_world])
  show "st_get_job (wk_storage sample_worker) ''job'' (w_store sample_world) = (w_store sample_world, Inr sample_reread)"
    using sample_read by (simp add: sample_worker_def)
qed (use sample_saves [OF sample_start_run(2-4)] in \<open>auto simp: sample_worker_def sample_inputs_def\<close>)

lemma save_processed_Saved:
  assumes "\<exists>w' j'. save_job_state W inp handler j w = (w', Inr (j', Saved))"
    and "\<And>w' j'. save_processed_task W inp i handler j w = (w', Inr (j', Saved)) \<Longrightarrow> thesis"
  shows thesis
  using assms by (auto simp: save_processed_task_def bindS_def)

lemma sample_memory_ok: "memory_ok (sm_memory (w_store sample_world))"
  by (simp add: memory_ok_def sample_world_def sample_memory_def sample_reread_meta)
    (simp add: sample_reread_def copy_keys_ok)

text \<open>The worker's copy with the result of its execution.\<close>

definition sample_result :: job where
  "sample_result = put_task 10 (sample_failed\<lparr>task_id := 10\<rparr>) (update_version ''1'' sample_executing)"

lemma sample_result_keys: "keys_ok sample_result"
proof -
  have "keys_ok (update_version ''1'' sample_executing)" using job_wf_keys [OF sample_executing_wf] by simp
  then show ?thesis unfolding sample_result_def by (rule keys_ok_put) simp
qed

lemma sample_result_task:
  "task_at sample_result 10 = Some (sample_failed\<lparr>task_id := 10\<rparr>)"
  "processing_by_worker (sample_failed\<lparr>task_id := 10\<rparr>) = Some (wk_id sample_worker)"
  "is_resolved (sample_failed\<lparr>task_id := 10\<rparr>)"
  by (simp_all add: sample_result_def sample_worker_def sample_failed_def sample_started_def is_resolved_iff)

lemma sample_result_meta: "version sample_result = ''1''" "iter_num sample_result = 1" "job_code sample_result = ''job''"
  by (simp_all add: sample_result_def update_version_def sample_executing_def sample_job_def put_task_def)

lemma sample_worker_storage: "wk_storage sample_worker = shared_storage std_externs"
  by (simp add: sample_worker_def)


end
