(* ===== verification/JM_Backend.thy ===== *)
theory JM_Backend
  imports JM_Errors "HOL-Library.List_Lexorder" "HOL-Library.Char_ord" "HOL-Library.Sublist"
begin

text \<open>
  \<^verbatim>\<open>storage/backend.rs\<close>: the requests a provider answers, as a record of operations, the wrapper that
  bounds one request, records it and decides what a refusal amounts to, and the contract of an object
  store with conditional writes that the code above it relies on.
\<close>

section \<open>Requests\<close>

type_synonym object_key = string
type_synonym object_version = string
type_synonym object_body = string

datatype put_condition = CreateOnly | MatchVersion object_version

record listed_object =
  lo_key :: object_key
  lo_version :: "object_version option"

record listed_page =
  lp_objects :: "listed_object list"
  lp_next_cursor :: "string option"

record listing_request =
  lr_prefix :: string
  lr_start_key :: "object_key option"
  lr_page_size :: nat
  lr_cursor :: "string option"

datatype listing_start_bound = Inclusive | Exclusive

record 'b backend =
  be_listing_start_bound :: listing_start_bound
  be_list_page_size :: nat
  be_put_object :: "object_key \<Rightarrow> object_body \<Rightarrow> put_condition \<Rightarrow> ('b, storage_error, object_version) sresult"
  be_get_object :: "object_key \<Rightarrow> object_version \<Rightarrow> ('b, storage_error, object_body) sresult"
  be_get_changed_object :: "object_key \<Rightarrow> object_version \<Rightarrow>
    ('b, storage_error, (object_version \<times> object_body) option) sresult"
  be_list_objects :: "listing_request \<Rightarrow> ('b, storage_error, listed_page) sresult"
  be_delete_objects :: "object_key list \<Rightarrow> ('b, storage_error, unit) sresult"

section \<open>One request\<close>

definition SUCCESS_STATUS :: string where
  "SUCCESS_STATUS = ''OK''"

definition FAILED_STATUS :: string where
  "FAILED_STATUS = ''ERR''"

definition CANCELLED_STATUS :: string where
  "CANCELLED_STATUS = ''CANCELLED''"

text \<open>\<^verbatim>\<open>str::trim\<close> on the white space of ASCII, and \<^verbatim>\<open>trim_matches\<close> for one character.\<close>

definition is_ascii_space :: "char \<Rightarrow> bool" where
  "is_ascii_space c \<longleftrightarrow> of_char c = (32 :: nat) \<or> (9 \<le> (of_char c :: nat) \<and> (of_char c :: nat) \<le> 13)"

definition trim_both :: "(char \<Rightarrow> bool) \<Rightarrow> string \<Rightarrow> string" where
  "trim_both f s = rev (dropWhile f (rev (dropWhile f s)))"

definition normalize_etag :: "string \<Rightarrow> string" where
  "normalize_etag etag = trim_both (\<lambda>c. c = CHR 0x22) (trim_both is_ascii_space etag)"

datatype request_status = Answered nat | RequestFailed | RequestNotSent

fun into_label :: "request_status \<Rightarrow> string option" where
  "into_label (Answered status) = Some (show_nat status)"
| "into_label RequestFailed = Some FAILED_STATUS"
| "into_label RequestNotSent = None"

text \<open>The failures of a provider, as the trait \<^verbatim>\<open>ProviderError\<close> answers for them.\<close>

record 'e provider_error =
  into_storage_error :: "'e \<Rightarrow> storage_error"
  recorded_status :: "'e \<Rightarrow> request_status"
  is_not_modified :: "'e \<Rightarrow> bool"
  is_object_gone :: "'e \<Rightarrow> bool"

datatype 'a expected_answer = ExpectSuccess | ExpectNotModified 'a | ExpectObjectGone 'a

fun settle_refusal ::
  "'e provider_error \<Rightarrow> 'e \<Rightarrow> 'a expected_answer \<Rightarrow> string option \<times> (storage_error + 'a)" where
  "settle_refusal pe e (ExpectNotModified answer) =
     (into_label (recorded_status pe e),
      if is_not_modified pe e then Inr answer else Inl (into_storage_error pe e))"
| "settle_refusal pe e (ExpectObjectGone answer) =
     (if is_object_gone pe e then (Some SUCCESS_STATUS, Inr answer)
      else (into_label (recorded_status pe e), Inl (into_storage_error pe e)))"
| "settle_refusal pe e ExpectSuccess =
     (into_label (recorded_status pe e), Inl (into_storage_error pe e))"

datatype 'e call_error = TimedOut | NotSent | CallCancelled | Refused 'e

text \<open>
  A request that is handed over ends in one of three ways: the token is cancelled while it is in
  flight, its timeout passes, or the provider answers. Which one is an input, the race of the
  \<^verbatim>\<open>select!\<close>.
\<close>

datatype ('a, 'e) flight = CutOff | OutOfTime | Landed "'e + 'a"

fun send_request_internal :: "bool \<Rightarrow> ('a, 'e) flight \<Rightarrow> 'e call_error + 'a" where
  "send_request_internal True f = Inl NotSent"
| "send_request_internal False CutOff = Inl CallCancelled"
| "send_request_internal False OutOfTime = Inl TimedOut"
| "send_request_internal False (Landed (Inr a)) = Inr a"
| "send_request_internal False (Landed (Inl e)) = Inl (Refused e)"

definition send_request ::
  "'e provider_error \<Rightarrow> 'a expected_answer \<Rightarrow> bool \<Rightarrow> ('a, 'e) flight \<Rightarrow> string option \<times> (storage_error + 'a)" where
  "send_request pe accepted cancelled f = (case send_request_internal cancelled f of
      Inr answer \<Rightarrow> (Some SUCCESS_STATUS, Inr answer)
    | Inl NotSent \<Rightarrow> (None, Inl StorageCancelled)
    | Inl CallCancelled \<Rightarrow> (Some CANCELLED_STATUS, Inl StorageCancelled)
    | Inl TimedOut \<Rightarrow> (Some FAILED_STATUS, Inl Timeout)
    | Inl (Refused e) \<Rightarrow> settle_refusal pe e accepted)"

text \<open>An answer is handed over only for one the provider gave, or for the refusal the caller named.\<close>

lemma send_request_Inr:
  assumes "send_request pe accepted cancelled f = (label, Inr a)"
  shows "\<not> cancelled \<and> (f = Landed (Inr a) \<or>
    (\<exists>e. f = Landed (Inl e) \<and> ((accepted = ExpectNotModified a \<and> is_not_modified pe e) \<or>
       (accepted = ExpectObjectGone a \<and> is_object_gone pe e))))"
  using assms
  by (cases "(cancelled, f)" rule: send_request_internal.cases)
    (auto simp: send_request_def elim!: settle_refusal.elims split: if_splits)

section \<open>The contract of an object store\<close>

text \<open>
  \<open>objects s k\<close> is the version and the body stored under a key. \<open>moved s s0\<close> says that others may have
  taken the store from \<open>s\<close> to \<open>s0\<close> before a request took effect. A write is conditional and atomic,
  and one that failed on the way back may have been carried out; a read answers what is stored; a
  listing names the stored keys of its range in ascending order; a delete removes named keys only.
\<close>

fun condition_holds :: "put_condition \<Rightarrow> (object_version \<times> object_body) option \<Rightarrow> bool" where
  "condition_holds CreateOnly stored \<longleftrightarrow> stored = None"
| "condition_holds (MatchVersion v) stored \<longleftrightarrow> (\<exists>body. stored = Some (v, body))"

text \<open>
  The values a provider gives a meaning of its own where a condition names a version: any version, and no
  object at all. No object is stored under one of them.
\<close>

definition real_version :: "object_version \<Rightarrow> bool" where
  "real_version v \<longleftrightarrow> v \<noteq> [] \<and> v \<noteq> ''*'' \<and> v \<noteq> ''0''"

fun real_condition :: "put_condition \<Rightarrow> bool" where
  "real_condition CreateOnly \<longleftrightarrow> True"
| "real_condition (MatchVersion v) \<longleftrightarrow> real_version v"

text \<open>A condition that names a version of its own is held against the object; what another one means is left to the provider.\<close>

definition condition_met :: "put_condition \<Rightarrow> (object_version \<times> object_body) option \<Rightarrow> bool" where
  "condition_met cond stored \<longleftrightarrow> (real_condition cond \<longrightarrow> condition_holds cond stored)"

definition clears ::
  "('b \<Rightarrow> object_key \<Rightarrow> (object_version \<times> object_body) option) \<Rightarrow> object_key set \<Rightarrow> 'b \<Rightarrow> 'b \<Rightarrow> bool" where
  "clears objects keys s s' \<longleftrightarrow>
     (\<forall>k. objects s' k = objects s k \<or> (k \<in> keys \<and> objects s' k = None))"

locale object_store =
  fixes be :: "'b backend"
    and objects :: "'b \<Rightarrow> object_key \<Rightarrow> (object_version \<times> object_body) option"
    and moved :: "'b \<Rightarrow> 'b \<Rightarrow> bool"
  assumes put_ok: "be_put_object be k body cond s = (s', Inr v) \<Longrightarrow>
      \<exists>s0. moved s s0 \<and> condition_met cond (objects s0 k) \<and> real_version v \<and> objects s' = (objects s0)(k \<mapsto> (v, body))"
    and put_failed: "be_put_object be k body cond s = (s', Inl e) \<Longrightarrow>
      \<exists>s0. moved s s0 \<and> (objects s' = objects s0 \<or>
        (condition_met cond (objects s0 k) \<and> (\<exists>v. objects s' = (objects s0)(k \<mapsto> (v, body)))))"
    and get_moved: "be_get_object be k v s = (s', r) \<Longrightarrow> moved s s'"
    and get_ok: "be_get_object be k v s = (s', Inr body) \<Longrightarrow> \<exists>u. objects s' k = Some (u, body) \<and> (real_version v \<longrightarrow> u = v)"
    and changed_moved: "be_get_changed_object be k v s = (s', q) \<Longrightarrow> moved s s'"
    and changed_some: "be_get_changed_object be k v s = (s', Inr (Some (v', body))) \<Longrightarrow> objects s' k = Some (v', body)"
    and changed_none: "real_version v \<Longrightarrow> be_get_changed_object be k v s = (s', Inr None) \<Longrightarrow> \<exists>body. objects s' k = Some (v, body)"
    and list_moved: "be_list_objects be req s = (s', lr) \<Longrightarrow> moved s s'"
    and list_first: "be_list_objects be \<lparr>lr_prefix = p, lr_start_key = None, lr_page_size = 1, lr_cursor = None\<rparr> s =
        (s', Inr page) \<Longrightarrow>
      (case lp_objects page of
         [] \<Rightarrow> \<forall>k. prefix p k \<longrightarrow> objects s' k = None
       | o1 # _ \<Rightarrow> prefix p (lo_key o1) \<and> objects s' (lo_key o1) \<noteq> None \<and>
           (\<forall>v. lo_version o1 = Some v \<longrightarrow> (\<exists>body. objects s' (lo_key o1) = Some (v, body))) \<and>
           (\<forall>k. prefix p k \<and> objects s' k \<noteq> None \<longrightarrow> lo_key o1 \<le> k))"
    and delete_clears: "be_delete_objects be keys s = (s', dr) \<Longrightarrow>
      (\<lambda>a b. moved a b \<or> clears objects (set keys) a b)\<^sup>*\<^sup>* s s'"

end
