(* ===== verification/JM_Object.thy ===== *)
theory JM_Object
  imports JM_Backend JM_Shared JM_Paths JM_Registry JM_Retrier
begin

text \<open>
  \<^verbatim>\<open>storage/object_storage.rs\<close>: job state kept as objects of a provider. The provider is the record of
  \<^verbatim>\<open>JM_Backend\<close>, the encoding of a stored job (\<^verbatim>\<open>storage/state_codec.rs\<close>) a pair of functions. The
  answers of the cancellation token and the races of the retry loop are inputs, one of each per step
  of the state's counter, and \<open>os_pages\<close> bounds the pages a listing is followed over.
\<close>

section \<open>State\<close>

record job_state_codec =
  cd_serialize :: "stored_job \<Rightarrow> storage_error + object_body"
  cd_deserialize :: "object_body \<Rightarrow> storage_error + stored_job"

text \<open>
  The two codecs, over what the serialization libraries do to a stored job and to bytes, with the text of
  their own errors.
\<close>

record serde =
  json_to_vec_pretty :: "stored_job \<Rightarrow> string + object_body"
  json_from_slice :: "object_body \<Rightarrow> string + stored_job"
  cbor_into_writer :: "stored_job \<Rightarrow> string + object_body"
  cbor_from_reader :: "object_body \<Rightarrow> string + stored_job"

definition build_codec :: "serde \<Rightarrow> job_state_codec_kind \<Rightarrow> job_state_codec" where
  "build_codec sd kind = (case kind of
      Json \<Rightarrow> \<lparr>cd_serialize = (\<lambda>sj. map_err Serialization (json_to_vec_pretty sd sj)),
               cd_deserialize = (\<lambda>data. map_err Serialization (json_from_slice sd data))\<rparr>
    | Cbor \<Rightarrow> \<lparr>cd_serialize = (\<lambda>sj. map_err Serialization (cbor_into_writer sd sj)),
               cd_deserialize = (\<lambda>data. map_err Serialization (cbor_from_reader sd data))\<rparr>)"

record 'b object_storage =
  os_store :: "'b backend"
  os_keys :: job_paths
  os_codec :: job_state_codec
  os_registry :: job_registry
  os_retrier :: retrier_config
  os_externs :: externs
  os_cancelled :: "nat \<Rightarrow> bool"
  os_race :: "nat \<Rightarrow> race"
  os_pages :: nat

record 'b object_state =
  ob_backend :: 'b
  ob_steps :: nat

type_synonym ('b, 'a) object_op = "('b object_state, storage_error, 'a) sresult"

text \<open>The check of the token every operation starts with, and one request.\<close>

definition unless_cancelled :: "'b object_storage \<Rightarrow> ('b, 'a) object_op \<Rightarrow> ('b, 'a) object_op" where
  "unless_cancelled os f s =
     (if os_cancelled os (ob_steps s) then (s\<lparr>ob_steps := Suc (ob_steps s)\<rparr>, Inl StorageCancelled)
      else f (s\<lparr>ob_steps := Suc (ob_steps s)\<rparr>))"

definition request :: "('b, storage_error, 'a) sresult \<Rightarrow> ('b, 'a) object_op" where
  "request f s = (case f (ob_backend s) of (b, r) \<Rightarrow> (s\<lparr>ob_backend := b\<rparr>, r))"

definition retried :: "'b object_storage \<Rightarrow> ('b, ('a, storage_error) retry_step) object_op \<Rightarrow> ('b, 'a) object_op" where
  "retried os h s =
     retry storage_retry_error (os_retrier os) (race_against (os_race os (ob_steps s)) h) h (s\<lparr>ob_steps := Suc (ob_steps s)\<rparr>)"

section \<open>Operations\<close>

definition serialize_job :: "'b object_storage \<Rightarrow> job \<Rightarrow> storage_error + object_body" where
  "serialize_job os j = cd_serialize (os_codec os) (from_job (os_externs os) j)"

definition deserialize_job :: "'b object_storage \<Rightarrow> object_body \<Rightarrow> object_version \<Rightarrow> storage_error + job" where
  "deserialize_job os body ver =
     bindR (cd_deserialize (os_codec os) body) (\<lambda>sj.
     bindR (map_err (\<lambda>e. Serialization (error_display e)) (get_job (sj_code sj) (os_registry os))) (\<lambda>jd.
     Inr (into_job (os_externs os) (jd_max_iterations jd) (jd_iteration_interval jd) (jd_task_limits jd) ver sj)))"

definition build_listing_start_key :: "'b object_storage \<Rightarrow> job_code \<Rightarrow> u64 \<Rightarrow> storage_error + object_key" where
  "build_listing_start_key os c boundary = (case be_listing_start_bound (os_store os) of
      Inclusive \<Rightarrow> Inr (build_job_iteration_path (os_keys os) c boundary)
    | Exclusive \<Rightarrow>
        if boundary = - 1 then Inl (StorageOther ''Retention boundary has no next iteration'')
        else Inr (build_job_iteration_path (os_keys os) c (boundary + 1)))"

definition obj_get_job_by_meta :: "'b object_storage \<Rightarrow> job_meta \<Rightarrow> ('b, job) object_op" where
  "obj_get_job_by_meta os m = unless_cancelled os
     (bindS (request (be_get_object (os_store os)
               (build_job_iteration_path (os_keys os) (jm_code m) (jm_iter_num m)) (jm_version m)))
       (\<lambda>body s. (s, deserialize_job os body (jm_version m))))"

definition newest_of :: "'b object_storage \<Rightarrow> job_code \<Rightarrow> listed_page \<Rightarrow> storage_error + job_meta" where
  "newest_of os c page = (case lp_objects page of
      [] \<Rightarrow> Inl (NotFound ''No job state objects found for requested job'')
    | newest # _ \<Rightarrow> (case lo_version newest of
        None \<Rightarrow> Inl (Backend (''Listing named job state object '' @ lo_key newest @ '' without a version''))
      | Some ver \<Rightarrow> bindR (parse_iter_num (os_keys os) (lo_key newest)) (\<lambda>n.
          Inr \<lparr>jm_code = c, jm_iter_num = n, jm_version = ver\<rparr>)))"

definition newest_request :: "'b object_storage \<Rightarrow> job_code \<Rightarrow> listing_request" where
  "newest_request os c =
     \<lparr>lr_prefix = build_job_prefix (os_keys os) c, lr_start_key = None, lr_page_size = 1, lr_cursor = None\<rparr>"

definition obj_find_job_meta :: "'b object_storage \<Rightarrow> job_code \<Rightarrow> ('b, job_meta) object_op" where
  "obj_find_job_meta os c = unless_cancelled os
     (bindS (request (be_list_objects (os_store os) (newest_request os c))) (\<lambda>page s. (s, newest_of os c page)))"

definition obj_get_changed_job :: "'b object_storage \<Rightarrow> job_meta \<Rightarrow> ('b, job option) object_op" where
  "obj_get_changed_job os m = unless_cancelled os
     (bindS (request (be_get_changed_object (os_store os)
               (build_job_iteration_path (os_keys os) (jm_code m) (jm_iter_num m)) (jm_version m)))
       (\<lambda>found s. (s, case found of
           None \<Rightarrow> Inr None
         | Some (ver, body) \<Rightarrow> bindR (deserialize_job os body ver) (\<lambda>j. Inr (Some j)))))"

definition read_attempt :: "'b object_storage \<Rightarrow> job_code \<Rightarrow> ('b, (job, storage_error) retry_step) object_op" where
  "read_attempt os c s = (case obj_find_job_meta os c s of
      (s', Inl e) \<Rightarrow> (s', into_retry_step e)
    | (s', Inr m) \<Rightarrow> (case obj_get_job_by_meta os m s' of
        (s'', Inr j) \<Rightarrow> (s'', Inr (Done j))
      | (s'', Inl e) \<Rightarrow> (s'', if is_retryable e \<or> is_conflict e then Inr (Retry e) else Inl e)))"

definition obj_get_job :: "'b object_storage \<Rightarrow> job_code \<Rightarrow> ('b, job) object_op" where
  "obj_get_job os c = unless_cancelled os (retried os (read_attempt os c))"

definition write_attempt ::
  "'b object_storage \<Rightarrow> object_key \<Rightarrow> object_body \<Rightarrow> put_condition \<Rightarrow>
   ('b, (object_version, storage_error) retry_step) object_op" where
  "write_attempt os key body cond s = (case request (be_put_object (os_store os) key body cond) s of
      (s', Inr ver) \<Rightarrow> (s', Inr (Done ver))
    | (s', Inl e) \<Rightarrow> (s', if is_retryable e then Inr (Retry e) else Inl e))"

definition write_condition :: "job \<Rightarrow> put_condition" where
  "write_condition j = (if version j = [] then CreateOnly else MatchVersion (version j))"

definition obj_save_job :: "'b object_storage \<Rightarrow> job \<Rightarrow> 'b object_state \<Rightarrow> 'b object_state \<times> job \<times> (storage_error + unit)" where
  "obj_save_job os j s =
     (case unless_cancelled os (\<lambda>s. case serialize_job os j of
         Inl e \<Rightarrow> (s, Inl e)
       | Inr body \<Rightarrow> retried os (write_attempt os (build_job_iteration_path (os_keys os) (job_code j) (iter_num j))
           body (write_condition j)) s) s of
        (s', Inl e) \<Rightarrow> (s', j, Inl e)
      | (s', Inr ver) \<Rightarrow> (s', update_version ver j, Inr ()))"

text \<open>One page of a listing, as the loop over it keeps the outdated iterations, and the loop over the pages.\<close>

definition outdated_in :: "'b object_storage \<Rightarrow> u64 \<Rightarrow> listed_object list \<Rightarrow> u64 list" where
  "outdated_in os boundary listed =
     concat (map (\<lambda>obj. case parse_iter_num (os_keys os) (lo_key obj) of
         Inr n \<Rightarrow> if n \<le> boundary then [n] else [] | Inl e \<Rightarrow> []) listed)"

fun list_pages ::
  "'b object_storage \<Rightarrow> nat \<Rightarrow> string \<Rightarrow> object_key \<Rightarrow> u64 \<Rightarrow> u64 list \<Rightarrow> string option \<Rightarrow> ('b, u64 list) object_op" where
  "list_pages os 0 p start_key boundary found cursor s =
     (s, Inl (StorageOther ''listing is followed over no more pages''))"
| "list_pages os (Suc pages) p start_key boundary found cursor s =
     unless_cancelled os (bindS (request (be_list_objects (os_store os)
         \<lparr>lr_prefix = p, lr_start_key = Some start_key, lr_page_size = be_list_page_size (os_store os), lr_cursor = cursor\<rparr>))
       (\<lambda>page s. let found' = found @ outdated_in os boundary (lp_objects page) in
          case lp_next_cursor page of
            None \<Rightarrow> (s, Inr found')
          | Some next_cursor \<Rightarrow> list_pages os pages p start_key boundary found' (Some next_cursor) s)) s"

definition obj_list_job_outdated_iterations :: "'b object_storage \<Rightarrow> job_code \<Rightarrow> u64 \<Rightarrow> ('b, u64 list) object_op" where
  "obj_list_job_outdated_iterations os c boundary = unless_cancelled os (\<lambda>s.
     case build_listing_start_key os c boundary of
       Inl e \<Rightarrow> (s, Inl e)
     | Inr start_key \<Rightarrow> list_pages os (os_pages os) (build_job_prefix (os_keys os) c) start_key boundary [] None s)"

definition obj_delete_job_iterations :: "'b object_storage \<Rightarrow> job_code \<Rightarrow> u64 list \<Rightarrow> ('b, unit) object_op" where
  "obj_delete_job_iterations os c ns = unless_cancelled os (\<lambda>s.
     if ns = [] then (s, Inr ())
     else request (be_delete_objects (os_store os) (map (build_job_iteration_path (os_keys os) c) ns)) s)"

definition object_storage_ops :: "'b object_storage \<Rightarrow> 'b object_state storage" where
  "object_storage_ops os =
     \<lparr>st_get_job = obj_get_job os,
      st_get_job_by_meta = obj_get_job_by_meta os,
      st_find_job_meta = obj_find_job_meta os,
      st_get_changed_job = obj_get_changed_job os,
      st_save_job = obj_save_job os,
      st_list_job_outdated_iterations = obj_list_job_outdated_iterations os,
      st_delete_job_iterations = obj_delete_job_iterations os\<rparr>"

end
