(* ===== verification/JM_Object_Props.thy ===== *)
theory JM_Object_Props
  imports JM_Object
begin

text \<open>
  What the object storage guarantees over every provider that keeps the contract of \<^verbatim>\<open>JM_Backend\<close>,
  and whatever other instances do to the same bucket in between, as long as they too keep the newest
  iteration of every job.
\<close>

section \<open>The history of a job\<close>

definition stored_at :: "job_paths \<Rightarrow> (object_key \<Rightarrow> 'v option) \<Rightarrow> job_code \<Rightarrow> u64 \<Rightarrow> bool" where
  "stored_at p objs c n \<longleftrightarrow> objs (build_job_iteration_path p c n) \<noteq> None"

text \<open>A code that is one segment of a path, and a bucket that holds job states of such codes only.\<close>

definition plain_code :: "job_code \<Rightarrow> bool" where
  "plain_code c \<longleftrightarrow> CHR ''/'' \<notin> set c"

definition plain_keys :: "job_paths \<Rightarrow> (object_key \<Rightarrow> 'v option) \<Rightarrow> bool" where
  "plain_keys p objs \<longleftrightarrow> (\<forall>k. objs k \<noteq> None \<longrightarrow> (\<exists>c n. plain_code c \<and> k = build_job_iteration_path p c n))"

definition newest_kept :: "job_paths \<Rightarrow> (object_key \<Rightarrow> 'v option) \<Rightarrow> (object_key \<Rightarrow> 'v option) \<Rightarrow> bool" where
  "newest_kept p objs objs' \<longleftrightarrow> (\<forall>c n. stored_at p objs c n \<longrightarrow> (\<exists>m \<ge> n. stored_at p objs' c m))"

definition advances :: "job_paths \<Rightarrow> (object_key \<Rightarrow> 'v option) \<Rightarrow> (object_key \<Rightarrow> 'v option) \<Rightarrow> bool" where
  "advances p objs objs' \<longleftrightarrow> newest_kept p objs objs' \<and> (plain_keys p objs \<longrightarrow> plain_keys p objs')"

lemma advances_refl [simp]: "advances p objs objs"
  by (auto simp: advances_def newest_kept_def)

lemma advances_trans: "advances p a b \<Longrightarrow> advances p b c \<Longrightarrow> advances p a c"
  unfolding advances_def newest_kept_def by (meson order_trans)

lemma advances_put:
  assumes "plain_code c"
  shows "advances p objs (objs(build_job_iteration_path p c n \<mapsto> v))"
  using assms by (auto simp: advances_def newest_kept_def plain_keys_def stored_at_def)

text \<open>A listing under a plain prefix names keys of that job only.\<close>

lemma plain_split:
  "CHR ''/'' \<notin> set a \<Longrightarrow> CHR ''/'' \<notin> set b \<Longrightarrow> prefix (a @ ''/'') (b @ ''/'' @ r) \<Longrightarrow> a = b"
proof (induction a arbitrary: b)
  case Nil
  then show ?case by (cases b) auto
next
  case (Cons x a)
  then show ?case by (cases b) auto
qed

lemma plain_prefix:
  assumes "plain_code c" and "plain_keys p objs" and "objs k \<noteq> None" and "prefix (build_job_prefix p c) k"
  shows "\<exists>n. k = build_job_iteration_path p c n"
proof -
  from assms(2,3) obtain c' n where k: "plain_code c'" "k = build_job_iteration_path p c' n"
    unfolding plain_keys_def by blast
  with assms(4) have "prefix (c @ ''/'') (c' @ ''/'' @ JOB_STATE_FILE_PREFIX @ show_padded 20 (unat (- 1 - n)) @ file_extension p)"
    by (simp add: build_job_iteration_path_def build_job_prefix_def)
  with plain_split [of c c'] k(1) assms(1) have "c = c'" by (simp add: plain_code_def)
  with k(2) show ?thesis by blast
qed

lemma clears_kept:
  assumes "clears objects (build_job_iteration_path p c ` set ns) s s'"
    and "stored_at p (objects s) c m" and "\<And>n. n \<in> set ns \<Longrightarrow> n < m"
  shows "advances p (objects s) (objects s') \<and> stored_at p (objects s') c m"
proof -
  have kept: "stored_at p (objects s') c' n" if "stored_at p (objects s) c' n" "c' \<noteq> c \<or> n \<notin> set ns" for c' n
    using that assms(1) unfolding stored_at_def clears_def by (metis (no_types, lifting) built_path_inject imageE)
  have m: "stored_at p (objects s') c m" using kept assms(2,3) by blast
  have "\<exists>m' \<ge> n. stored_at p (objects s') c' m'" if "stored_at p (objects s) c' n" for c' n
  proof (cases "c' = c \<and> n \<in> set ns")
    case True
    with m assms(3) [of n] show ?thesis by (auto intro: exI [of _ m])
  next
    case False
    with kept that show ?thesis by (blast intro: order_refl)
  qed
  moreover have "objects s k \<noteq> None" if "objects s' k \<noteq> None" for k
    using that assms(1) unfolding clears_def by metis
  ultimately show ?thesis using m by (auto simp: advances_def newest_kept_def plain_keys_def)
qed

section \<open>Over a store that keeps its contract\<close>

locale shared_objects = object_store "os_store os" objects moved
  for os :: "'b object_storage" and objects :: "'b \<Rightarrow> object_key \<Rightarrow> (object_version \<times> object_body) option"
    and moved :: "'b \<Rightarrow> 'b \<Rightarrow> bool" +
  assumes rely: "moved s s' \<Longrightarrow> advances (os_keys os) (objects s) (objects s')"
    and extension: "extension_ok (file_extension (os_keys os))"
begin

definition adv :: "'b object_state \<Rightarrow> 'b object_state \<Rightarrow> bool" where
  "adv s s' \<longleftrightarrow> advances (os_keys os) (objects (ob_backend s)) (objects (ob_backend s'))"

definition held :: "'b object_state \<Rightarrow> job_code \<Rightarrow> u64 \<Rightarrow> bool" where
  "held s c n \<longleftrightarrow> stored_at (os_keys os) (objects (ob_backend s)) c n"

definition tidy :: "'b object_state \<Rightarrow> bool" where
  "tidy s \<longleftrightarrow> plain_keys (os_keys os) (objects (ob_backend s))"

lemma adv_refl [simp]: "adv s s"
  by (simp add: adv_def)

lemma adv_steps [simp]: "adv s (s'\<lparr>ob_steps := n\<rparr>) = adv s s'" "adv (s\<lparr>ob_steps := n\<rparr>) s' = adv s s'"
  by (simp_all add: adv_def)

lemma adv_trans: "adv a b \<Longrightarrow> adv b c \<Longrightarrow> adv a c"
  unfolding adv_def by (rule advances_trans)

lemma adv_tidy: "adv s s' \<Longrightarrow> tidy s \<Longrightarrow> tidy s'"
  by (simp add: adv_def tidy_def advances_def)

lemma adv_held: "adv s s' \<Longrightarrow> held s c n \<Longrightarrow> \<exists>m \<ge> n. held s' c m"
  by (simp add: adv_def held_def advances_def newest_kept_def)

lemma unless_cancelled_adv:
  assumes "\<And>s. adv s (fst (f s))"
  shows "adv s (fst (unless_cancelled os f s))"
proof -
  have "adv (s\<lparr>ob_steps := n\<rparr>) (fst (f (s\<lparr>ob_steps := n\<rparr>)))" for n by (rule assms)
  then show ?thesis by (simp add: unless_cancelled_def)
qed

lemma request_adv:
  assumes "\<And>b b' r. f b = (b', r) \<Longrightarrow> moved b b'"
  shows "adv s (fst (request f s))"
  using assms rely by (cases "f (ob_backend s)") (auto simp: request_def adv_def)

lemma bindS_adv:
  assumes "\<And>s. adv s (fst (f s))" and "\<And>a s. adv s (fst (g a s))"
  shows "adv s (fst (bindS f g s))"
proof (cases "f s")
  case (Pair s' r)
  with assms(1) [of s] have "adv s s'" by simp
  with Pair assms(2) [of s'] adv_trans show ?thesis by (cases r) (auto simp: bindS_def)
qed

lemmas read_moved = get_moved changed_moved list_moved

lemma find_adv: "adv s (fst (obj_find_job_meta os c s))"
  unfolding obj_find_job_meta_def by (intro unless_cancelled_adv bindS_adv request_adv) (auto dest: read_moved)

lemma list_pages_adv: "adv s (fst (list_pages os pages p start_key boundary found cursor s))"
proof (induction pages arbitrary: found cursor s)
  case 0
  then show ?case by simp
next
  case (Suc pages)
  then show ?case
    unfolding list_pages.simps
    by (intro unless_cancelled_adv bindS_adv request_adv) (auto dest: read_moved simp: Let_def split: option.splits)
qed

lemma list_adv: "adv s (fst (obj_list_job_outdated_iterations os c boundary s))"
  unfolding obj_list_job_outdated_iterations_def
  by (intro unless_cancelled_adv) (auto simp: list_pages_adv split: sum.splits)

text \<open>The newest iteration is the one the listing names first.\<close>

lemma find_lists:
  assumes "obj_find_job_meta os c s = (s', r)" and "r \<noteq> Inl StorageCancelled"
  obtains q where "be_list_objects (os_store os) (newest_request os c) (ob_backend s) = (ob_backend s', q)"
    "r = (case q of Inl e \<Rightarrow> Inl e | Inr page \<Rightarrow> newest_of os c page)"
proof -
  obtain b q where l: "be_list_objects (os_store os) (newest_request os c) (ob_backend s) = (b, q)" by fastforce
  with assms have "b = ob_backend s' \<and> r = (case q of Inl e \<Rightarrow> Inl e | Inr page \<Rightarrow> newest_of os c page)"
    by (auto simp: obj_find_job_meta_def unless_cancelled_def bindS_def request_def split: if_splits sum.splits)
  with l that show thesis by blast
qed

lemmas first_listed = list_first [where p = "build_job_prefix (os_keys os) c" for c, folded newest_request_def]

lemma find_newest:
  assumes f: "obj_find_job_meta os c s = (s', Inr m)" and c: "plain_code c" and "tidy s"
  shows "jm_code m = c \<and> (\<exists>body. objects (ob_backend s') (build_job_iteration_path (os_keys os) c (jm_iter_num m)) =
      Some (jm_version m, body)) \<and> (\<forall>n. held s' c n \<longrightarrow> n \<le> jm_iter_num m)"
proof -
  let ?p = "build_job_prefix (os_keys os) c" and ?path = "build_job_iteration_path (os_keys os) c"
  obtain page where l: "be_list_objects (os_store os) (newest_request os c) (ob_backend s) = (ob_backend s', Inr page)"
    and n: "newest_of os c page = Inr m"
    by (rule find_lists [OF f]) (auto split: sum.splits)
  from n obtain o1 rest v k where o1: "lp_objects page = o1 # rest" "lo_version o1 = Some v"
    "parse_iter_num (os_keys os) (lo_key o1) = Inr k" "m = \<lparr>jm_code = c, jm_iter_num = k, jm_version = v\<rparr>"
    by (auto simp: newest_of_def bindR_Inr_iff split: list.splits option.splits)
  from first_listed [OF l] o1(1,2) obtain body where key: "prefix ?p (lo_key o1)"
    "objects (ob_backend s') (lo_key o1) = Some (v, body)"
    "\<And>k. prefix ?p k \<Longrightarrow> objects (ob_backend s') k \<noteq> None \<Longrightarrow> lo_key o1 \<le> k" by auto
  have "tidy s'" using find_adv [of s c] f assms(3) adv_tidy by simp
  with plain_prefix [OF c _ _ key(1)] key(2) obtain j where j: "lo_key o1 = ?path j" by (auto simp: tidy_def)
  with o1(3) parse_built_path [OF extension] have "j = k" by simp
  moreover have "n \<le> k" if "held s' c n" for n
    using key(3) [OF prefix_built_path, of n] that j \<open>j = k\<close> built_path_less [of "os_keys os" c n k]
    by (auto simp: held_def stored_at_def not_less [symmetric])
  ultimately show ?thesis using o1(4) j key(2) by auto
qed

lemma find_none:
  assumes "obj_find_job_meta os c s = (s', Inl (NotFound e))"
    and provider: "\<And>req b b' e. be_list_objects (os_store os) req b \<noteq> (b', Inl (NotFound e))"
  shows "\<not> held s' c n"
proof -
  obtain page where l: "be_list_objects (os_store os) (newest_request os c) (ob_backend s) = (ob_backend s', Inr page)"
    and n: "newest_of os c page = Inl (NotFound e)"
    by (rule find_lists [OF assms(1)]) (use provider in \<open>auto split: sum.splits\<close>)
  have "parse_iter_num (os_keys os) k \<noteq> Inl (NotFound e)" for k
    by (auto simp: parse_iter_num_def Let_def split: if_splits option.splits)
  with n have "lp_objects page = []"
    by (auto simp: newest_of_def bindR_Inl_iff split: list.splits option.splits)
  with first_listed [OF l] prefix_built_path show ?thesis by (auto simp: held_def stored_at_def)
qed

text \<open>A listing answers iterations up to its boundary only, whatever the provider lists.\<close>

lemma list_pages_bounded:
  assumes "list_pages os pages p start_key boundary found cursor s = (s', Inr ns)" and "\<forall>n \<in> set found. n \<le> boundary"
  shows "\<forall>n \<in> set ns. n \<le> boundary"
  using assms
proof (induction pages arbitrary: found cursor s)
  case 0
  then show ?case by simp
next
  case (Suc pages)
  have "\<forall>n \<in> set (found @ outdated_in os boundary listed). n \<le> boundary" for listed
    using Suc.prems(2) by (auto simp: outdated_in_def split: sum.splits if_splits)
  with Suc.prems(1) Suc.IH show ?case
    by (auto simp: unless_cancelled_def bindS_Inr_iff Let_def split: if_splits option.splits)
qed

lemma list_bounded:
  "obj_list_job_outdated_iterations os c boundary s = (s', Inr ns) \<Longrightarrow> \<forall>n \<in> set ns. n \<le> boundary"
  by (auto simp: obj_list_job_outdated_iterations_def unless_cancelled_def list_pages_bounded split: if_splits sum.splits
      dest!: list_pages_bounded)

text \<open>A delete of iterations below a stored one keeps the newest, however far it came.\<close>

definition above :: "job_code \<Rightarrow> u64 list \<Rightarrow> 'b object_state \<Rightarrow> bool" where
  "above c ns s \<longleftrightarrow> (\<exists>m. held s c m \<and> (\<forall>n \<in> set ns. n < m))"

lemma above_adv: "adv s s' \<Longrightarrow> above c ns s \<Longrightarrow> above c ns s'"
  unfolding above_def using adv_held by (meson less_le_trans)

lemma delete_chain:
  assumes "(\<lambda>a b. moved a b \<or> clears objects (build_job_iteration_path (os_keys os) c ` set ns) a b)\<^sup>*\<^sup>* b b'"
    and "stored_at (os_keys os) (objects b) c m" and "\<And>n. n \<in> set ns \<Longrightarrow> n < m"
  shows "advances (os_keys os) (objects b) (objects b') \<and> (\<exists>m' \<ge> m. stored_at (os_keys os) (objects b') c m')"
  using assms(1)
proof (induction rule: rtranclp_induct)
  case base
  then show ?case using assms(2) by auto
next
  case (step b1 b2)
  then obtain m' where m': "m' \<ge> m" "stored_at (os_keys os) (objects b1) c m'" by blast
  have below: "\<And>n. n \<in> set ns \<Longrightarrow> n < m'" using assms(3) m'(1) by (meson less_le_trans)
  from step.hyps(2) show ?case
  proof
    assume "moved b1 b2"
    then have a: "advances (os_keys os) (objects b1) (objects b2)" by (rule rely)
    then obtain m2 where "m2 \<ge> m'" "stored_at (os_keys os) (objects b2) c m2"
      using m'(2) unfolding advances_def newest_kept_def by blast
    with a m'(1) step.IH show ?thesis by (meson advances_trans order_trans)
  next
    assume "clears objects (build_job_iteration_path (os_keys os) c ` set ns) b1 b2"
    with clears_kept [OF this m'(2) below] m'(1) step.IH show ?thesis by (meson advances_trans)
  qed
qed

lemma delete_adv:
  assumes "above c ns s"
  shows "adv s (fst (obj_delete_job_iterations os c ns s))"
proof -
  let ?f = "\<lambda>s. if ns = [] then (s, Inr ()) else
      request (be_delete_objects (os_store os) (map (build_job_iteration_path (os_keys os) c) ns)) s"
  have "adv t (fst (?f t))" if "above c ns t" for t
  proof (cases "ns = []")
    case False
    from that obtain m where m: "stored_at (os_keys os) (objects (ob_backend t)) c m" "\<And>n. n \<in> set ns \<Longrightarrow> n < m"
      by (auto simp: above_def held_def)
    obtain b q where d: "be_delete_objects (os_store os) (map (build_job_iteration_path (os_keys os) c) ns) (ob_backend t) = (b, q)"
      by fastforce
    have "advances (os_keys os) (objects (ob_backend t)) (objects b)"
      by (rule conjunct1 [OF delete_chain [OF _ m]]) (use delete_clears [OF d] in simp)
    with False d show ?thesis by (simp add: request_def adv_def)
  qed simp
  moreover have "above c ns (s\<lparr>ob_steps := k\<rparr>)" for k using assms by (simp add: above_def held_def)
  ultimately show ?thesis
    by (auto simp: obj_delete_job_iterations_def unless_cancelled_def split: if_splits) (metis adv_steps(2))+
qed

end

end
