(* ===== verification/JM_Cleaner.thy ===== *)
theory JM_Cleaner
  imports JM_Object_Props
begin

text \<open>
  \<^verbatim>\<open>execution/job_cleaner.rs\<close>: the deletion of iterations that fell out of the retention window of their
  job, and that it never deletes the newest one, over every object store that keeps its contract.
  Both loops of \<^verbatim>\<open>JobCleaner::start\<close> run concurrently; each sees the requests of the other among
  the moves of the store. The answers of the token and the races of the retry loop are inputs.
\<close>

section \<open>The cleaner\<close>

record job_cleaner_config =
  cleaner_enabled :: bool
  cleaner_retrier_config :: retrier_config

definition job_cleaner_config_default :: job_cleaner_config where
  "job_cleaner_config_default =
     \<lparr>cleaner_enabled = True,
      cleaner_retrier_config = \<lparr>max_attempts_cfg = 3, rand_delay = millis 50, delays = [millis 50, millis 300, secs 2]\<rparr>\<rparr>"

record job_iteration_started =
  js_job_code :: job_code
  js_iter_num :: u64

record 's job_cleaner =
  jc_registry :: job_registry
  jc_storage :: "'s storage"
  jc_retrier :: retrier_config
  jc_cancelled :: "nat \<Rightarrow> bool"
  jc_race :: "nat \<Rightarrow> race"

record 's cleaner_state =
  cs_store :: 's
  cs_steps :: nat

type_synonym ('s, 'a) cleaner_op = "('s cleaner_state, internal_error, 'a) sresult"

definition job_cleaner_new ::
  "job_registry \<Rightarrow> 's storage \<Rightarrow> job_cleaner_config \<Rightarrow> (nat \<Rightarrow> bool) \<Rightarrow> (nat \<Rightarrow> race) \<Rightarrow> 's job_cleaner" where
  "job_cleaner_new r st cfg cancelled races =
     \<lparr>jc_registry = r, jc_storage = st, jc_retrier = cleaner_retrier_config cfg, jc_cancelled = cancelled, jc_race = races\<rparr>"

definition call_attempt :: "('s, storage_error, 'a) sresult \<Rightarrow> ('s, ('a, internal_error) retry_step) cleaner_op" where
  "call_attempt call s = (case call (cs_store s) of
      (st, Inr v) \<Rightarrow> (s\<lparr>cs_store := st\<rparr>, Inr (Done v))
    | (st, Inl e) \<Rightarrow>
        (s\<lparr>cs_store := st\<rparr>, if is_retryable e then Inr (Retry (internal_of_storage e)) else Inl (internal_of_storage e)))"

definition retry_storage_call :: "'s job_cleaner \<Rightarrow> ('s, storage_error, 'a) sresult \<Rightarrow> ('s, 'a) cleaner_op" where
  "retry_storage_call cl call s =
     retry internal_retry_error (jc_retrier cl) (race_against (jc_race cl (cs_steps s)) (call_attempt call))
       (call_attempt call) (s\<lparr>cs_steps := Suc (cs_steps s)\<rparr>)"

definition retention_boundary_of :: "'s job_cleaner \<Rightarrow> job_code \<Rightarrow> u64 \<Rightarrow> u64 option" where
  "retention_boundary_of cl c n = (case get_job c (jc_registry cl) of
      Inr jd \<Rightarrow> calculate_retention_boundary jd n | Inl e \<Rightarrow> None)"

definition delete_iteration :: "'s job_cleaner \<Rightarrow> job_iteration_started \<Rightarrow> ('s, unit) cleaner_op" where
  "delete_iteration cl message s = (case retention_boundary_of cl (js_job_code message) (js_iter_num message) of
      None \<Rightarrow> (s, Inr ())
    | Some boundary \<Rightarrow>
        retry_storage_call cl (st_delete_job_iterations (jc_storage cl) (js_job_code message) [boundary]) s)"

definition delete_outdated_iterations :: "'s job_cleaner \<Rightarrow> job_code \<Rightarrow> ('s, nat) cleaner_op" where
  "delete_outdated_iterations cl c s = (case retry_storage_call cl (st_find_job_meta (jc_storage cl) c) s of
      (s1, Inl (InternalStorage (NotFound e))) \<Rightarrow> (s1, Inr 0)
    | (s1, Inl e) \<Rightarrow> (s1, Inl e)
    | (s1, Inr m) \<Rightarrow> (case retention_boundary_of cl c (jm_iter_num m) of
        None \<Rightarrow> (s1, Inr 0)
      | Some boundary \<Rightarrow> bindS (retry_storage_call cl (st_list_job_outdated_iterations (jc_storage cl) c boundary)) (\<lambda>ns.
          if ns = [] then returnS 0
          else bindS (retry_storage_call cl (st_delete_job_iterations (jc_storage cl) c ns)) (\<lambda>_.
            returnS (length ns))) s1))"

fun reconcile_jobs :: "'s job_cleaner \<Rightarrow> job_code list \<Rightarrow> 's cleaner_state \<Rightarrow> 's cleaner_state" where
  "reconcile_jobs cl [] s = s"
| "reconcile_jobs cl (c # cs) s =
     (if jc_cancelled cl (cs_steps s) then s
      else case delete_outdated_iterations cl c (s\<lparr>cs_steps := Suc (cs_steps s)\<rparr>) of
          (s', Inl InternalCancelled) \<Rightarrow> s'
        | (s', _) \<Rightarrow> reconcile_jobs cl cs s')"

definition reconcile_registry_jobs :: "'s job_cleaner \<Rightarrow> 's cleaner_state \<Rightarrow> 's cleaner_state" where
  "reconcile_registry_jobs cl s = reconcile_jobs cl (list_jobs (jc_registry cl)) s"

text \<open>The messages are those the channel hands over until its senders are gone.\<close>

fun process_iteration_messages :: "'s job_cleaner \<Rightarrow> job_iteration_started list \<Rightarrow> 's cleaner_state \<Rightarrow> 's cleaner_state" where
  "process_iteration_messages cl [] s = s"
| "process_iteration_messages cl (message # rest) s =
     (if jc_cancelled cl (cs_steps s) then s
      else case delete_iteration cl message (s\<lparr>cs_steps := Suc (cs_steps s)\<rparr>) of
          (s', Inl InternalCancelled) \<Rightarrow> s'
        | (s', _) \<Rightarrow> process_iteration_messages cl rest s')"

section \<open>The newest iteration stays\<close>

text \<open>Retention is at least one iteration, so a boundary lies below the iteration it was computed for.\<close>

lemma boundary_below:
  assumes "calculate_retention_boundary jd n = Some b" and "iteration_retention jd \<noteq> 0"
  shows "b < n"
proof -
  from assms(1) have b: "b = n - iteration_retention jd" "iteration_retention jd \<le> n"
    by (auto simp: calculate_retention_boundary_def not_less split: if_splits)
  have "0 < unat (iteration_retention jd)" using assms(2) by (simp add: unat_gt_0)
  with b show ?thesis by (simp add: word_less_nat_alt word_le_nat_alt unat_sub)
qed

locale cleaner_on_objects = shared_objects os objects moved
  for os :: "'b object_storage" and objects :: "'b \<Rightarrow> object_key \<Rightarrow> (object_version \<times> object_body) option"
    and moved :: "'b \<Rightarrow> 'b \<Rightarrow> bool" +
  fixes cl :: "'b object_state job_cleaner"
  assumes storage: "jc_storage cl = object_storage_ops os"
    and retention: "get_job c (jc_registry cl) = Inr jd \<Longrightarrow> iteration_retention jd \<noteq> 0"
    and codes: "get_job c (jc_registry cl) = Inr jd \<Longrightarrow> plain_code c"
begin

lemma boundary_of_below: "retention_boundary_of cl c n = Some b \<Longrightarrow> b < n \<and> plain_code c"
  using boundary_below retention codes by (auto simp: retention_boundary_of_def split: sum.splits)

lemma ops [simp]:
  "st_find_job_meta (jc_storage cl) = obj_find_job_meta os"
  "st_list_job_outdated_iterations (jc_storage cl) = obj_list_job_outdated_iterations os"
  "st_delete_job_iterations (jc_storage cl) = obj_delete_job_iterations os"
  by (simp_all add: storage object_storage_ops_def)

definition cadv :: "'b object_state cleaner_state \<Rightarrow> 'b object_state cleaner_state \<Rightarrow> bool" where
  "cadv s s' \<longleftrightarrow> adv (cs_store s) (cs_store s')"

lemma cadv_refl [simp]: "cadv s s"
  by (simp add: cadv_def)

lemma cadv_trans: "cadv a b \<Longrightarrow> cadv b c \<Longrightarrow> cadv a c"
  unfolding cadv_def by (rule adv_trans)

lemma attempt_store: "cs_store (fst (call_attempt call s)) = fst (call (cs_store s))"
  by (auto simp: call_attempt_def split: prod.splits sum.splits)

text \<open>A retried call does to the store what its attempts do, from every state a condition holds in.\<close>

lemma retried_call:
  assumes "P (cs_store s)" and "\<And>s. P s \<Longrightarrow> adv s (fst (call s))" and "\<And>s s'. adv s s' \<Longrightarrow> P s \<Longrightarrow> P s'"
  shows "cadv s (fst (retry_storage_call cl call s))"
proof -
  let ?R = "\<lambda>s s'. P (cs_store s) \<longrightarrow> cadv s s' \<and> P (cs_store s')"
  let ?s = "s\<lparr>cs_steps := Suc (cs_steps s)\<rparr>"
  have step: "?R t (fst (call_attempt call t))" for t
    using assms(2,3) by (auto simp: cadv_def attempt_store)
  have refl: "reflp ?R" by (rule reflpI) simp
  have trans: "transp ?R" by (rule transpI) (metis cadv_trans)
  have "?R ?s (fst (retry_storage_call cl call s))"
    unfolding retry_storage_call_def retry_def by (rule retry_related [OF refl trans step])
  with assms(1) show ?thesis by (simp add: cadv_def)
qed

lemma retried_answer:
  assumes "retry_storage_call cl call s = (s', Inr v)" and "P (cs_store s)"
    and "\<And>s s' q. P s \<Longrightarrow> call s = (s', q) \<Longrightarrow> P s'"
  shows "\<exists>st. P st \<and> call st = (cs_store s', Inr v)"
proof -
  have run: "retry_from internal_retry_error (jc_retrier cl) (race_against (jc_race cl (cs_steps s)) (call_attempt call))
      (call_attempt call) 0 (s\<lparr>cs_steps := Suc (cs_steps s)\<rparr>) = (s', Inr v)"
    using assms(1) by (simp add: retry_storage_call_def retry_def)
  have "\<exists>s0. P (cs_store s0) \<and> call_attempt call s0 = (s', Inr (Done v))"
  proof (rule retry_invariant [OF _ _ run])
    show "P (cs_store (s\<lparr>cs_steps := Suc (cs_steps s)\<rparr>))" using assms(2) by simp
    show "P (cs_store t')" if "P (cs_store t)" "call_attempt call t = (t', Inr (Retry cause))" for t t' cause
      using that assms(3) attempt_store [of call t] by (metis fst_conv prod.collapse)
  qed
  then obtain s0 where s0: "P (cs_store s0)" "call_attempt call s0 = (s', Inr (Done v))" by blast
  from s0(2) have "call (cs_store s0) = (cs_store s', Inr v)"
    by (auto simp: call_attempt_def split: prod.splits sum.splits if_splits)
  with s0(1) show ?thesis by blast
qed

lemma delete_kept:
  assumes "above c ns (cs_store s)"
  shows "cadv s (fst (retry_storage_call cl (obj_delete_job_iterations os c ns) s))"
  by (rule retried_call [where P = "above c ns"]) (use assms delete_adv above_adv in auto)

lemma delete_iteration_kept:
  assumes "held (cs_store s) (js_job_code message) m" and "js_iter_num message \<le> m"
  shows "cadv s (fst (delete_iteration cl message s))"
proof (cases "retention_boundary_of cl (js_job_code message) (js_iter_num message)")
  case (Some b)
  with boundary_of_below have "b < js_iter_num message" by blast
  with assms have "above (js_job_code message) [b] (cs_store s)" unfolding above_def by fastforce
  from delete_kept [OF this] Some show ?thesis by (simp add: delete_iteration_def)
qed (simp add: delete_iteration_def)

lemma found_above:
  assumes "retry_storage_call cl (obj_find_job_meta os c) s = (s', Inr m)" and "tidy (cs_store s)" and "plain_code c"
  shows "held (cs_store s') c (jm_iter_num m)"
proof -
  have keep: "tidy t'" if "tidy t" "obj_find_job_meta os c t = (t', q)" for t t' q
    using that find_adv [of t c] adv_tidy by simp
  from retried_answer [OF assms(1), where P = tidy] assms(2) keep obtain st where
    "tidy st" "obj_find_job_meta os c st = (cs_store s', Inr m)" by blast
  from find_newest [OF this(2) assms(3) this(1)] show ?thesis by (auto simp: held_def stored_at_def)
qed

lemma delete_outdated_kept:
  assumes "tidy (cs_store s)"
  shows "cadv s (fst (delete_outdated_iterations cl c s))"
proof -
  obtain s1 q where f: "retry_storage_call cl (obj_find_job_meta os c) s = (s1, q)" by fastforce
  have a1: "cadv s s1" using retried_call [where P = "\<lambda>_. True" and call = "obj_find_job_meta os c" and s = s] find_adv f by simp
  show ?thesis
  proof (cases "\<exists>m b. q = Inr m \<and> retention_boundary_of cl c (jm_iter_num m) = Some b")
    case False
    with a1 f show ?thesis
      by (auto simp: delete_outdated_iterations_def split: sum.splits internal_error.splits storage_error.splits option.splits)
  next
    case True
    then obtain m b where m: "q = Inr m" "retention_boundary_of cl c (jm_iter_num m) = Some b" by blast
    with boundary_of_below have b: "b < jm_iter_num m" "plain_code c" by blast+
    have h: "held (cs_store s1) c (jm_iter_num m)" by (rule found_above [OF _ assms b(2)]) (use f m in simp)
    obtain s2 r where l: "retry_storage_call cl (obj_list_job_outdated_iterations os c b) s1 = (s2, r)" by fastforce
    have a2: "cadv s1 s2"
      using retried_call [where P = "\<lambda>_. True" and call = "obj_list_job_outdated_iterations os c b" and s = s1] list_adv l by simp
    have above2: "above c ns (cs_store s2)" if "r = Inr ns" for ns
    proof -
      from retried_answer [of "obj_list_job_outdated_iterations os c b" s1 s2 ns "\<lambda>_. True"] l that
      have "\<forall>n \<in> set ns. n \<le> b" by (auto dest: list_bounded)
      with b(1) h have "above c ns (cs_store s1)" unfolding above_def by fastforce
      with a2 above_adv show ?thesis by (simp add: cadv_def)
    qed
    have "cadv s2 (fst (retry_storage_call cl (obj_delete_job_iterations os c ns) s2))" if "r = Inr ns" for ns
      by (rule delete_kept [OF above2 [OF that]])
    with a1 a2 f m l show ?thesis
      by (cases r) (auto simp: delete_outdated_iterations_def bindS_def returnS_def split: prod.splits sum.splits intro: cadv_trans)
  qed
qed

lemma cadv_steps [simp]: "cadv (s\<lparr>cs_steps := n\<rparr>) s' = cadv s s'"
  by (simp add: cadv_def)

lemma cadv_tidy: "cadv s s' \<Longrightarrow> tidy (cs_store s) \<Longrightarrow> tidy (cs_store s')"
  unfolding cadv_def by (rule adv_tidy)

lemma reconcile_kept: "tidy (cs_store s) \<Longrightarrow> cadv s (reconcile_jobs cl cs s)"
proof (induction cs arbitrary: s)
  case (Cons c cs)
  let ?s = "s\<lparr>cs_steps := Suc (cs_steps s)\<rparr>"
  obtain s' q where d: "delete_outdated_iterations cl c ?s = (s', q)" by fastforce
  have a: "cadv s s'" using delete_outdated_kept [of ?s c] d Cons.prems by simp
  have "cadv s' (reconcile_jobs cl cs s')" using Cons cadv_tidy [OF a] by blast
  with a d show ?case by (auto split: sum.splits internal_error.splits intro: cadv_trans)
qed simp

definition reported :: "job_iteration_started list \<Rightarrow> 'b object_state cleaner_state \<Rightarrow> bool" where
  "reported messages s \<longleftrightarrow> (\<forall>message \<in> set messages. \<exists>m \<ge> js_iter_num message. held (cs_store s) (js_job_code message) m)"

lemma reported_cadv: "cadv s s' \<Longrightarrow> reported messages s \<Longrightarrow> reported messages s'"
  unfolding reported_def cadv_def using adv_held by (meson order_trans)

lemma process_kept: "reported messages s \<Longrightarrow> cadv s (process_iteration_messages cl messages s)"
proof (induction messages arbitrary: s)
  case (Cons message rest)
  let ?s = "s\<lparr>cs_steps := Suc (cs_steps s)\<rparr>"
  obtain s' q where d: "delete_iteration cl message ?s = (s', q)" by fastforce
  from Cons.prems obtain m where m: "held (cs_store ?s) (js_job_code message) m" "js_iter_num message \<le> m"
    by (auto simp: reported_def)
  have a: "cadv s s'" using delete_iteration_kept [OF m] d by simp
  have "reported rest s'" by (rule reported_cadv [OF a]) (use Cons.prems in \<open>simp add: reported_def\<close>)
  then have "cadv s' (process_iteration_messages cl rest s')" by (rule Cons.IH)
  with a d show ?case by (auto split: sum.splits internal_error.splits intro: cadv_trans)
qed simp

end

end
