(* ===== verification/JM_Bucket.thy ===== *)
theory JM_Bucket
  imports JM_Cleaner
begin

text \<open>
  A bucket with numbered versions and an ascending listing by pages, written to by other instances
  between two requests: an object store that keeps the contract, so the statements over that contract
  are about something. What the cleaner guarantees is stated here with its hypotheses written out.
\<close>

section \<open>A bucket\<close>

record bucket =
  bk_objects :: "(object_key \<times> object_version \<times> object_body) list"
  bk_counter :: nat
  bk_others :: "(job_code \<times> u64 \<times> object_body) list list"

definition bk_lookup :: "bucket \<Rightarrow> object_key \<Rightarrow> (object_version \<times> object_body) option" where
  "bk_lookup b = map_of (bk_objects b)"

definition bk_write :: "object_key \<Rightarrow> object_body \<Rightarrow> bucket \<Rightarrow> bucket" where
  "bk_write k body b = b\<lparr>bk_objects := AList.update k (show_nat (bk_counter b + 1), body) (bk_objects b),
     bk_counter := bk_counter b + 1\<rparr>"

text \<open>What another instance writes for a job names that job.\<close>

definition names_job :: "job_code \<Rightarrow> object_body \<Rightarrow> bool" where
  "names_job c body \<longleftrightarrow> takeWhile (\<lambda>x. x \<noteq> CHR ''@'') body = c"

definition bk_write_by_other :: "job_paths \<Rightarrow> job_code \<times> u64 \<times> object_body \<Rightarrow> bucket \<Rightarrow> bucket" where
  "bk_write_by_other p w b = (case w of (c, n, body) \<Rightarrow>
     if plain_code c \<and> names_job c body then bk_write (build_job_iteration_path p c n) body b else b)"

definition bk_arrive :: "job_paths \<Rightarrow> bucket \<Rightarrow> bucket" where
  "bk_arrive p b = (case bk_others b of
      [] \<Rightarrow> b | ws # rest \<Rightarrow> fold (bk_write_by_other p) ws (b\<lparr>bk_others := rest\<rparr>))"

definition bk_keys_after :: "listing_request \<Rightarrow> bucket \<Rightarrow> object_key list" where
  "bk_keys_after req b = sort (filter (\<lambda>k. prefix (lr_prefix req) k \<and>
     (case lr_start_key req of None \<Rightarrow> True | Some start_key \<Rightarrow> start_key \<le> k) \<and>
     (case lr_cursor req of None \<Rightarrow> True | Some cursor \<Rightarrow> cursor < k)) (remdups (map fst (bk_objects b))))"

definition bk_list :: "listing_request \<Rightarrow> bucket \<Rightarrow> listed_page" where
  "bk_list req b = (let ks = bk_keys_after req b; page = take (lr_page_size req) ks in
     \<lparr>lp_objects = map (\<lambda>k. \<lparr>lo_key = k, lo_version = map_option fst (bk_lookup b k)\<rparr>) page,
      lp_next_cursor = (if lr_page_size req < length ks \<and> page \<noteq> [] then Some (last page) else None)\<rparr>)"

definition bucket_backend :: "job_paths \<Rightarrow> bucket backend" where
  "bucket_backend p =
     \<lparr>be_listing_start_bound = Inclusive,
      be_list_page_size = 1000,
      be_put_object = (\<lambda>k body cond b. let b0 = bk_arrive p b in
        if condition_holds cond (bk_lookup b0 k) then (bk_write k body b0, Inr (show_nat (bk_counter b0 + 1)))
        else (b0, Inl (ConcurrentModification ''precondition failed''))),
      be_get_object = (\<lambda>k ver b. let b0 = bk_arrive p b in
        (b0, case bk_lookup b0 k of
          None \<Rightarrow> Inl (NotFound k)
        | Some (v, body) \<Rightarrow> if v = ver then Inr body else Inl (ConcurrentModification ''version mismatch''))),
      be_get_changed_object = (\<lambda>k ver b. let b0 = bk_arrive p b in
        (b0, case bk_lookup b0 k of
          None \<Rightarrow> Inl (NotFound k) | Some (v, body) \<Rightarrow> Inr (if v = ver then None else Some (v, body)))),
      be_list_objects = (\<lambda>req b. let b0 = bk_arrive p b in (b0, Inr (bk_list req b0))),
      be_delete_objects = (\<lambda>ks b. let b0 = bk_arrive p b in
        (b0\<lparr>bk_objects := filter (\<lambda>(k, _). k \<notin> set ks) (bk_objects b0)\<rparr>, Inr ()))\<rparr>"

definition bk_moved :: "job_paths \<Rightarrow> bucket \<Rightarrow> bucket \<Rightarrow> bool" where
  "bk_moved p b b' \<longleftrightarrow> advances p (bk_lookup b) (bk_lookup b') \<and>
     (\<forall>k v body. bk_lookup b' k = Some (v, body) \<longrightarrow> bk_lookup b k = Some (v, body) \<or>
        (\<exists>c n. k = build_job_iteration_path p c n \<and> names_job c body))"

lemma bk_moved_refl [simp]: "bk_moved p b b"
  by (simp add: bk_moved_def)

lemma bk_moved_trans: "bk_moved p a b \<Longrightarrow> bk_moved p b d \<Longrightarrow> bk_moved p a d"
  unfolding bk_moved_def using advances_trans by meson

lemma lookup_write [simp]: "bk_lookup (bk_write k body b) = (bk_lookup b)(k \<mapsto> (show_nat (bk_counter b + 1), body))"
  by (simp add: bk_lookup_def bk_write_def update_conv')

lemma others_move: "bk_moved p b (fold (bk_write_by_other p) ws b)"
proof (induction ws arbitrary: b)
  case (Cons w ws)
  have "bk_moved p b (bk_write_by_other p w b)"
    by (auto simp: bk_moved_def bk_write_by_other_def advances_put split: prod.splits if_splits)
  with Cons bk_moved_trans show ?case by (metis fold_simps(2))
qed simp

lemma arrive_moves: "bk_moved p b (bk_arrive p b)"
proof (cases "bk_others b")
  case Nil
  then show ?thesis by (simp add: bk_arrive_def)
next
  case (Cons ws rest)
  have "bk_lookup (b\<lparr>bk_others := rest\<rparr>) = bk_lookup b" by (simp add: bk_lookup_def)
  with others_move [of p "b\<lparr>bk_others := rest\<rparr>" ws] Cons show ?thesis by (simp add: bk_arrive_def bk_moved_def)
qed

lemma counted_real: "real_version (show_nat (n + 1))"
proof -
  have "CHR ''*'' \<notin> set (show_nat (n + 1))" using show_nat_digits [of "n + 1"] by (auto simp: is_digit_def)
  moreover have "show_nat 0 = ''0''" by code_simp
  then have "show_nat (n + 1) \<noteq> ''0''" by (metis show_nat_inject add_is_0 one_neq_zero)
  ultimately show ?thesis by (auto simp: real_version_def)
qed

lemma map_of_filter_keys: "map_of (filter (\<lambda>(k, _). k \<notin> S) xs) k = (if k \<in> S then None else map_of xs k)"
  by (induction xs) auto

lemma lookup_delete: "bk_lookup (b\<lparr>bk_objects := filter (\<lambda>(k, _). k \<notin> S) (bk_objects b)\<rparr>) k =
    (if k \<in> S then None else bk_lookup b k)"
  by (simp add: bk_lookup_def map_of_filter_keys)

lemma first_of_sorted: "xs \<noteq> [] \<Longrightarrow> hd (sort xs) \<in> set xs \<and> (\<forall>x \<in> set xs. hd (sort xs) \<le> x)"
  for xs :: "'a :: linorder list"
proof -
  assume "xs \<noteq> []"
  then obtain y ys where y: "sort xs = y # ys" by (cases "sort xs") (metis set_sort set_empty, blast)
  then have "sorted (y # ys)" "set (y # ys) = set xs" by (metis sorted_sort, metis set_sort)
  with y show ?thesis by auto
qed

lemma bk_list_first:
  "case lp_objects (bk_list \<lparr>lr_prefix = p, lr_start_key = None, lr_page_size = 1, lr_cursor = None\<rparr> b) of
     [] \<Rightarrow> \<forall>k. prefix p k \<longrightarrow> bk_lookup b k = None
   | o1 # _ \<Rightarrow> prefix p (lo_key o1) \<and> bk_lookup b (lo_key o1) \<noteq> None \<and>
       (\<forall>v. lo_version o1 = Some v \<longrightarrow> (\<exists>body. bk_lookup b (lo_key o1) = Some (v, body))) \<and>
       (\<forall>k. prefix p k \<and> bk_lookup b k \<noteq> None \<longrightarrow> lo_key o1 \<le> k)"
proof -
  let ?ks = "filter (prefix p) (remdups (map fst (bk_objects b)))"
  have mem: "k \<in> set ?ks \<longleftrightarrow> prefix p k \<and> bk_lookup b k \<noteq> None" for k
    by (auto simp: bk_lookup_def map_of_eq_None_iff)
  have ks: "bk_keys_after \<lparr>lr_prefix = p, lr_start_key = None, lr_page_size = 1, lr_cursor = None\<rparr> b = sort ?ks"
    by (simp add: bk_keys_after_def)
  show ?thesis
  proof (cases "?ks = []")
    case True
    have "bk_lookup b k = None" if "prefix p k" for k using mem [of k] that True by (cases "bk_lookup b k") auto
    with ks True show ?thesis by (simp add: bk_list_def)
  next
    case False
    then obtain k rest where k: "sort ?ks = k # rest" by (cases "sort ?ks") (metis set_sort set_empty, blast)
    with first_of_sorted [OF False] mem [of k] mem ks show ?thesis by (auto simp: bk_list_def)
  qed
qed

interpretation bucket: object_store "bucket_backend p" bk_lookup "bk_moved p"
proof unfold_locales
  show "\<exists>s0. bk_moved p s s0 \<and> condition_met cond (bk_lookup s0 k) \<and> real_version v \<and> bk_lookup s' = (bk_lookup s0)(k \<mapsto> (v, body))"
    if "be_put_object (bucket_backend p) k body cond s = (s', Inr v)" for k body cond s s' v
    using that arrive_moves [of p s] counted_real [of "bk_counter (bk_arrive p s)"] by (auto simp: condition_met_def bucket_backend_def Let_def split: if_splits)
  show "\<exists>s0. bk_moved p s s0 \<and> (bk_lookup s' = bk_lookup s0 \<or>
      (condition_met cond (bk_lookup s0 k) \<and> (\<exists>v. bk_lookup s' = (bk_lookup s0)(k \<mapsto> (v, body)))))"
    if "be_put_object (bucket_backend p) k body cond s = (s', Inl e)" for k body cond s s' e
    using that arrive_moves [of p s] by (auto simp: bucket_backend_def Let_def split: if_splits)
  show "bk_moved p s s'" if "be_get_object (bucket_backend p) k v s = (s', r)" for k v s s' r
    using that arrive_moves [of p s] by (auto simp: bucket_backend_def Let_def)
  show "\<exists>u. bk_lookup s' k = Some (u, body) \<and> (real_version v \<longrightarrow> u = v)" if "be_get_object (bucket_backend p) k v s = (s', Inr body)" for k v s s' body
    using that by (auto simp: bucket_backend_def Let_def split: option.splits if_splits)
  show "bk_moved p s s'" if "be_get_changed_object (bucket_backend p) k v s = (s', q)" for k v s s' q
    using that arrive_moves [of p s] by (auto simp: bucket_backend_def Let_def)
  show "bk_lookup s' k = Some (v', body)"
    if "be_get_changed_object (bucket_backend p) k v s = (s', Inr (Some (v', body)))" for k v s s' v' body
    using that by (auto simp: bucket_backend_def Let_def split: option.splits if_splits)
  show "\<exists>body. bk_lookup s' k = Some (v, body)"
    if "be_get_changed_object (bucket_backend p) k v s = (s', Inr None)" for k v s s'
    using that by (auto simp: bucket_backend_def Let_def split: option.splits if_splits)
  show "bk_moved p s s'" if "be_list_objects (bucket_backend p) req s = (s', lr)" for req s s' lr
    using that arrive_moves [of p s] by (auto simp: bucket_backend_def Let_def)
  show "case lp_objects page of [] \<Rightarrow> \<forall>k. prefix pre k \<longrightarrow> bk_lookup s' k = None
    | o1 # _ \<Rightarrow> prefix pre (lo_key o1) \<and> bk_lookup s' (lo_key o1) \<noteq> None \<and>
        (\<forall>v. lo_version o1 = Some v \<longrightarrow> (\<exists>body. bk_lookup s' (lo_key o1) = Some (v, body))) \<and>
        (\<forall>k. prefix pre k \<and> bk_lookup s' k \<noteq> None \<longrightarrow> lo_key o1 \<le> k)"
    if "be_list_objects (bucket_backend p) \<lparr>lr_prefix = pre, lr_start_key = None, lr_page_size = 1, lr_cursor = None\<rparr> s = (s', Inr page)"
    for pre s s' page
  proof -
    from that have "page = bk_list \<lparr>lr_prefix = pre, lr_start_key = None, lr_page_size = 1, lr_cursor = None\<rparr> s'"
      by (auto simp: bucket_backend_def Let_def)
    with bk_list_first [of pre s'] show ?thesis by (simp only:)
  qed
  show "(\<lambda>a b. bk_moved p a b \<or> clears bk_lookup (set keys) a b)\<^sup>*\<^sup>* s s'"
    if "be_delete_objects (bucket_backend p) keys s = (s', dr)" for keys s s' dr
  proof -
    from that have "s' = (bk_arrive p s)\<lparr>bk_objects := filter (\<lambda>(k, _). k \<notin> set keys) (bk_objects (bk_arrive p s))\<rparr>"
      by (simp add: bucket_backend_def Let_def)
    then have "clears bk_lookup (set keys) (bk_arrive p s) s'" by (simp add: clears_def lookup_delete)
    then show ?thesis using arrive_moves [of p s] by (intro converse_rtranclp_into_rtranclp [of _ s "bk_arrive p s"]) auto
  qed
qed

section \<open>What the object storage and the cleaner guarantee\<close>

lemma new_paths_extension: "extension_ok (file_extension (job_paths_new pre codec))"
  by (simp add: job_paths_new_def extension_of_ok)


text \<open>Codes with a slash overlap. The states of a job whose code extends another job's code by a path segment lie
  under that job's prefix and before its own states, and the number read from them is taken for its
  own newest iteration; so the plain codes the other statements ask for are needed.\<close>
lemma slash_code_shadows:
  "prefix (build_job_prefix (job_paths_new pre codec) c) (build_job_iteration_path (job_paths_new pre codec) (c @ ''/a'') n) \<and>
   build_job_iteration_path (job_paths_new pre codec) (c @ ''/a'') n < build_job_iteration_path (job_paths_new pre codec) c m \<and>
   newest_of (os\<lparr>os_keys := job_paths_new pre codec\<rparr>) c
     \<lparr>lp_objects = [\<lparr>lo_key = build_job_iteration_path (job_paths_new pre codec) (c @ ''/a'') n, lo_version = Some v\<rparr>],
      lp_next_cursor = None\<rparr> = Inr \<lparr>jm_code = c, jm_iter_num = n, jm_version = v\<rparr>"
proof -
  have "prefix (build_job_prefix (job_paths_new pre codec) c) (build_job_iteration_path (job_paths_new pre codec) (c @ ''/a'') n)"
    by (simp add: build_job_iteration_path_def build_job_prefix_def)
  moreover have "build_job_iteration_path (job_paths_new pre codec) (c @ ''/a'') n < build_job_iteration_path (job_paths_new pre codec) c m"
    by (simp add: build_job_iteration_path_def build_job_prefix_def append_less_same JOB_STATE_FILE_PREFIX_def less_char_def)
  ultimately show ?thesis by (simp add: newest_of_def parse_built_path new_paths_extension)
qed


lemma write_attempt_done:
  "write_attempt os k body cond s = (s', Inr (Done v)) \<Longrightarrow>
     be_put_object (os_store os) k body cond (ob_backend s) = (ob_backend s', Inr v)"
  by (auto simp: write_attempt_def request_def split: prod.splits sum.splits if_splits)


section \<open>An object storage on a bucket\<close>

definition sample_paths :: job_paths where
  "sample_paths = job_paths_new DEFAULT_STATE_PREFIX Json"

definition sample_codec :: job_state_codec where
  "sample_codec = \<lparr>cd_serialize = (\<lambda>sj. Inr (sj_code sj)), cd_deserialize = (\<lambda>_. Inl (Serialization ''unreadable''))\<rparr>"

definition bucket_storage :: "bucket object_storage" where
  "bucket_storage = \<lparr>os_store = bucket_backend sample_paths, os_keys = sample_paths, os_codec = sample_codec,
     os_registry = \<lparr>reg_jobs = [(''job'', sample_jd)], reg_executors = []\<rparr>,
     os_retrier = retrier_config_default, os_externs = std_externs, os_cancelled = (\<lambda>_. False), os_race = (\<lambda>_. no_race),
     os_pages = 100\<rparr>"

definition bucket_cleaner :: "bucket object_state job_cleaner" where
  "bucket_cleaner = job_cleaner_new \<lparr>reg_jobs = [(''job'', sample_jd)], reg_executors = []\<rparr>
     (object_storage_ops bucket_storage) job_cleaner_config_default (\<lambda>_. False) (\<lambda>_. no_race)"

lemma bucket_storage_fields [simp]:
  "os_store bucket_storage = bucket_backend sample_paths" "os_keys bucket_storage = sample_paths"
  "os_retrier bucket_storage = retrier_config_default" "os_cancelled bucket_storage n = False"
  "os_race bucket_storage n = no_race" "os_codec bucket_storage = sample_codec"
  by (simp_all add: bucket_storage_def)

lemma bucket_job: "get_job c (jc_registry bucket_cleaner) = Inr jd \<Longrightarrow> c = ''job'' \<and> jd = sample_jd"
  by (auto simp: bucket_cleaner_def job_cleaner_new_def get_job_def split: if_splits)

lemma sample_retention: "iteration_retention sample_jd \<noteq> 0"
  by (simp add: sample_jd_def DEFAULT_ITERATION_RETENTION_def)

lemma plain_job: "plain_code ''job''"
  by (simp add: plain_code_def)

lemma sample_extension: "extension_ok (file_extension sample_paths)"
  by (simp add: sample_paths_def new_paths_extension)

lemma sample_paths_new: "os_keys bucket_storage = job_paths_new DEFAULT_STATE_PREFIX Json"
  by (simp add: sample_paths_def)

lemma bucket_keeps_contract: "object_store (os_store bucket_storage) bk_lookup (bk_moved sample_paths)"
  using bucket.object_store_axioms [of sample_paths] by simp

lemma bucket_rely: "bk_moved sample_paths b b' \<Longrightarrow> advances (os_keys bucket_storage) (bk_lookup b) (bk_lookup b')"
  by (simp add: bk_moved_def)

lemma bucket_cleaner_storage: "jc_storage bucket_cleaner = object_storage_ops bucket_storage"
  by (simp add: bucket_cleaner_def job_cleaner_new_def)

interpretation bucket_objects: shared_objects bucket_storage bk_lookup "bk_moved sample_paths"
  by (rule shared_objects.intro [OF bucket_keeps_contract], unfold_locales)
    (use bucket_rely new_paths_extension in \<open>auto simp: sample_paths_def\<close>)

interpretation bucket_cleaning: cleaner_on_objects bucket_storage bk_lookup "bk_moved sample_paths" bucket_cleaner
  by (rule cleaner_on_objects.intro [OF bucket_objects.shared_objects_axioms], unfold_locales)
    (use bucket_job sample_retention plain_job bucket_cleaner_storage in auto)

definition sample_bucket :: bucket where
  "sample_bucket = bk_write (build_job_iteration_path sample_paths ''job'' 7) ''newest''
     (bk_write (build_job_iteration_path sample_paths ''job'' 1) ''oldest''
       \<lparr>bk_objects = [], bk_counter = 0, bk_others = [[(''job'', 8, ''job@newer'')]]\<rparr>)"

definition sample_bucket_state :: "bucket object_state cleaner_state" where
  "sample_bucket_state = \<lparr>cs_store = \<lparr>ob_backend = sample_bucket, ob_steps = 0\<rparr>, cs_steps = 0\<rparr>"

lemma sample_bucket_lookup: "bk_lookup sample_bucket = [build_job_iteration_path sample_paths ''job'' 1 \<mapsto> (show_nat 1, ''oldest''),
    build_job_iteration_path sample_paths ''job'' 7 \<mapsto> (show_nat 2, ''newest'')]"
  unfolding sample_bucket_def lookup_write by (simp add: bk_lookup_def bk_write_def numeral_2_eq_2)

lemma sample_bucket_plain: "plain_keys sample_paths (bk_lookup sample_bucket)"
  unfolding sample_bucket_lookup plain_keys_def using plain_job by (auto split: if_splits)

lemma sample_bucket_stored: "stored_at sample_paths (bk_lookup sample_bucket) ''job'' 7"
  by (simp add: stored_at_def sample_bucket_lookup)


lemma built_path_le: "build_job_iteration_path p code m \<le> build_job_iteration_path p code n \<longleftrightarrow> n \<le> m"
  using built_path_less [of p code n m] by (simp add: not_less [symmetric])

lemma sample_bucket_objects: "bk_objects (bk_arrive sample_paths sample_bucket) =
    [(build_job_iteration_path sample_paths ''job'' 1, show_nat 1, ''oldest''),
     (build_job_iteration_path sample_paths ''job'' 7, show_nat 2, ''newest''),
     (build_job_iteration_path sample_paths ''job'' 8, show_nat 3, ''job@newer'')]"
  by (simp add: sample_bucket_def bk_arrive_def bk_write_by_other_def bk_write_def plain_job names_job_def)

lemma sample_find: "obj_find_job_meta bucket_storage ''job'' (cs_store sample_bucket_state) =
    (\<lparr>ob_backend = bk_arrive sample_paths sample_bucket, ob_steps = 1\<rparr>,
     Inr \<lparr>jm_code = ''job'', jm_iter_num = 8, jm_version = show_nat 3\<rparr>)"
proof -
  have "bk_keys_after (newest_request bucket_storage ''job'') (bk_arrive sample_paths sample_bucket) =
      map (build_job_iteration_path sample_paths ''job'') [8, 7, 1]"
    by (simp add: bk_keys_after_def newest_request_def sample_bucket_objects prefix_built_path built_path_le)
      (simp add: word_le_nat_alt)
  then have "newest_of bucket_storage ''job'' (bk_list (newest_request bucket_storage ''job'') (bk_arrive sample_paths sample_bucket)) =
      Inr \<lparr>jm_code = ''job'', jm_iter_num = 8, jm_version = show_nat 3\<rparr>"
    using parse_built_path [of sample_paths "''job''" 8] sample_extension
    by (simp add: bk_list_def newest_of_def Let_def bk_lookup_def sample_bucket_objects newest_request_def)
  then show ?thesis
    by (simp add: obj_find_job_meta_def unless_cancelled_def bindS_def request_def sample_bucket_state_def
        bucket_backend_def Let_def)
qed


definition empty_bucket_state :: "bucket object_state" where
  "empty_bucket_state = \<lparr>ob_backend = \<lparr>bk_objects = [], bk_counter = 0, bk_others = []\<rparr>, ob_steps = 0\<rparr>"

lemma sample_object_save: "\<exists>s' j'. obj_save_job bucket_storage sample_job empty_bucket_state = (s', j', Inr ())"
  by (simp add: obj_save_job_def unless_cancelled_def serialize_job_def sample_codec_def retried_def retry_def retry_from.simps
      race_against_def no_race_def write_attempt_def request_def bucket_backend_def Let_def bk_arrive_def bk_lookup_def
      write_condition_def sample_job_def empty_bucket_state_def)


end
