(* ===== verification/JM_Cached.thy ===== *)
theory JM_Cached
  imports JM_Shared JM_Metrics
begin

text \<open>
  \<^verbatim>\<open>storage/cached.rs\<close>: the per-job cache of a pool around a storage, and that what it answers is what
  the storage held at some moment of the call. An entry of the map holds a job or nothing, as does a
  missing one. The entry is released while a request is in flight, so what the other workers of the
  pool do to cache and storage meanwhile is an input, as are the answers of the cancellation token.
  Every read is measured as a hit or a miss.
\<close>

section \<open>The cache\<close>

record 's cached_state =
  ca_inner :: 's
  ca_cache :: "job_code \<Rightarrow> job option"
  ca_measured :: "measurement list"
  ca_steps :: nat

record 's cached_storage =
  ch_inner :: "'s storage"
  ch_cancelled :: "nat \<Rightarrow> bool"
  ch_pool :: "nat \<Rightarrow> 's cached_state \<Rightarrow> 's cached_state"

type_synonym ('s, 'a) cached_op = "('s cached_state, storage_error, 'a) sresult"

definition cached_storage_new :: "'s storage \<Rightarrow> (nat \<Rightarrow> bool) \<Rightarrow> (nat \<Rightarrow> 's cached_state \<Rightarrow> 's cached_state) \<Rightarrow> 's cached_storage" where
  "cached_storage_new st cancelled pool = \<lparr>ch_inner = st, ch_cancelled = cancelled, ch_pool = pool\<rparr>"

definition replace_job :: "job \<Rightarrow> job_code \<Rightarrow> 's cached_state \<Rightarrow> 's cached_state" where
  "replace_job j c s = s\<lparr>ca_cache := (ca_cache s)(c := Some j)\<rparr>"

definition forget_job :: "job_code \<Rightarrow> 's cached_state \<Rightarrow> 's cached_state" where
  "forget_job c s = s\<lparr>ca_cache := (ca_cache s)(c := None)\<rparr>"

definition measure_read :: "measurement \<Rightarrow> 's cached_state \<Rightarrow> 's cached_state" where
  "measure_read m s = s\<lparr>ca_measured := ca_measured s @ [m]\<rparr>"

definition is_unchanged_since :: "job_meta \<Rightarrow> job option \<Rightarrow> bool" where
  "is_unchanged_since m cached = (case cached of
      None \<Rightarrow> False | Some j \<Rightarrow> iter_num j = jm_iter_num m \<and> version j = jm_version m)"

definition update_cache_if_newer :: "job \<Rightarrow> job_code \<Rightarrow> 's cached_state \<Rightarrow> 's cached_state" where
  "update_cache_if_newer j c s = (case ca_cache s c of
      Some current \<Rightarrow> if iter_num current \<le> iter_num j then replace_job j c s else s
    | None \<Rightarrow> replace_job j c s)"

lemma measure_read_fields [simp]:
  "ca_inner (measure_read m s) = ca_inner s" "ca_cache (measure_read m s) = ca_cache s" "ca_steps (measure_read m s) = ca_steps s"
  by (simp_all add: measure_read_def)

text \<open>The check of the token, a request to the storage underneath, and the wait for the lock of an entry.\<close>

definition unless_stopped :: "'s cached_storage \<Rightarrow> ('s, 'a) cached_op \<Rightarrow> ('s, 'a) cached_op" where
  "unless_stopped ch f s =
     (if ch_cancelled ch (ca_steps s) then (s\<lparr>ca_steps := Suc (ca_steps s)\<rparr>, Inl StorageCancelled)
      else f (s\<lparr>ca_steps := Suc (ca_steps s)\<rparr>))"

definition inner :: "('s, storage_error, 'a) sresult \<Rightarrow> ('s, 'a) cached_op" where
  "inner f s = (case f (ca_inner s) of (i, r) \<Rightarrow> (s\<lparr>ca_inner := i\<rparr>, r))"

definition let_pool_run :: "'s cached_storage \<Rightarrow> 's cached_state \<Rightarrow> 's cached_state" where
  "let_pool_run ch s = ch_pool ch (ca_steps s) (s\<lparr>ca_steps := Suc (ca_steps s)\<rparr>)"

definition meta_of :: "job \<Rightarrow> job_meta" where
  "meta_of j = \<lparr>jm_code = job_code j, jm_iter_num = iter_num j, jm_version = version j\<rparr>"

section \<open>Reading a job\<close>

text \<open>The loop of the cold read: a conflict refreshes the metadata once more.\<close>

fun fetch_job :: "'s cached_storage \<Rightarrow> nat \<Rightarrow> job_code \<Rightarrow> job_meta \<Rightarrow> ('s, job) cached_op" where
  "fetch_job ch 0 c m s =
     (s, Inl (ConcurrentModification ''Failed to read consistent job state after retries''))"
| "fetch_job ch (Suc n) c m s = (case inner (st_get_job_by_meta (ch_inner ch) m) s of
      (s', Inr j) \<Rightarrow> (s', Inr j)
    | (s', Inl e) \<Rightarrow>
        if is_conflict e then bindS (inner (st_find_job_meta (ch_inner ch) c)) (\<lambda>m'. fetch_job ch n c m') s'
        else (s', Inl e))"

definition cold_read :: "'s cached_storage \<Rightarrow> job_code \<Rightarrow> ('s, job) cached_op" where
  "cold_read ch c = bindS (inner (st_find_job_meta (ch_inner ch) c)) (\<lambda>m s.
     let s = let_pool_run ch s in
     case ca_cache s c of
       Some j \<Rightarrow> if is_unchanged_since m (Some j) then (measure_read (CacheHit ''get_job'') s, Inr j)
                else bindS (fetch_job ch 2 c m) (\<lambda>j s. (replace_job j c s, Inr j)) (measure_read (CacheMiss ''get_job'') s)
     | None \<Rightarrow> bindS (fetch_job ch 2 c m) (\<lambda>j s. (replace_job j c s, Inr j)) (measure_read (CacheMiss ''get_job'') s))"

definition check_cached :: "'s cached_storage \<Rightarrow> job_code \<Rightarrow> job \<Rightarrow> ('s, job) cached_op" where
  "check_cached ch c cached s = (case inner (st_get_changed_job (ch_inner ch) (meta_of cached)) (let_pool_run ch s) of
      (s', Inr None) \<Rightarrow> (measure_read (CacheHit ''get_job'') s', Inr cached)
    | (s', Inr (Some j)) \<Rightarrow>
        (let s'' = let_pool_run ch (measure_read (CacheMiss ''get_job'') s') in
         (if is_unchanged_since (meta_of cached) (ca_cache s'' c) then replace_job j c s'' else s'', Inr j))
    | (s', Inl (NotFound e)) \<Rightarrow> cold_read ch c s'
    | (s', Inl e) \<Rightarrow> (s', Inl e))"

definition cached_get_job :: "'s cached_storage \<Rightarrow> job_code \<Rightarrow> ('s, job) cached_op" where
  "cached_get_job ch c = unless_stopped ch (\<lambda>s. case ca_cache s c of
      Some cached \<Rightarrow> if is_processed cached then cold_read ch c s else check_cached ch c cached s
    | None \<Rightarrow> cold_read ch c s)"

definition cached_get_job_by_meta :: "'s cached_storage \<Rightarrow> job_meta \<Rightarrow> ('s, job) cached_op" where
  "cached_get_job_by_meta ch m = unless_stopped ch (\<lambda>s0. let s = let_pool_run ch s0 in
     case (ca_cache s (jm_code m), is_unchanged_since m (ca_cache s (jm_code m))) of
       (Some j, True) \<Rightarrow> (measure_read (CacheHit ''get_job_by_meta'') s, Inr j)
     | _ \<Rightarrow> (case inner (st_get_job_by_meta (ch_inner ch) m) (measure_read (CacheMiss ''get_job_by_meta'') s) of
         (s', Inr j) \<Rightarrow> (update_cache_if_newer j (jm_code m) s', Inr j)
       | (s', Inl e) \<Rightarrow> (if is_conflict e then forget_job (jm_code m) s' else s', Inl e)))"

section \<open>The other operations\<close>

definition cached_find_job_meta :: "'s cached_storage \<Rightarrow> job_code \<Rightarrow> ('s, job_meta) cached_op" where
  "cached_find_job_meta ch c = unless_stopped ch (inner (st_find_job_meta (ch_inner ch) c))"

definition cached_get_changed_job :: "'s cached_storage \<Rightarrow> job_meta \<Rightarrow> ('s, job option) cached_op" where
  "cached_get_changed_job ch m = unless_stopped ch (inner (st_get_changed_job (ch_inner ch) m))"

definition cached_save_job :: "'s cached_storage \<Rightarrow> job \<Rightarrow> 's cached_state \<Rightarrow> 's cached_state \<times> job \<times> (storage_error + unit)" where
  "cached_save_job ch j s0 =
     (let s = s0\<lparr>ca_steps := Suc (ca_steps s0)\<rparr> in
      if ch_cancelled ch (ca_steps s0) then (s, j, Inl StorageCancelled)
      else let s = let_pool_run ch s in
        case st_save_job (ch_inner ch) j (ca_inner s) of
          (i, j', Inr u) \<Rightarrow> (replace_job j' (job_code j) (s\<lparr>ca_inner := i\<rparr>), j', Inr ())
        | (i, j', Inl e) \<Rightarrow>
            (if is_conflict e then forget_job (job_code j) (s\<lparr>ca_inner := i\<rparr>) else s\<lparr>ca_inner := i\<rparr>, j', Inl e))"

definition cached_list_job_outdated_iterations :: "'s cached_storage \<Rightarrow> job_code \<Rightarrow> u64 \<Rightarrow> ('s, u64 list) cached_op" where
  "cached_list_job_outdated_iterations ch c boundary =
     unless_stopped ch (inner (st_list_job_outdated_iterations (ch_inner ch) c boundary))"

definition cached_delete_job_iterations :: "'s cached_storage \<Rightarrow> job_code \<Rightarrow> u64 list \<Rightarrow> ('s, unit) cached_op" where
  "cached_delete_job_iterations ch c ns = unless_stopped ch (inner (st_delete_job_iterations (ch_inner ch) c ns))"

definition cached_storage_ops :: "'s cached_storage \<Rightarrow> 's cached_state storage" where
  "cached_storage_ops ch =
     \<lparr>st_get_job = cached_get_job ch,
      st_get_job_by_meta = cached_get_job_by_meta ch,
      st_find_job_meta = cached_find_job_meta ch,
      st_get_changed_job = cached_get_changed_job ch,
      st_save_job = cached_save_job ch,
      st_list_job_outdated_iterations = cached_list_job_outdated_iterations ch,
      st_delete_job_iterations = cached_delete_job_iterations ch\<rparr>"

end
