(* ===== verification/JM_Cached_Props.thy ===== *)
theory JM_Cached_Props
  imports JM_Cached
begin

text \<open>
  What the cache relies on of the storage underneath, what it promises, and the in-memory storage as
  one it may wrap. \<open>kept s c n\<close> is the version and the content stored for iteration \<open>n\<close> of job \<open>c\<close>,
  \<open>ver s c n\<close> its version, \<open>shows j content\<close> that a job is what was stored or what reading it back
  gives, and \<open>later\<close> relates the states of the storage in the order of time.
\<close>

section \<open>A storage whose versions name one content\<close>

locale versioned_storage =
  fixes st :: "'s storage"
    and kept :: "'s \<Rightarrow> job_code \<Rightarrow> u64 \<Rightarrow> (string \<times> 'c) option"
    and shows_content :: "job \<Rightarrow> 'c \<Rightarrow> bool"
    and later :: "'s \<Rightarrow> 's \<Rightarrow> bool"
    and ok :: "'s \<Rightarrow> bool"
    and room :: "'s \<Rightarrow> bool"
  assumes later_refl: "later s s"
    and later_trans: "later a b \<Longrightarrow> later b d \<Longrightarrow> later a d"
    and versions: "ok s \<Longrightarrow> ok a \<Longrightarrow> ok b \<Longrightarrow> later a s \<Longrightarrow> later b s \<Longrightarrow>
      kept a c n = Some (v, content) \<Longrightarrow> kept b c n = Some (v, content') \<Longrightarrow> content' = content"
    and find_keeps: "ok s \<Longrightarrow> st_find_job_meta st c s = (s', r) \<Longrightarrow> ok s' \<and> later s s'"
    and by_meta_keeps: "ok s \<Longrightarrow> st_get_job_by_meta st m s = (s', q) \<Longrightarrow> ok s' \<and> later s s'"
    and changed_keeps: "ok s \<Longrightarrow> st_get_changed_job st m s = (s', cr) \<Longrightarrow> ok s' \<and> later s s'"
    and save_keeps: "ok s \<Longrightarrow> room s \<Longrightarrow> st_save_job st j s = (s', j', sr) \<Longrightarrow> ok s' \<and> later s s'"
    and find_ok: "ok s \<Longrightarrow> st_find_job_meta st c s = (s', Inr m) \<Longrightarrow>
      jm_code m = c \<and> (\<exists>content. kept s' c (jm_iter_num m) = Some (jm_version m, content))"
    and by_meta_ok: "ok s \<Longrightarrow> st_get_job_by_meta st m s = (s', Inr j) \<Longrightarrow>
      job_code j = jm_code m \<and> (\<exists>content. kept s' (jm_code m) (iter_num j) = Some (version j, content) \<and> shows_content j content)"
    and changed_none: "ok s \<Longrightarrow> st_get_changed_job st m s = (s', Inr None) \<Longrightarrow>
      \<exists>content. kept s' (jm_code m) (jm_iter_num m) = Some (jm_version m, content)"
    and changed_some: "ok s \<Longrightarrow> st_get_changed_job st m s = (s', Inr (Some j)) \<Longrightarrow>
      job_code j = jm_code m \<and> (\<exists>content. kept s' (jm_code m) (iter_num j) = Some (version j, content) \<and> shows_content j content)"
    and save_ok: "ok s \<Longrightarrow> room s \<Longrightarrow> st_save_job st j s = (s', j', Inr ()) \<Longrightarrow>
      job_code j' = job_code j \<and> (\<exists>content. kept s' (job_code j) (iter_num j') = Some (version j', content) \<and> shows_content j' content)"
begin

text \<open>A job is a state the storage held at some moment up to now.\<close>

definition was_kept :: "'s \<Rightarrow> job_code \<Rightarrow> job \<Rightarrow> bool" where
  "was_kept s c j \<longleftrightarrow> job_code j = c \<and>
     (\<exists>s0 content. ok s0 \<and> later s0 s \<and> kept s0 c (iter_num j) = Some (version j, content) \<and> shows_content j content)"

lemma was_kept_later: "was_kept s c j \<Longrightarrow> later s s' \<Longrightarrow> was_kept s' c j"
  unfolding was_kept_def using later_trans by blast

definition sound :: "'s cached_state \<Rightarrow> bool" where
  "sound s \<longleftrightarrow> ok (ca_inner s) \<and> (\<forall>c j. ca_cache s c = Some j \<longrightarrow> was_kept (ca_inner s) c j)"

definition onward :: "'s cached_state \<Rightarrow> 's cached_state \<Rightarrow> bool" where
  "onward s s' \<longleftrightarrow> (sound s \<longrightarrow> sound s' \<and> later (ca_inner s) (ca_inner s'))"

text \<open>The job was stored at a moment between two states.\<close>

definition current :: "'s \<Rightarrow> 's \<Rightarrow> job_code \<Rightarrow> job \<Rightarrow> bool" where
  "current s s' c j \<longleftrightarrow> (\<exists>s1 content. later s s1 \<and> later s1 s' \<and> ok s1 \<and>
     kept s1 c (iter_num j) = Some (version j, content) \<and> shows_content j content) \<and> job_code j = c"

lemma current_was_kept: "current s s' c j \<Longrightarrow> was_kept s' c j"
  unfolding current_def was_kept_def by blast

lemma current_wider: "current s1 s2 c j \<Longrightarrow> later s s1 \<Longrightarrow> later s2 s' \<Longrightarrow> current s s' c j"
  unfolding current_def by (meson later_trans)

lemma onward_refl: "onward s s"
  by (simp add: onward_def later_refl)

lemma onward_trans: "onward a b \<Longrightarrow> onward b c \<Longrightarrow> onward a c"
  unfolding onward_def using later_trans by blast

lemma onward_replace: "onward s s' \<Longrightarrow> (sound s \<Longrightarrow> was_kept (ca_inner s') c j) \<Longrightarrow> onward s (replace_job j c s')"
  unfolding onward_def sound_def replace_job_def by (auto simp: fun_upd_apply split: if_splits)

lemma onward_forget: "onward s s' \<Longrightarrow> onward s (forget_job c s')"
  unfolding onward_def sound_def forget_job_def by (auto simp: fun_upd_apply split: if_splits)

lemma sound_inner: "sound s \<Longrightarrow> ok i \<and> later (ca_inner s) i \<Longrightarrow> sound (s\<lparr>ca_inner := i\<rparr>)"
  unfolding sound_def by (auto intro: was_kept_later)

lemma onward_steps [simp]: "onward (s\<lparr>ca_steps := n\<rparr>) s' = onward s s'" "onward s (s'\<lparr>ca_steps := n\<rparr>) = onward s s'"
  by (simp_all add: onward_def sound_def)

lemma onward_measure [simp]: "onward (measure_read m s) s' = onward s s'" "onward s (measure_read m s') = onward s s'"
  by (simp_all add: onward_def sound_def)

lemma sound_measure [simp]: "sound (measure_read m s) = sound s"
  by (simp add: sound_def)

lemma inner_onward:
  assumes "\<And>i i' r. ok i \<Longrightarrow> f i = (i', r) \<Longrightarrow> ok i' \<and> later i i'" and "inner f s = (s', r)"
  shows "onward s s'"
proof -
  obtain i q where f: "f (ca_inner s) = (i, q)" by fastforce
  with assms(2) have s': "s' = s\<lparr>ca_inner := i\<rparr>" by (simp add: inner_def)
  show ?thesis unfolding onward_def
  proof
    assume s: "sound s"
    then have i: "ok i \<and> later (ca_inner s) i" using assms(1) [OF _ f] by (simp add: sound_def)
    from sound_inner [OF s i] i show "sound s' \<and> later (ca_inner s) (ca_inner s')" by (simp add: s')
  qed
qed

lemma find_onward: "inner (st_find_job_meta st c) s = (s', r) \<Longrightarrow> onward s s'"
  by (rule inner_onward [where f = "st_find_job_meta st c"]) (use find_keeps in blast)+

lemma by_meta_onward: "inner (st_get_job_by_meta st m) s = (s', r) \<Longrightarrow> onward s s'"
  by (rule inner_onward [where f = "st_get_job_by_meta st m"]) (use by_meta_keeps in blast)+

lemma changed_onward: "inner (st_get_changed_job st m) s = (s', r) \<Longrightarrow> onward s s'"
  by (rule inner_onward [where f = "st_get_changed_job st m"]) (use changed_keeps in blast)+

lemma inner_result: "inner f s = (s', r) \<Longrightarrow> f (ca_inner s) = (ca_inner s', r)"
  by (auto simp: inner_def split: prod.splits)

lemma soundD: "sound s \<Longrightarrow> ok (ca_inner s)"
  by (simp add: sound_def)

text \<open>A cached job whose iteration is still stored under its version is what is stored.\<close>

lemma hit_current:
  assumes "was_kept s' c j" and "ok s'" and "later s s1" and "later s1 s'" and "ok s1"
    and "kept s1 c (iter_num j) = Some (version j, content)"
  shows "current s s' c j"
proof -
  from assms(1) obtain s0 content0 where s0: "ok s0" "later s0 s'" "kept s0 c (iter_num j) = Some (version j, content0)"
    "shows_content j content0" "job_code j = c" by (auto simp: was_kept_def)
  have "content = content0" by (rule versions [OF assms(2) s0(1) assms(5) s0(2) assms(4) s0(3) assms(6)])
  with s0 assms(3-6) show ?thesis unfolding current_def by blast
qed

end

locale cache_in_pool = versioned_storage st kept shows_content later ok room
  for st :: "'s storage" and kept :: "'s \<Rightarrow> job_code \<Rightarrow> u64 \<Rightarrow> (string \<times> 'c) option"
    and shows_content :: "job \<Rightarrow> 'c \<Rightarrow> bool" and later :: "'s \<Rightarrow> 's \<Rightarrow> bool" and ok :: "'s \<Rightarrow> bool" and room :: "'s \<Rightarrow> bool" +
  fixes ch :: "'s cached_storage"
  assumes inner_is: "ch_inner ch = st"
    and pool_rely: "onward s (ch_pool ch n s)"
begin

lemma pool_onward: "onward s (let_pool_run ch s)"
  unfolding let_pool_run_def using pool_rely [of "s\<lparr>ca_steps := Suc (ca_steps s)\<rparr>"] by simp

lemma fetch_current:
  assumes "fetch_job ch n c m s = (s', r)" and "jm_code m = c"
  shows "onward s s' \<and> (\<forall>j. r = Inr j \<longrightarrow> sound s \<longrightarrow> current (ca_inner s) (ca_inner s') c j)"
  using assms
proof (induction n arbitrary: m s)
  case 0
  then show ?case by (auto simp: onward_refl)
next
  case (Suc n)
  obtain s1 q where g: "inner (st_get_job_by_meta st m) s = (s1, q)" by fastforce
  have o1: "onward s s1" by (rule by_meta_onward [OF g])
  show ?case
  proof (cases q)
    case (Inr j)
    with Suc.prems g have r: "s' = s1" "r = Inr j" by (simp_all add: inner_is)
    have "current (ca_inner s) (ca_inner s1) c j" if "sound s"
    proof -
      have "ok (ca_inner s1)" "later (ca_inner s) (ca_inner s1)" using o1 that by (auto simp: onward_def soundD)
      moreover have "st_get_job_by_meta st m (ca_inner s) = (ca_inner s1, Inr j)" using inner_result [OF g] Inr by simp
      from by_meta_ok [OF soundD [OF that] this] Suc.prems(2) obtain content where
        "job_code j = c" "kept (ca_inner s1) c (iter_num j) = Some (version j, content)" "shows_content j content" by blast
      ultimately show ?thesis unfolding current_def using later_refl by blast
    qed
    with r o1 show ?thesis by simp
  next
    case (Inl e)
    show ?thesis
    proof (cases "is_conflict e")
      case False
      with Inl Suc.prems g o1 show ?thesis by (auto simp: inner_is)
    next
      case True
      obtain s2 q2 where f: "inner (st_find_job_meta st c) s1 = (s2, q2)" by fastforce
      have o2: "onward s s2" using onward_trans [OF o1 find_onward [OF f]] by blast
      show ?thesis
      proof (cases q2)
        case (Inl e2)
        with \<open>q = Inl e\<close> True Suc.prems g f o2 show ?thesis by (auto simp: inner_is bindS_def)
      next
        case (Inr m2)
        with \<open>q = Inl e\<close> True Suc.prems g f have go: "fetch_job ch n c m2 s2 = (s', r)" by (simp add: inner_is bindS_def)
        show ?thesis
        proof (cases "sound s")
          case True
          then have "ok (ca_inner s1)" using o1 by (simp add: onward_def soundD)
          from find_ok [OF this] inner_result [OF f] Inr have "jm_code m2 = c" by simp
          from Suc.IH [OF go this] o2 True onward_trans [OF o2] show ?thesis
            unfolding onward_def using current_wider later_refl by blast
        next
          case False
          then show ?thesis by (simp add: onward_def)
        qed
      qed
    qed
  qed
qed

lemma fetched_onward:
  assumes "bindS (fetch_job ch n c m) (\<lambda>j s. (replace_job j c s, Inr j)) s = (s', r)" and "jm_code m = c"
  shows "onward s s' \<and> (\<forall>j. r = Inr j \<longrightarrow> sound s \<longrightarrow> current (ca_inner s) (ca_inner s') c j)"
proof -
  obtain s1 q where f: "fetch_job ch n c m s = (s1, q)" by fastforce
  note g = fetch_current [OF f assms(2)]
  show ?thesis
  proof (cases q)
    case (Inl e)
    with assms(1) f g show ?thesis by (simp add: bindS_def)
  next
    case (Inr j)
    with assms(1) f have r: "s' = replace_job j c s1" "r = Inr j" by (simp_all add: bindS_def)
    with g Inr have "onward s s'" by (auto intro!: onward_replace dest: current_was_kept)
    with g Inr r show ?thesis by (simp add: replace_job_def)
  qed
qed

lemma cold_read_current:
  assumes "cold_read ch c s = (s', r)"
  shows "onward s s' \<and> (\<forall>j. r = Inr j \<longrightarrow> sound s \<longrightarrow> current (ca_inner s) (ca_inner s') c j)"
proof -
  obtain s1 q where f: "inner (st_find_job_meta st c) s = (s1, q)" by fastforce
  have o1: "onward s s1" by (rule find_onward [OF f])
  let ?s2 = "let_pool_run ch s1"
  have o2: "onward s ?s2" using onward_trans [OF o1 pool_onward] .
  show ?thesis
  proof (cases q)
    case (Inl e)
    with assms f o1 show ?thesis by (auto simp: cold_read_def bindS_def inner_is)
  next
    case (Inr m)
    have m: "jm_code m = c \<and> (\<exists>content. kept (ca_inner s1) c (jm_iter_num m) = Some (jm_version m, content))" if "sound s"
      using find_ok [OF soundD [OF that]] inner_result [OF f] Inr by simp
    show ?thesis
    proof (cases "is_unchanged_since m (ca_cache ?s2 c)")
      case True
      then obtain j where j: "ca_cache ?s2 c = Some j" "iter_num j = jm_iter_num m" "version j = jm_version m"
        by (auto simp: is_unchanged_since_def split: option.splits)
      with assms f Inr True have r: "s' = measure_read (CacheHit ''get_job'') ?s2" "r = Inr j"
        by (auto simp: cold_read_def bindS_def inner_is Let_def)
      have "current (ca_inner s) (ca_inner ?s2) c j" if snd: "sound s"
      proof -
        have s1: "sound s1" "later (ca_inner s) (ca_inner s1)" using o1 snd by (simp_all add: onward_def)
        then have s2: "sound ?s2" "later (ca_inner s1) (ca_inner ?s2)" using pool_onward [of s1] by (simp_all add: onward_def)
        then have "was_kept (ca_inner ?s2) c j" using j(1) by (simp add: sound_def)
        with m [OF snd] j s1 s2 show ?thesis by (auto intro: hit_current soundD)
      qed
      with r o2 show ?thesis by simp
    next
      case False
      with assms f Inr have run: "bindS (fetch_job ch 2 c m) (\<lambda>j s. (replace_job j c s, Inr j))
          (measure_read (CacheMiss ''get_job'') ?s2) = (s', r)"
        by (cases "ca_cache ?s2 c") (simp_all add: cold_read_def bindS_def inner_is Let_def)
      show ?thesis
      proof (cases "sound s")
        case True
        from fetched_onward [OF run] m [OF True] have "onward ?s2 s'"
          "\<forall>j. r = Inr j \<longrightarrow> sound ?s2 \<longrightarrow> current (ca_inner ?s2) (ca_inner s') c j" by simp_all
        with True o2 onward_trans [OF o2] show ?thesis
          unfolding onward_def using current_wider later_refl by blast
      qed (simp add: onward_def)
    qed
  qed
qed

lemma check_cached_current:
  assumes "check_cached ch c cached s = (s', r)" and "ca_cache s c = Some cached"
  shows "onward s s' \<and> (\<forall>j. r = Inr j \<longrightarrow> sound s \<longrightarrow> current (ca_inner s) (ca_inner s') c j)"
proof -
  let ?s1 = "let_pool_run ch s"
  obtain s2 q where g: "inner (st_get_changed_job st (meta_of cached)) ?s1 = (s2, q)" by fastforce
  have o2: "onward s s2" by (rule onward_trans [OF pool_onward changed_onward [OF g]])
  have sound_at: "sound ?s1 \<and> sound s2 \<and> later (ca_inner s) (ca_inner s2) \<and> job_code cached = c \<and>
      was_kept (ca_inner s2) c cached" if "sound s"
  proof -
    have a: "sound ?s1" "sound s2" "later (ca_inner s) (ca_inner s2)"
      using that o2 pool_onward [of s] by (simp_all add: onward_def)
    have "was_kept (ca_inner s) c cached" using that assms(2) by (simp add: sound_def)
    with a was_kept_later have "was_kept (ca_inner s2) c cached" by blast
    with a show ?thesis by (simp add: was_kept_def)
  qed
  have run: "st_get_changed_job st (meta_of cached) (ca_inner ?s1) = (ca_inner s2, q)" by (rule inner_result [OF g])
  consider (cold) e where "q = Inl (NotFound e)" | (failed) e where "q = Inl e" "\<nexists>m. e = NotFound m"
    | (unmoved) "q = Inr None" | (read) j where "q = Inr (Some j)"
    by (metis option.exhaust sum.exhaust)
  then show ?thesis
  proof cases
    case cold
    with assms(1) g have "cold_read ch c s2 = (s', r)" by (simp add: check_cached_def inner_is)
    from cold_read_current [OF this] o2 onward_trans [OF o2] show ?thesis
      unfolding onward_def using current_wider later_refl by blast
  next
    case failed
    with assms(1) g o2 show ?thesis by (auto simp: check_cached_def inner_is split: storage_error.splits)
  next
    case unmoved
    with assms(1) g have r: "s' = measure_read (CacheHit ''get_job'') s2" "r = Inr cached"
      by (auto simp: check_cached_def inner_is)
    have "current (ca_inner s) (ca_inner s2) c cached" if "sound s"
    proof -
      have a: "ok (ca_inner ?s1)" "st_get_changed_job st (meta_of cached) (ca_inner ?s1) = (ca_inner s2, Inr None)"
        using run unmoved sound_at [OF that] by (simp_all add: soundD)
      from changed_none [OF a] sound_at [OF that] obtain content where
        "kept (ca_inner s2) c (iter_num cached) = Some (version cached, content)" by (auto simp: meta_of_def)
      with sound_at [OF that] later_refl show ?thesis by (auto intro: hit_current soundD)
    qed
    with r o2 show ?thesis by simp
  next
    case (read j)
    let ?s3 = "let_pool_run ch (measure_read (CacheMiss ''get_job'') s2)"
    have o3: "onward s ?s3" using onward_trans [OF o2] pool_onward [of "measure_read (CacheMiss ''get_job'') s2"] by simp
    have c: "current (ca_inner s) (ca_inner ?s3) c j" if "sound s"
    proof -
      have a: "ok (ca_inner ?s1)" "st_get_changed_job st (meta_of cached) (ca_inner ?s1) = (ca_inner s2, Inr (Some j))"
        using run read sound_at [OF that] by (simp_all add: soundD)
      from changed_some [OF a] sound_at [OF that] obtain content where
        "job_code j = c" "kept (ca_inner s2) c (iter_num j) = Some (version j, content)" "shows_content j content"
        by (auto simp: meta_of_def)
      moreover have "later (ca_inner s2) (ca_inner ?s3)" 
        using pool_onward [of "measure_read (CacheMiss ''get_job'') s2"] sound_at [OF that] by (simp add: onward_def)
      ultimately show ?thesis using sound_at [OF that] unfolding current_def by (blast intro: soundD)
    qed
    from assms(1) g read have r: "r = Inr j"
      "s' = (if is_unchanged_since (meta_of cached) (ca_cache ?s3 c) then replace_job j c ?s3 else ?s3)"
      by (simp_all add: check_cached_def inner_is Let_def)
    have "onward s s'" using onward_replace [OF o3, of c j] o3 current_was_kept [OF c] by (simp add: r)
    with c r show ?thesis by (simp add: replace_job_def)
  qed
qed

lemma get_job_current:
  assumes "cached_get_job ch c s = (s', r)"
  shows "onward s s' \<and> (\<forall>j. r = Inr j \<longrightarrow> sound s \<longrightarrow> current (ca_inner s) (ca_inner s') c j)"
proof -
  let ?s = "s\<lparr>ca_steps := Suc (ca_steps s)\<rparr>"
  have same: "onward ?s s' = onward s s'" "sound ?s = sound s" by (simp_all add: sound_def)
  show ?thesis
  proof (cases "ch_cancelled ch (ca_steps s)")
    case True
    with assms show ?thesis using onward_refl by (auto simp: cached_get_job_def unless_stopped_def)
  next
    case False
    with assms have "cold_read ch c ?s = (s', r) \<or> (\<exists>cached. ca_cache ?s c = Some cached \<and> check_cached ch c cached ?s = (s', r))"
      by (auto simp: cached_get_job_def unless_stopped_def split: option.splits if_splits)
    with cold_read_current [of c ?s s' r] check_cached_current [of c _ ?s s' r] same show ?thesis by fastforce
  qed
qed

lemma save_onward:
  assumes "cached_save_job ch j s = (s', j', r)" and room: "\<And>s. sound s \<Longrightarrow> room (ca_inner s)"
  shows "onward s s'"
proof (cases "ch_cancelled ch (ca_steps s)")
  case True
  with assms(1) onward_refl show ?thesis by (auto simp: cached_save_job_def Let_def)
next
  case False
  let ?s1 = "let_pool_run ch (s\<lparr>ca_steps := Suc (ca_steps s)\<rparr>)"
  obtain i j1 q where v: "st_save_job st j (ca_inner ?s1) = (i, j1, q)" by (metis prod_cases3)
  have o1: "onward s ?s1" using pool_onward [of "s\<lparr>ca_steps := Suc (ca_steps s)\<rparr>"] by simp
  have k: "ok i \<and> later (ca_inner ?s1) i" if "sound ?s1" using save_keeps [OF soundD room v] that by blast
  have o2: "onward s (?s1\<lparr>ca_inner := i\<rparr>)"
    using o1 k sound_inner later_trans unfolding onward_def by fastforce
  show ?thesis
  proof (cases q)
    case (Inl e)
    with assms(1) False v o2 onward_forget [OF o2, of "job_code j"] show ?thesis
      by (auto simp: cached_save_job_def Let_def inner_is split: if_splits)
  next
    case (Inr u)
    have "was_kept i (job_code j) j1" if "sound s"
    proof -
      have s1: "sound ?s1" using o1 that by (simp add: onward_def)
      from save_ok [OF soundD [OF s1] room [OF s1]] v Inr k [OF s1] later_refl show ?thesis
        unfolding was_kept_def by fastforce
    qed
    then have "onward s (replace_job j1 (job_code j) (?s1\<lparr>ca_inner := i\<rparr>))" by (intro onward_replace [OF o2]) simp
    with assms(1) False v Inr show ?thesis by (auto simp: cached_save_job_def Let_def inner_is)
  qed
qed

end

end
