(* ===== verification/JM_Cached_Memory.thy ===== *)
theory JM_Cached_Memory
  imports JM_Cached_Props "HOL-Library.Sublist"
begin

text \<open>
  The in-memory storage under the cache, shared with other pools that save between two requests. The
  log of everything saved is there for the statements only: no operation reads it.
\<close>

section \<open>The in-memory storage with a log\<close>

record logged_memory =
  lm_memory :: in_memory
  lm_log :: "job list"
  lm_others :: "(job list \<times> bool) list"

definition logged_save :: "externs \<Rightarrow> bool \<Rightarrow> job \<Rightarrow> logged_memory \<Rightarrow> logged_memory \<times> job \<times> (storage_error + unit)" where
  "logged_save x cancelled j s = (case mem_save_job x cancelled j (lm_memory s) of
      (m, j', Inr _) \<Rightarrow> (s\<lparr>lm_memory := m, lm_log := lm_log s @ [copy_persisted_state x j']\<rparr>, j', Inr ())
    | (m, j', Inl e) \<Rightarrow> (s, j', Inl e))"

definition logged_save_by_other :: "externs \<Rightarrow> job \<Rightarrow> logged_memory \<Rightarrow> logged_memory" where
  "logged_save_by_other x j s = fst (logged_save x False j s)"

definition let_pools_run :: "externs \<Rightarrow> logged_memory \<Rightarrow> logged_memory \<times> bool" where
  "let_pools_run x s = (case lm_others s of
      [] \<Rightarrow> (s, False)
    | (js, cancelled) # rest \<Rightarrow> (fold (logged_save_by_other x) js (s\<lparr>lm_others := rest\<rparr>), cancelled))"

definition logged_read :: "externs \<Rightarrow> (bool \<Rightarrow> in_memory \<Rightarrow> storage_error + 'a) \<Rightarrow> (logged_memory, storage_error, 'a) sresult" where
  "logged_read x f s = (case let_pools_run x s of (s', cancelled) \<Rightarrow> (s', f cancelled (lm_memory s')))"

definition logged_storage :: "externs \<Rightarrow> logged_memory storage" where
  "logged_storage x =
     \<lparr>st_get_job = (\<lambda>c. logged_read x (\<lambda>cancelled. mem_get_job cancelled c)),
      st_get_job_by_meta = (\<lambda>m. logged_read x (\<lambda>cancelled. mem_get_job_by_meta cancelled m)),
      st_find_job_meta = (\<lambda>c. logged_read x (\<lambda>cancelled. mem_find_job_meta cancelled c)),
      st_get_changed_job = (\<lambda>m. logged_read x (\<lambda>cancelled. mem_get_changed_job cancelled m)),
      st_save_job = (\<lambda>j s. case let_pools_run x s of (s', cancelled) \<Rightarrow> logged_save x cancelled j s'),
      st_list_job_outdated_iterations = (\<lambda>c b. logged_read x (\<lambda>cancelled. mem_list_job_outdated_iterations cancelled c b)),
      st_delete_job_iterations = (\<lambda>c ns. logged_read x (\<lambda>cancelled m. snd (mem_delete_job_iterations cancelled c ns m)))\<rparr>"

section \<open>Versions are numbered by the saves\<close>

definition numbered :: "logged_memory \<Rightarrow> bool" where
  "numbered s \<longleftrightarrow> unat (version_counter (lm_memory s)) = length (lm_log s) \<and>
     (\<forall>i < length (lm_log s). version (lm_log s ! i) = show_nat (Suc i)) \<and>
     (\<forall>c j. jobs_by_code (lm_memory s) c = Some j \<longrightarrow> job_code j = c \<and> j \<in> set (lm_log s))"

definition pending :: "logged_memory \<Rightarrow> nat" where
  "pending s = sum_list (map (length \<circ> fst) (lm_others s))"

definition log_ok :: "logged_memory \<Rightarrow> bool" where
  "log_ok s \<longleftrightarrow> numbered s \<and> length (lm_log s) + pending s < 2 ^ 64"

definition log_room :: "logged_memory \<Rightarrow> bool" where
  "log_room s \<longleftrightarrow> length (lm_log s) + pending s + 1 < 2 ^ 64"

definition log_later :: "logged_memory \<Rightarrow> logged_memory \<Rightarrow> bool" where
  "log_later a b \<longleftrightarrow> prefix (lm_log a) (lm_log b)"

definition log_kept :: "logged_memory \<Rightarrow> job_code \<Rightarrow> u64 \<Rightarrow> (string \<times> job) option" where
  "log_kept s c n = (case jobs_by_code (lm_memory s) c of
      Some j \<Rightarrow> if iter_num j = n then Some (version j, j) else None | None \<Rightarrow> None)"

definition saved_or_read :: "externs \<Rightarrow> job \<Rightarrow> job \<Rightarrow> bool" where
  "saved_or_read x j content \<longleftrightarrow> content = j \<or> content = copy_persisted_state x j"

lemma log_kept_Some: "log_kept s c n = Some (v, content) \<longleftrightarrow>
    jobs_by_code (lm_memory s) c = Some content \<and> iter_num content = n \<and> version content = v"
  by (auto simp: log_kept_def split: option.splits)

lemma logged_save_keeps:
  assumes "logged_save x cancelled j s = (s', j', r)" and "numbered s" and "length (lm_log s) + 1 < 2 ^ 64"
  shows "numbered s' \<and> prefix (lm_log s) (lm_log s') \<and> length (lm_log s') \<le> length (lm_log s) + 1 \<and> lm_others s' = lm_others s"
proof (cases r)
  case (Inl e)
  with assms show ?thesis by (auto simp: logged_save_def split: prod.splits sum.splits)
next
  case (Inr u)
  with assms(1) obtain m where m: "mem_save_job x cancelled j (lm_memory s) = (m, j', Inr ())"
    and s': "s' = s\<lparr>lm_memory := m, lm_log := lm_log s @ [copy_persisted_state x j']\<rparr>"
    by (auto simp: logged_save_def split: prod.splits sum.splits)
  note r = mem_save_Inr [OF m]
  have n: "unat (version_counter (lm_memory s) + 1) = length (lm_log s) + 1"
    using assms(2,3) by (simp add: numbered_def unat_word_ariths)
  have v: "version (copy_persisted_state x j') = show_nat (Suc (length (lm_log s)))"
    "job_code (copy_persisted_state x j') = job_code j" using r n by (simp_all add: copy_meta)
  show ?thesis
    using assms(2) r n v unfolding numbered_def s' by (auto simp: nth_append less_Suc_eq)
qed

lemma pools_keep:
  "numbered s \<Longrightarrow> length (lm_log s) + length js < 2 ^ 64 \<Longrightarrow> s' = fold (logged_save_by_other x) js s \<Longrightarrow>
     numbered s' \<and> prefix (lm_log s) (lm_log s') \<and> length (lm_log s') \<le> length (lm_log s) + length js \<and> lm_others s' = lm_others s"
proof (induction js arbitrary: s)
  case (Cons j js)
  obtain s1 j1 r where v: "logged_save x False j s = (s1, j1, r)" by (metis prod_cases3)
  have k: "numbered s1 \<and> prefix (lm_log s) (lm_log s1) \<and> length (lm_log s1) \<le> length (lm_log s) + 1 \<and> lm_others s1 = lm_others s"
    by (rule logged_save_keeps [OF v]) (use Cons.prems in auto)
  have "numbered s' \<and> prefix (lm_log s1) (lm_log s') \<and> length (lm_log s') \<le> length (lm_log s1) + length js \<and> lm_others s' = lm_others s1"
    by (rule Cons.IH) (use k Cons.prems v in \<open>auto simp: logged_save_by_other_def\<close>)
  with k show ?case by (auto intro: prefix_order.trans)
qed simp

lemma let_pools_keep:
  assumes "let_pools_run x s = (s', cancelled)" and "log_ok s"
  shows "log_ok s' \<and> log_later s s' \<and> length (lm_log s') + pending s' \<le> length (lm_log s) + pending s"
proof (cases "lm_others s")
  case Nil
  with assms show ?thesis by (auto simp: let_pools_run_def log_later_def)
next
  case (Cons p rest)
  obtain js b where p: "p = (js, b)" by fastforce
  with assms(1) Cons have s': "s' = fold (logged_save_by_other x) js (s\<lparr>lm_others := rest\<rparr>)"
    by (simp add: let_pools_run_def)
  have "numbered s' \<and> prefix (lm_log (s\<lparr>lm_others := rest\<rparr>)) (lm_log s') \<and>
      length (lm_log s') \<le> length (lm_log (s\<lparr>lm_others := rest\<rparr>)) + length js \<and> lm_others s' = rest"
  proof -
    have "numbered (s\<lparr>lm_others := rest\<rparr>)" using assms(2) by (simp add: log_ok_def numbered_def)
    moreover have "length (lm_log (s\<lparr>lm_others := rest\<rparr>)) + length js < 2 ^ 64"
      using assms(2) Cons p by (simp add: log_ok_def pending_def)
    ultimately show ?thesis using pools_keep [OF _ _ s'] by simp
  qed
  with assms(2) Cons p show ?thesis by (auto simp: log_ok_def log_later_def pending_def)
qed

lemma logged_read_keeps: "log_ok s \<Longrightarrow> logged_read x f s = (s', r) \<Longrightarrow> log_ok s' \<and> log_later s s' \<and> r = f (snd (let_pools_run x s)) (lm_memory s')"
  using let_pools_keep [of x s] by (auto simp: logged_read_def split: prod.splits)

lemma stored_version_unique:
  assumes "numbered s" and "i \<in> set (lm_log s)" and "j \<in> set (lm_log s)" and "version i = version j"
  shows "i = j"
proof -
  from assms(2,3) obtain a b where ab: "a < length (lm_log s)" "i = lm_log s ! a" "b < length (lm_log s)" "j = lm_log s ! b"
    by (metis in_set_conv_nth)
  with assms(1,4) have "show_nat (Suc a) = show_nat (Suc b)" by (metis numbered_def)
  then have "decimal_value (show_nat (Suc a)) = decimal_value (show_nat (Suc b))" by simp
  with ab show ?thesis by simp
qed

lemma log_job: "log_ok s \<Longrightarrow> jobs_by_code (lm_memory s) c = Some j \<Longrightarrow> job_code j = c \<and> j \<in> set (lm_log s)"
  by (simp add: log_ok_def numbered_def)

lemma kept_logged:
  assumes "log_ok a" and "log_later a s" and "log_kept a c n = Some (v, content)"
  shows "content \<in> set (lm_log s) \<and> version content = v"
proof -
  from assms(3) have "jobs_by_code (lm_memory a) c = Some content" "version content = v" by (simp_all add: log_kept_Some)
  with log_job [OF assms(1)] set_mono_prefix [of "lm_log a" "lm_log s"] assms(2) show ?thesis
    by (auto simp: log_later_def)
qed

lemma save_step:
  assumes "log_ok s" and "log_room s" and "st_save_job (logged_storage x) j s = (s', j', r)"
  shows "log_ok s' \<and> log_later s s' \<and> (r = Inr () \<longrightarrow> job_code j' = job_code j \<and>
    (\<exists>content. log_kept s' (job_code j) (iter_num j') = Some (version j', content) \<and> saved_or_read x j' content))"
proof -
  obtain s1 b where s1: "let_pools_run x s = (s1, b)" "logged_save x b j s1 = (s', j', r)"
    using assms(3) by (auto simp: logged_storage_def split: prod.splits)
  note k = let_pools_keep [OF s1(1) assms(1)]
  have n1: "numbered s1" "length (lm_log s1) + 1 < 2 ^ 64" using k assms(2) by (auto simp: log_ok_def log_room_def)
  note v = logged_save_keeps [OF s1(2) n1]
  have ok: "log_ok s' \<and> log_later s s'"
    using k v assms(2) by (auto simp: log_ok_def log_later_def log_room_def pending_def intro: prefix_order.trans)
  have "job_code j' = job_code j \<and> (\<exists>content. log_kept s' (job_code j) (iter_num j') = Some (version j', content) \<and> saved_or_read x j' content)"
    if "r = Inr ()"
  proof -
    from s1(2) that obtain m where m: "mem_save_job x b j (lm_memory s1) = (m, j', Inr ())" "lm_memory s' = m"
      by (auto simp: logged_save_def split: prod.splits sum.splits)
    from mem_save_Inr [OF m(1)] m(2) show ?thesis by (auto simp: log_kept_Some copy_meta saved_or_read_def)
  qed
  with ok show ?thesis by blast
qed

interpretation logged: versioned_storage "logged_storage x" log_kept "saved_or_read x" log_later log_ok log_room
proof unfold_locales
  show "log_later s s" for s by (simp add: log_later_def)
  show "log_later a d" if "log_later a b" "log_later b d" for a b d
    using that by (auto simp: log_later_def intro: prefix_order.trans)
  show "content' = content" if "log_ok s" "log_ok a" "log_ok b" "log_later a s" "log_later b s"
    "log_kept a c n = Some (v, content)" "log_kept b c n = Some (v, content')" for s a b c n v content content'
  proof -
    have "content \<in> set (lm_log s)" "content' \<in> set (lm_log s)" "version content' = version content"
      using kept_logged [OF that(2,4,6)] kept_logged [OF that(3,5,7)] by simp_all
    moreover have "numbered s" using that(1) by (simp add: log_ok_def)
    ultimately show ?thesis using stored_version_unique by blast
  qed
  show "log_ok s' \<and> log_later s s'" if "log_ok s" "st_find_job_meta (logged_storage x) c s = (s', r)" for s c s' r
    using that logged_read_keeps by (simp add: logged_storage_def) blast
  show "log_ok s' \<and> log_later s s'" if "log_ok s" "st_get_job_by_meta (logged_storage x) m s = (s', q)" for s m s' q
    using that logged_read_keeps by (simp add: logged_storage_def) blast
  show "log_ok s' \<and> log_later s s'" if "log_ok s" "st_get_changed_job (logged_storage x) m s = (s', cr)" for s m s' cr
    using that logged_read_keeps by (simp add: logged_storage_def) blast
  show "log_ok s' \<and> log_later s s'" if "log_ok s" "log_room s" "st_save_job (logged_storage x) j s = (s', j', sr)" for s j s' j' sr
    using save_step [OF that] by blast
  show "jm_code m = c \<and> (\<exists>content. log_kept s' c (jm_iter_num m) = Some (jm_version m, content))"
    if "log_ok s" "st_find_job_meta (logged_storage x) c s = (s', Inr m)" for s c s' m
  proof -
    have r: "logged_read x (\<lambda>cancelled. mem_find_job_meta cancelled c) s = (s', Inr m)" using that(2) by (simp add: logged_storage_def)
    note k = logged_read_keeps [OF that(1) r]
    from k obtain j where "jobs_by_code (lm_memory s') c = Some j" "m = \<lparr>jm_code = job_code j, jm_iter_num = iter_num j, jm_version = version j\<rparr>"
      by (auto simp: mem_find_job_meta_def split: if_splits option.splits)
    with log_job k show ?thesis by (auto simp: log_kept_Some)
  qed
  show "job_code j = jm_code m \<and> (\<exists>content. log_kept s' (jm_code m) (iter_num j) = Some (version j, content) \<and> saved_or_read x j content)"
    if "log_ok s" "st_get_job_by_meta (logged_storage x) m s = (s', Inr j)" for s m s' j
  proof -
    have r: "logged_read x (\<lambda>cancelled. mem_get_job_by_meta cancelled m) s = (s', Inr j)" using that(2) by (simp add: logged_storage_def)
    note k = logged_read_keeps [OF that(1) r]
    then have "jobs_by_code (lm_memory s') (jm_code m) = Some j"
      by (auto simp: mem_get_job_by_meta_def split: if_splits option.splits)
    with log_job k show ?thesis by (auto simp: log_kept_Some saved_or_read_def)
  qed
  show "\<exists>content. log_kept s' (jm_code m) (jm_iter_num m) = Some (jm_version m, content)"
    if "log_ok s" "st_get_changed_job (logged_storage x) m s = (s', Inr None)" for s m s'
  proof -
    have r: "logged_read x (\<lambda>cancelled. mem_get_changed_job cancelled m) s = (s', Inr None)" using that(2) by (simp add: logged_storage_def)
    from logged_read_keeps [OF that(1) r] show ?thesis
      by (auto simp: mem_get_changed_job_def log_kept_Some split: if_splits option.splits)
  qed
  show "job_code j = jm_code m \<and> (\<exists>content. log_kept s' (jm_code m) (iter_num j) = Some (version j, content) \<and> saved_or_read x j content)"
    if "log_ok s" "st_get_changed_job (logged_storage x) m s = (s', Inr (Some j))" for s m s' j
  proof -
    have r: "logged_read x (\<lambda>cancelled. mem_get_changed_job cancelled m) s = (s', Inr (Some j))" using that(2) by (simp add: logged_storage_def)
    note k = logged_read_keeps [OF that(1) r]
    then have "jobs_by_code (lm_memory s') (jm_code m) = Some j"
      by (auto simp: mem_get_changed_job_def split: if_splits option.splits)
    with log_job k show ?thesis by (auto simp: log_kept_Some saved_or_read_def)
  qed
  show "job_code j' = job_code j \<and> (\<exists>content. log_kept s' (job_code j) (iter_num j') = Some (version j', content) \<and> saved_or_read x j' content)"
    if "log_ok s" "log_room s" "st_save_job (logged_storage x) j s = (s', j', Inr ())" for s j s' j'
    using save_step [OF that] that(3) by blast
qed

section \<open>What the cache guarantees over the in-memory storage\<close>

text \<open>
  Every entry of the cache is a state the storage held at some moment; a move of the pool keeps that
  and takes the storage forward in time only.
\<close>

definition cache_sound :: "externs \<Rightarrow> logged_memory cached_state \<Rightarrow> bool" where
  "cache_sound x s \<longleftrightarrow> log_ok (ca_inner s) \<and> (\<forall>c j. ca_cache s c = Some j \<longrightarrow> job_code j = c \<and>
     (\<exists>s0 content. log_ok s0 \<and> log_later s0 (ca_inner s) \<and> log_kept s0 c (iter_num j) = Some (version j, content) \<and>
        saved_or_read x j content))"

definition cache_moves :: "externs \<Rightarrow> logged_memory cached_state \<Rightarrow> logged_memory cached_state \<Rightarrow> bool" where
  "cache_moves x s s' \<longleftrightarrow> (cache_sound x s \<longrightarrow> cache_sound x s' \<and> log_later (ca_inner s) (ca_inner s'))"

lemma logged_sound: "logged.sound x = cache_sound x"
  by (rule ext) (simp add: logged.sound_def logged.was_kept_def cache_sound_def)

lemma logged_onward: "logged.onward x = cache_moves x"
  by (intro ext) (simp add: logged.onward_def cache_moves_def logged_sound)

lemma cache_over_memory:
  assumes "ch_inner ch = logged_storage x" and "\<And>n s. cache_moves x s (ch_pool ch n s)"
  shows "cache_in_pool (logged_storage x) log_kept (saved_or_read x) log_later log_ok log_room ch"
  by (rule cache_in_pool.intro [OF logged.versioned_storage_axioms], unfold_locales)
    (use assms in \<open>simp_all add: logged_onward\<close>)


section \<open>Two workers of a pool\<close>

definition lone_cache :: "externs \<Rightarrow> logged_memory cached_storage" where
  "lone_cache x = cached_storage_new (logged_storage x) (\<lambda>_. False) (\<lambda>_ s. s)"

text \<open>Another worker reads through the cache whenever this one waits.\<close>

definition read_by_worker :: "externs \<Rightarrow> job_code \<Rightarrow> logged_memory cached_state \<Rightarrow> logged_memory cached_state" where
  "read_by_worker x c s = fst (cached_get_job (lone_cache x) c s)"

definition shared_cache :: "externs \<Rightarrow> job_code \<Rightarrow> logged_memory cached_storage" where
  "shared_cache x c = cached_storage_new (logged_storage x) (\<lambda>_. False) (\<lambda>_. read_by_worker x c)"

lemma cache_moves_refl: "cache_moves x s s"
  by (simp add: cache_moves_def log_later_def)

lemma lone_cache_fields: "ch_inner (lone_cache x) = logged_storage x" "cache_moves x s (ch_pool (lone_cache x) n s)"
  by (simp_all add: lone_cache_def cached_storage_new_def cache_moves_refl)

interpretation lone: cache_in_pool "logged_storage x" log_kept "saved_or_read x" log_later log_ok log_room "lone_cache x"
  by (rule cache_over_memory) (rule lone_cache_fields)+

lemma shared_cache_fields: "ch_inner (shared_cache x c) = logged_storage x" "cache_moves x s (ch_pool (shared_cache x c) n s)"
proof -
  show "ch_inner (shared_cache x c) = logged_storage x" by (simp add: shared_cache_def cached_storage_new_def)
  obtain s' r where r: "cached_get_job (lone_cache x) c s = (s', r)" by fastforce
  then have "cache_moves x s s'" using lone.get_job_current [OF r] by (simp add: logged_onward)
  with r show "cache_moves x s (ch_pool (shared_cache x c) n s)"
    by (simp add: shared_cache_def cached_storage_new_def read_by_worker_def)
qed

interpretation shared_by_two: cache_in_pool "logged_storage x" log_kept "saved_or_read x" log_later log_ok log_room "shared_cache x c"
  by (rule cache_over_memory) (rule shared_cache_fields)+

definition sample_cached_state :: "logged_memory cached_state" where
  "sample_cached_state = \<lparr>ca_inner = \<lparr>lm_memory = sample_memory, lm_log = [sample_reread], lm_others = []\<rparr>,
     ca_cache = (\<lambda>_. None), ca_measured = [], ca_steps = 0\<rparr>"

lemma sample_cached_sound: "cache_sound std_externs sample_cached_state"
  by (simp add: cache_sound_def sample_cached_state_def log_ok_def numbered_def pending_def sample_memory_def
      sample_reread_meta show_nat_1)

lemma sample_cached_read: "\<exists>s' j. cached_get_job (shared_cache std_externs ''job'') ''job'' sample_cached_state = (s', Inr j)"
  by (simp add: cached_get_job_def unless_stopped_def shared_cache_def cached_storage_new_def sample_cached_state_def
      cold_read_def bindS_def inner_def logged_storage_def logged_read_def let_pools_run_def mem_find_job_meta_def
      sample_memory_def let_pool_run_def read_by_worker_def lone_cache_def is_unchanged_since_def fetch_job.simps
      numeral_2_eq_2 mem_get_job_by_meta_def replace_job_def sample_reread_meta)


end
