(* ===== verification/JM_Pool.thy ===== *)
theory JM_Pool
  imports JM_Scheduler_Props "HOL-Library.Multiset"
begin

text \<open>
  \<^verbatim>\<open>execution/worker_pool.rs\<close>: the loop of one pool as a state machine. A worker is its identifier; a
  task start or an execution in flight is an element of a list, the \<^verbatim>\<open>JoinSet\<close>, and which of them
  ends next, with what report, is up to the run. A panic is a report of its own. The errors the pool
  logs about its schedule are kept in \<open>pl_errors\<close>.
\<close>

section \<open>State\<close>

record task_start_in_flight =
  tf_worker :: uuid
  tf_claim :: string

record task_to_execute =
  tx_worker :: uuid
  tx_job_code :: string
  tx_started_task :: started_task

record task_start_outcome =
  so_worker :: uuid
  so_claim :: string
  so_progress :: job_progress
  so_started_task :: "started_task option"

record execution_outcome =
  eo_worker :: uuid
  eo_job_code :: string
  eo_progress :: job_progress

datatype pool_wait = Until instant | ForPoolEvent

record worker_pool =
  pl_scheduler :: scheduler
  pl_idle_workers :: "uuid list"
  pl_tasks_to_execute :: "task_to_execute list"
  pl_task_starts :: "task_start_in_flight list"
  pl_executions :: "task_to_execute list"
  pl_errors :: "schedule_error list"

definition worker_pool_new :: "scheduler \<Rightarrow> uuid list \<Rightarrow> worker_pool" where
  "worker_pool_new s ws = \<lparr>pl_scheduler = s, pl_idle_workers = ws, pl_tasks_to_execute = [], pl_task_starts = [],
     pl_executions = [], pl_errors = []\<rparr>"

section \<open>Operations\<close>

definition report_schedule_error :: "schedule_error \<Rightarrow> worker_pool \<Rightarrow> worker_pool" where
  "report_schedule_error e p = p\<lparr>pl_errors := pl_errors p @ [e]\<rparr>"

definition pool_release_job :: "externs \<Rightarrow> poll_env \<Rightarrow> string \<Rightarrow> job_progress \<Rightarrow> worker_pool \<Rightarrow> worker_pool" where
  "pool_release_job x env c progress p = (case release_job x env c progress (pl_scheduler p) of
      (s, Inr _) \<Rightarrow> p\<lparr>pl_scheduler := s\<rparr>
    | (s, Inl e) \<Rightarrow> report_schedule_error e (p\<lparr>pl_scheduler := s\<rparr>))"

text \<open>What a task start reports once it ended: \<open>None\<close> is a panic.\<close>

definition task_start_report :: "time \<Rightarrow> task_start_in_flight \<Rightarrow> task_start option \<Rightarrow> task_start_outcome" where
  "task_start_report now f ended = (case ended of
      None \<Rightarrow> \<lparr>so_worker = tf_worker f, so_claim = tf_claim f, so_progress = Stalled, so_started_task = None\<rparr>
    | Some ts \<Rightarrow> \<lparr>so_worker = tf_worker f, so_claim = tf_claim f, so_progress = from_task_start now ts,
        so_started_task = into_started_task ts\<rparr>)"

definition execution_report :: "task_to_execute \<Rightarrow> execution_end option \<Rightarrow> execution_outcome" where
  "execution_report t ended =
     \<lparr>eo_worker = tx_worker t, eo_job_code = tx_job_code t, eo_progress = from_job_execution ended\<rparr>"

lemma claim_shrinks:
  assumes "(s', r) = try_claim_due_job now s" and "\<nexists>t. r = Inr (WaitUntil t)" and "r \<noteq> Inr WaitForPoolEvent"
  shows "length (due_queue s') < length (due_queue s)"
  using assms
  by (auto simp: try_claim_due_job_def transition_job_def move_entry_def length_remove1 Let_def le_imp_less_Suc queued_claim
      split: list.splits if_splits option.splits)

text \<open>A worker that finds a due job takes it into a task start; the look is repeated after an error.\<close>

function spawn_task_starts :: "(nat \<Rightarrow> instant) \<Rightarrow> nat \<Rightarrow> worker_pool \<Rightarrow> worker_pool \<times> pool_wait" where
  "spawn_task_starts look n p =
     (if pl_idle_workers p = [] then (p, ForPoolEvent)
      else case try_claim_due_job (look n) (pl_scheduler p) of
          (s, Inr (ClaimedJob c)) \<Rightarrow> spawn_task_starts look (Suc n)
            (p\<lparr>pl_scheduler := s, pl_idle_workers := butlast (pl_idle_workers p),
               pl_task_starts := pl_task_starts p @ [\<lparr>tf_worker = last (pl_idle_workers p), tf_claim = c\<rparr>]\<rparr>)
        | (s, Inr (WaitUntil wake_at)) \<Rightarrow> (p\<lparr>pl_scheduler := s\<rparr>, Until wake_at)
        | (s, Inr WaitForPoolEvent) \<Rightarrow> (p\<lparr>pl_scheduler := s\<rparr>, ForPoolEvent)
        | (s, Inl e) \<Rightarrow> spawn_task_starts look (Suc n) (report_schedule_error e (p\<lparr>pl_scheduler := s\<rparr>)))"
  by pat_completeness auto
termination
proof (relation "measure (\<lambda>(look, n, p). length (due_queue (pl_scheduler p)))")
qed (auto simp: report_schedule_error_def dest: claim_shrinks)

declare spawn_task_starts.simps [simp del]

definition start_executions :: "worker_pool \<Rightarrow> worker_pool" where
  "start_executions p = p\<lparr>pl_tasks_to_execute := [], pl_executions := pl_executions p @ pl_tasks_to_execute p\<rparr>"

text \<open>The end of a task start or of an execution; \<open>None\<close> is a \<^verbatim>\<open>JoinError\<close>, a task that was aborted.\<close>

definition close_task_start :: "externs \<Rightarrow> poll_env \<Rightarrow> task_start_outcome option \<Rightarrow> worker_pool \<Rightarrow> worker_pool" where
  "close_task_start x env join_result p = (case join_result of
      None \<Rightarrow> p
    | Some r \<Rightarrow> (let p' = pool_release_job x env (so_claim r) (so_progress r) p in
        case so_started_task r of
          Some st \<Rightarrow> p'\<lparr>pl_tasks_to_execute := pl_tasks_to_execute p' @
            [\<lparr>tx_worker = so_worker r, tx_job_code = so_claim r, tx_started_task = st\<rparr>]\<rparr>
        | None \<Rightarrow> p'\<lparr>pl_idle_workers := pl_idle_workers p' @ [so_worker r]\<rparr>))"

definition close_execution :: "externs \<Rightarrow> poll_env \<Rightarrow> execution_outcome option \<Rightarrow> worker_pool \<Rightarrow> worker_pool" where
  "close_execution x env join_result p = (case join_result of
      None \<Rightarrow> p
    | Some r \<Rightarrow> (let p' = (case reschedule_job x env (eo_job_code r) (eo_progress r) (pl_scheduler p) of
            (s, Inr _) \<Rightarrow> p\<lparr>pl_scheduler := s\<rparr>
          | (s, Inl e) \<Rightarrow> report_schedule_error e (p\<lparr>pl_scheduler := s\<rparr>))
        in p'\<lparr>pl_idle_workers := pl_idle_workers p' @ [eo_worker r]\<rparr>))"

text \<open>One turn of the loop before it waits.\<close>

definition pool_turn :: "(nat \<Rightarrow> instant) \<Rightarrow> worker_pool \<Rightarrow> worker_pool \<times> pool_wait" where
  "pool_turn look p = spawn_task_starts look 0 (start_executions p)"

section \<open>The loop as a step relation\<close>

text \<open>
  What a turn and the \<^verbatim>\<open>select!\<close> of the loop may bring while the pool runs, in any order, which allows
  for every run of the loop; the tasks of the pool are aborted only
  together with it, so every join hands a report over. \<open>closing\<close> are the steps the shutdown is left with.
\<close>

inductive closing :: "externs \<Rightarrow> worker_pool \<Rightarrow> worker_pool \<Rightarrow> bool" for x where
  task_start_ended: "f \<in> set (pl_task_starts p) \<Longrightarrow>
    closing x p (close_task_start x env (Some (task_start_report now f ended)) (p\<lparr>pl_task_starts := remove1 f (pl_task_starts p)\<rparr>))"
| execution_ended: "t \<in> set (pl_executions p) \<Longrightarrow>
    closing x p (close_execution x env (Some (execution_report t ended)) (p\<lparr>pl_executions := remove1 t (pl_executions p)\<rparr>))"

inductive pool_step :: "externs \<Rightarrow> worker_pool \<Rightarrow> worker_pool \<Rightarrow> bool" for x where
  turn: "pool_step x p (fst (pool_turn look p))"
| closes: "closing x p p' \<Longrightarrow> pool_step x p p'"

inductive_cases closingE: "closing x p p'"
inductive_cases pool_stepE: "pool_step x p p'"

section \<open>The invariant\<close>

definition workers_of :: "worker_pool \<Rightarrow> uuid multiset" where
  "workers_of p = mset (pl_idle_workers p) + mset (map tx_worker (pl_tasks_to_execute p)) +
     mset (map tf_worker (pl_task_starts p)) + mset (map tx_worker (pl_executions p))"

definition pool_ok :: "worker_pool \<Rightarrow> bool" where
  "pool_ok p \<longleftrightarrow> index_ok (pl_scheduler p) \<and> pl_errors p = [] \<and>
     distinct (map tf_claim (pl_task_starts p)) \<and> held_jobs (pl_scheduler p) = set (map tf_claim (pl_task_starts p)) \<and>
     (\<forall>t \<in> set (pl_tasks_to_execute p @ pl_executions p). sched_jobs (pl_scheduler p) (tx_job_code t) \<noteq> None)"

lemma pool_okI:
  assumes "index_ok (pl_scheduler p)" and "pl_errors p = []" and "distinct (map tf_claim (pl_task_starts p))"
    and "held_jobs (pl_scheduler p) = set (map tf_claim (pl_task_starts p))"
    and "\<And>t. t \<in> set (pl_tasks_to_execute p @ pl_executions p) \<Longrightarrow> sched_jobs (pl_scheduler p) (tx_job_code t) \<noteq> None"
  shows "pool_ok p"
  using assms by (simp add: pool_ok_def)

text \<open>The schedule forgets no job.\<close>

lemma transition_knows: "sched_jobs s c \<noteq> None \<Longrightarrow> sched_jobs (fst (transition_job d f s)) c \<noteq> None"
  by (auto simp: transition_job_def split: option.splits prod.splits)

lemma claim_knows:
  assumes "try_claim_due_job now s = (s', r)" and "sched_jobs s c \<noteq> None"
  shows "sched_jobs s' c \<noteq> None"
  using assms by (auto simp: try_claim_due_job_def transition_job_def split: list.splits if_splits option.splits)

lemma release_knows: "release_job x env d progress s = (s', r) \<Longrightarrow> sched_jobs s c \<noteq> None \<Longrightarrow> sched_jobs s' c \<noteq> None"
  using transition_knows [of s c d "release x (sched_config s) env progress"]
  by (auto simp: release_job_def split: prod.splits sum.splits)

lemma reschedule_knows: "reschedule_job x env d progress s = (s', r) \<Longrightarrow> sched_jobs s c \<noteq> None \<Longrightarrow> sched_jobs s' c \<noteq> None"
  using transition_knows [of s c d "\<lambda>jp. (reschedule x (sched_config s) env progress jp, ())"]
  by (auto simp: reschedule_job_def)

lemma held_known: "c \<in> held_jobs s \<Longrightarrow> sched_jobs s c \<noteq> None"
  by (auto simp: held_jobs_def)

lemma release_held:
  assumes "c \<in> held_jobs s"
  shows "\<exists>s'. release_job x env c progress s = (s', Inr ())"
proof -
  from assms obtain jp due where jp: "sched_jobs s c = Some jp" "jp_slot jp = Claimed due" by (auto simp: held_jobs_def)
  then show ?thesis
    by (auto simp: release_job_def transition_job_def release_def Let_def split: prod.splits option.splits)
qed

lemma reschedule_known: "sched_jobs s c \<noteq> None \<Longrightarrow> \<exists>s'. reschedule_job x env c progress s = (s', Inr ())"
  by (auto simp: reschedule_job_def transition_job_def)

lemma spawn_keeps:
  "pool_ok p \<Longrightarrow> pool_ok (fst (spawn_task_starts look n p)) \<and> workers_of (fst (spawn_task_starts look n p)) = workers_of p"
proof (induction look n p rule: spawn_task_starts.induct)
  case (1 look n p)
  show ?case
  proof (cases "pl_idle_workers p = []")
    case True
    with 1 show ?thesis by (simp add: spawn_task_starts.simps)
  next
    case idle: False
    have ok: "index_ok (pl_scheduler p)" using "1.prems" by (simp add: pool_ok_def)
    show ?thesis
    proof (rule try_claim_cases [OF ok, of "look n"])
      fix t c rest jp
      assume r: "try_claim_due_job (look n) (pl_scheduler p) =
        ((pl_scheduler p)\<lparr>sched_jobs := (sched_jobs (pl_scheduler p))(c \<mapsto> claim jp), due_queue := rest\<rparr>, Inr (ClaimedJob c))"
        (is "_ = (?s, _)")
      let ?p = "p\<lparr>pl_scheduler := ?s, pl_idle_workers := butlast (pl_idle_workers p),
        pl_task_starts := pl_task_starts p @ [\<lparr>tf_worker = last (pl_idle_workers p), tf_claim = c\<rparr>]\<rparr>"
      have held: "c \<notin> held_jobs (pl_scheduler p)" "held_jobs ?s = insert c (held_jobs (pl_scheduler p))"
        using claim_gives [OF ok r] by blast+
      have "pool_ok ?p"
        by (rule pool_okI)
          (use "1.prems" held index_ok_claim [OF ok, of "look n"] r in \<open>auto simp: pool_ok_def\<close>)
      moreover have "workers_of ?p = workers_of p"
        using idle by (cases "pl_idle_workers p" rule: rev_cases) (simp_all add: workers_of_def)
      moreover have "spawn_task_starts look n p = spawn_task_starts look (Suc n) ?p"
        using idle r by (subst spawn_task_starts.simps) simp
      ultimately show ?thesis using "1.IH"(2) [OF idle r [symmetric] refl refl] by simp
    qed (use "1.prems" idle in \<open>auto simp: spawn_task_starts.simps\<close>)
  qed
qed

lemma start_executions_keeps: "pool_ok p \<Longrightarrow> pool_ok (start_executions p) \<and> workers_of (start_executions p) = workers_of p"
  by (auto simp: pool_ok_def start_executions_def workers_of_def ac_simps)

lemma mset_map_remove1: "x \<in> set xs \<Longrightarrow> add_mset (f x) (mset (map f (remove1 x xs))) = mset (map f xs)"
  by (induction xs) auto

lemma distinct_claims_remove:
  assumes "distinct (map tf_claim fs)" and "f \<in> set fs"
  shows "distinct (map tf_claim (remove1 f fs))" and "set (map tf_claim (remove1 f fs)) = set (map tf_claim fs) - {tf_claim f}"
proof -
  have m: "mset (tf_claim f # map tf_claim (remove1 f fs)) = mset (map tf_claim fs)"
    using mset_map_remove1 [OF assms(2), of tf_claim] by simp
  have "distinct (tf_claim f # map tf_claim (remove1 f fs))"
    using assms(1) mset_eq_imp_distinct_iff [OF m] by blast
  moreover have "set (tf_claim f # map tf_claim (remove1 f fs)) = set (map tf_claim fs)"
    by (rule mset_eq_setD [OF m])
  ultimately have "distinct (map tf_claim (remove1 f fs))" and "tf_claim f \<notin> set (map tf_claim (remove1 f fs))"
    and "set (map tf_claim fs) = insert (tf_claim f) (set (map tf_claim (remove1 f fs)))"
    by simp_all
  then show "distinct (map tf_claim (remove1 f fs))"
    "set (map tf_claim (remove1 f fs)) = set (map tf_claim fs) - {tf_claim f}"
    by blast+
qed

lemma close_task_start_keeps:
  assumes ok: "pool_ok p" and f: "f \<in> set (pl_task_starts p)" and r: "so_worker r = tf_worker f" "so_claim r = tf_claim f"
  shows "pool_ok (close_task_start x env (Some r) (p\<lparr>pl_task_starts := remove1 f (pl_task_starts p)\<rparr>)) \<and>
    workers_of (close_task_start x env (Some r) (p\<lparr>pl_task_starts := remove1 f (pl_task_starts p)\<rparr>)) = workers_of p"
proof -
  have c: "tf_claim f \<in> held_jobs (pl_scheduler p)" using ok f by (auto simp: pool_ok_def)
  obtain s' where s': "release_job x env (tf_claim f) (so_progress r) (pl_scheduler p) = (s', Inr ())"
    using release_held [OF c] by blast
  have i: "index_ok s'" using index_ok_release [of "pl_scheduler p" x env "tf_claim f" "so_progress r"] ok s' by (simp add: pool_ok_def)
  note held = release_job_Inr [OF s']
  note knows = release_knows [OF s']
  note d = distinct_claims_remove [OF _ f]
  have claim_known: "sched_jobs s' (tf_claim f) \<noteq> None" by (rule knows [OF held_known [OF c]])
  let ?p = "p\<lparr>pl_task_starts := remove1 f (pl_task_starts p), pl_scheduler := s'\<rparr>"
  have "pool_ok ?p" by (rule pool_okI) (use ok i held knows d in \<open>auto simp: pool_ok_def\<close>)
  then have "pool_ok (close_task_start x env (Some r) (p\<lparr>pl_task_starts := remove1 f (pl_task_starts p)\<rparr>))"
    using claim_known by (auto simp: close_task_start_def pool_release_job_def Let_def r s' pool_ok_def split: option.splits)
  moreover have "workers_of (close_task_start x env (Some r) (p\<lparr>pl_task_starts := remove1 f (pl_task_starts p)\<rparr>)) = workers_of p"
    using mset_map_remove1 [OF f, of tf_worker]
    by (auto simp: close_task_start_def pool_release_job_def Let_def r s' workers_of_def ac_simps split: option.splits)
  ultimately show ?thesis by blast
qed

lemma close_execution_keeps:
  assumes ok: "pool_ok p" and t: "t \<in> set (pl_executions p)" and r: "eo_worker r = tx_worker t" "eo_job_code r = tx_job_code t"
  shows "pool_ok (close_execution x env (Some r) (p\<lparr>pl_executions := remove1 t (pl_executions p)\<rparr>)) \<and>
    workers_of (close_execution x env (Some r) (p\<lparr>pl_executions := remove1 t (pl_executions p)\<rparr>)) = workers_of p"
proof -
  have k: "sched_jobs (pl_scheduler p) (tx_job_code t) \<noteq> None" using ok t by (simp add: pool_ok_def)
  obtain s' where s': "reschedule_job x env (tx_job_code t) (eo_progress r) (pl_scheduler p) = (s', Inr ())"
    using reschedule_known [OF k] by blast
  have i: "index_ok s'" using index_ok_reschedule [of "pl_scheduler p" x env "tx_job_code t" "eo_progress r"] ok s' by (simp add: pool_ok_def)
  have held: "held_jobs s' = held_jobs (pl_scheduler p)"
    using reschedule_job_held [of x env "tx_job_code t" "eo_progress r" "pl_scheduler p"] s' by simp
  note knows = reschedule_knows [OF s']
  have sub: "set (remove1 t (pl_executions p)) \<subseteq> set (pl_executions p)" by (rule set_remove1_subset)
  let ?p = "p\<lparr>pl_executions := remove1 t (pl_executions p), pl_scheduler := s'\<rparr>"
  have "pool_ok ?p" by (rule pool_okI) (use ok i held knows sub in \<open>auto simp: pool_ok_def\<close>)
  then have "pool_ok (close_execution x env (Some r) (p\<lparr>pl_executions := remove1 t (pl_executions p)\<rparr>))"
    by (simp add: close_execution_def Let_def r s' pool_ok_def)
  moreover have "workers_of (close_execution x env (Some r) (p\<lparr>pl_executions := remove1 t (pl_executions p)\<rparr>)) = workers_of p"
    using mset_map_remove1 [OF t, of tx_worker] by (simp add: close_execution_def Let_def r s' workers_of_def ac_simps)
  ultimately show ?thesis by blast
qed

lemma report_fields:
  "so_worker (task_start_report now f ended) = tf_worker f" "so_claim (task_start_report now f ended) = tf_claim f"
  "eo_worker (execution_report t ee) = tx_worker t" "eo_job_code (execution_report t ee) = tx_job_code t"
  by (simp_all add: task_start_report_def execution_report_def split: option.splits)

lemma closing_keeps: "closing x p p' \<Longrightarrow> pool_ok p \<Longrightarrow> pool_ok p' \<and> workers_of p' = workers_of p"
  by (erule closingE) (auto simp: close_task_start_keeps close_execution_keeps report_fields)

lemma pool_step_keeps: "pool_step x p p' \<Longrightarrow> pool_ok p \<Longrightarrow> pool_ok p' \<and> workers_of p' = workers_of p"
  by (erule pool_stepE) (auto simp: pool_turn_def spawn_keeps start_executions_keeps closing_keeps)

lemma pool_new_ok: "pool_ok (worker_pool_new (scheduler_new now codes cfg) ws)"
proof (rule pool_okI)
  have "jp_slot jp \<noteq> Claimed due" if "sched_jobs (scheduler_new now codes cfg) c = Some jp" for c jp due
    using that by (auto simp: scheduler_new_def fold_upd_same split: if_splits)
  then show "held_jobs (pl_scheduler (worker_pool_new (scheduler_new now codes cfg) ws)) =
      set (map tf_claim (pl_task_starts (worker_pool_new (scheduler_new now codes cfg) ws)))"
    by (auto simp: held_jobs_def worker_pool_new_def)
qed (simp_all add: worker_pool_new_def index_ok_new)

lemma pool_reaches:
  assumes "(pool_step x)\<^sup>*\<^sup>* (worker_pool_new (scheduler_new now codes cfg) ws) p"
  shows "pool_ok p \<and> workers_of p = mset ws"
  using assms
proof (induction rule: rtranclp_induct)
  case base
  show ?case using pool_new_ok by (simp add: workers_of_def worker_pool_new_def)
next
  case (step p p')
  with pool_step_keeps show ?case by metis
qed

section \<open>What the pool guarantees\<close>

text \<open>C24. The pool keeps its books. In every state a pool reaches, however task starts and executions end, in whatever
  order, panics included: every worker is in exactly one place, idle, starting a task, waiting to execute one
  or executing one; the jobs the schedule has handed out are exactly those of the task starts in
  flight, each in one; and the schedule has refused no call of its pool.\<close>
theorem pool_books:
  assumes "(pool_step x)\<^sup>*\<^sup>* (worker_pool_new (scheduler_new now codes cfg) ws) p"
  shows "workers_of p = mset ws \<and> distinct (map tf_claim (pl_task_starts p)) \<and>
    held_jobs (pl_scheduler p) = set (map tf_claim (pl_task_starts p)) \<and> pl_errors p = []"
  using pool_reaches [OF assms] by (simp add: pool_ok_def)

definition in_flight :: "worker_pool \<Rightarrow> nat" where
  "in_flight p = length (pl_task_starts p) + length (pl_executions p)"

lemma length_remove1_Suc: "x \<in> set xs \<Longrightarrow> length xs = Suc (length (remove1 x xs))"
  by (induction xs) auto

lemma closing_in_flight: "closing x p p' \<Longrightarrow> in_flight p = Suc (in_flight p')"
proof (erule closingE)
  fix f env now ended
  assume f: "f \<in> set (pl_task_starts p)"
    and p': "p' = close_task_start x env (Some (task_start_report now f ended)) (p\<lparr>pl_task_starts := remove1 f (pl_task_starts p)\<rparr>)"
  have "length (pl_task_starts p) = Suc (length (remove1 f (pl_task_starts p)))"
    by (rule length_remove1_Suc [OF f])
  then show ?thesis
    by (auto simp: p' in_flight_def close_task_start_def pool_release_job_def report_schedule_error_def Let_def
        split: option.splits prod.splits sum.splits)
next
  fix t env ended
  assume t: "t \<in> set (pl_executions p)"
    and p': "p' = close_execution x env (Some (execution_report t ended)) (p\<lparr>pl_executions := remove1 t (pl_executions p)\<rparr>)"
  have "length (pl_executions p) = Suc (length (remove1 t (pl_executions p)))"
    by (rule length_remove1_Suc [OF t])
  then show ?thesis
    by (auto simp: p' in_flight_def close_execution_def report_schedule_error_def Let_def split: prod.splits sum.splits)
qed

lemma closing_possible: "in_flight p \<noteq> 0 \<Longrightarrow> \<exists>p'. closing x p p'"
proof -
  assume "in_flight p \<noteq> 0"
  then consider f where "f \<in> set (pl_task_starts p)" | t where "t \<in> set (pl_executions p)"
    by (cases "pl_task_starts p"; cases "pl_executions p") (auto simp: in_flight_def)
  then show ?thesis by cases (blast intro: closing.intros)+
qed

lemma closings_in_flight: "(closing x ^^ n) p p' \<Longrightarrow> in_flight p = n + in_flight p'"
  by (induction n arbitrary: p') (auto dest: closing_in_flight)

text \<open>C25. The shutdown ends. Once a pool stops, it is left with as many joins as it has task starts and executions in
  flight, never more and never stuck before that; then no job is held, and every worker is idle or holds a
  started task that was not executed.\<close>
theorem pool_shutdown_ends:
  assumes "(pool_step x)\<^sup>*\<^sup>* (worker_pool_new (scheduler_new now codes cfg) ws) p"
  shows "(\<forall>n p'. (closing x ^^ n) p p' \<longrightarrow> n \<le> in_flight p \<and> (n < in_flight p \<longrightarrow> (\<exists>p''. closing x p' p''))) \<and>
    (\<forall>p'. (closing x ^^ in_flight p) p p' \<longrightarrow> held_jobs (pl_scheduler p') = {} \<and>
       mset (pl_idle_workers p') + mset (map tx_worker (pl_tasks_to_execute p')) = mset ws)"
proof (intro conjI allI impI)
  fix n p' assume run: "(closing x ^^ n) p p'"
  show "n \<le> in_flight p" using closings_in_flight [OF run] by simp
  assume "n < in_flight p"
  then show "\<exists>p''. closing x p' p''" using closings_in_flight [OF run] by (intro closing_possible) simp
next
  fix p' assume run: "(closing x ^^ in_flight p) p p'"
  have "(pool_step x)\<^sup>*\<^sup>* p p'"
    using relpowp_imp_rtranclp [OF run] by (induction rule: rtranclp_induct) (auto intro: pool_step.closes rtranclp.rtrancl_into_rtrancl)
  then have reach: "(pool_step x)\<^sup>*\<^sup>* (worker_pool_new (scheduler_new now codes cfg) ws) p'" using assms by simp
  have none: "pl_task_starts p' = [] \<and> pl_executions p' = []" using closings_in_flight [OF run] by (simp add: in_flight_def)
  from pool_reaches [OF reach] none show "held_jobs (pl_scheduler p') = {}"
    "mset (pl_idle_workers p') + mset (map tx_worker (pl_tasks_to_execute p')) = mset ws"
    by (simp_all add: pool_ok_def workers_of_def)
qed

section \<open>A run\<close>

text \<open>Two workers, one job: the first turn hands the job to the last worker.\<close>

definition sample_pool :: worker_pool where
  "sample_pool = fst (pool_turn (\<lambda>_. 0) (worker_pool_new (scheduler_new 0 [''a''] poll_config_new) [1, 2]))"

lemma sample_pool_reached:
  "(pool_step std_externs)\<^sup>*\<^sup>* (worker_pool_new (scheduler_new 0 [''a''] poll_config_new) [1, 2]) sample_pool"
  unfolding sample_pool_def by (rule r_into_rtranclp) (rule pool_step.turn)

lemma sample_pool_starts: "pl_task_starts sample_pool = [\<lparr>tf_worker = 2, tf_claim = ''a''\<rparr>] \<and> pl_executions sample_pool = []"
  by (simp add: sample_pool_def pool_turn_def start_executions_def worker_pool_new_def scheduler_new_def
      spawn_task_starts.simps try_claim_due_job_def transition_job_def move_entry_def claim_def insort_insert_key_def queued_at_def)

theorem pool_books_witness:
  "pl_task_starts sample_pool = [\<lparr>tf_worker = 2, tf_claim = ''a''\<rparr>] \<and> workers_of sample_pool = mset [1, 2] \<and>
    held_jobs (pl_scheduler sample_pool) = {''a''}"
  using pool_books [OF sample_pool_reached] sample_pool_starts by simp

theorem pool_shutdown_ends_witness:
  "in_flight sample_pool = 1 \<and> (\<exists>p'. closing std_externs sample_pool p' \<and> held_jobs (pl_scheduler p') = {})"
proof -
  have one: "in_flight sample_pool = 1" using sample_pool_starts by (simp add: in_flight_def)
  have ends: "(\<forall>n p'. (closing std_externs ^^ n) sample_pool p' \<longrightarrow>
      n \<le> 1 \<and> (n < 1 \<longrightarrow> (\<exists>p''. closing std_externs p' p''))) \<and>
    (\<forall>p'. (closing std_externs ^^ 1) sample_pool p' \<longrightarrow> held_jobs (pl_scheduler p') = {} \<and>
      mset (pl_idle_workers p') + mset (map tx_worker (pl_tasks_to_execute p')) = mset [1, 2])"
    using pool_shutdown_ends [OF sample_pool_reached] unfolding one .
  have "(closing std_externs ^^ 0) sample_pool sample_pool" by simp
  with ends obtain p' where p': "closing std_externs sample_pool p'" by (metis less_numeral_extra(1))
  then have "(closing std_externs ^^ 1) sample_pool p'" by (simp only: relpowp_1)
  with ends one p' show ?thesis by blast
qed

end
