(* ===== verification/JM_Manager.thy ===== *)
theory JM_Manager
  imports JM_Cleaner JM_Pool
begin

text \<open>
  \<^verbatim>\<open>execution/jobs_manager.rs\<close>: the assembly of a pool, the record of finished iterations and the waits
  on it. A \<^verbatim>\<open>watch\<close> channel is its value, the number of its changes and whether its senders are gone;
  a wait is the state its loop is in, moved by \<open>wait_turn\<close>, one action at a time.
\<close>

section \<open>Settings and assembly\<close>

record jobs_manager_config =
  mc_worker_count :: nat
  mc_scheduler_config :: poll_config
  mc_retrier_config :: retrier_config
  mc_cleaner_config :: job_cleaner_config

definition jobs_manager_config_default :: jobs_manager_config where
  "jobs_manager_config_default =
     \<lparr>mc_worker_count = 1, mc_scheduler_config = poll_config_new, mc_retrier_config = retrier_config_default,
      mc_cleaner_config = job_cleaner_config_default\<rparr>"

record 'b jobs_manager =
  mgr_registry :: job_registry
  mgr_storage :: 'b
  mgr_config :: jobs_manager_config

definition jobs_manager_new :: "'b \<Rightarrow> jobs_manager_config \<Rightarrow> job_registry \<Rightarrow> error + 'b jobs_manager" where
  "jobs_manager_new st cfg reg =
     (if mc_worker_count cfg = 0 then Inl (ErrOther ''worker count must be at least 1'')
      else Inr \<lparr>mgr_registry = reg, mgr_storage = st, mgr_config = cfg\<rparr>)"

section \<open>Finished iterations\<close>

record watch =
  wt_value :: "u64 option"
  wt_version :: nat
  wt_closed :: bool

type_synonym finished_iterations = "(job_code \<times> watch) list"

definition watch_channel :: watch where
  "watch_channel = \<lparr>wt_value = None, wt_version = 0, wt_closed = False\<rparr>"

definition finished_iterations_new :: "job_code list \<Rightarrow> finished_iterations" where
  "finished_iterations_new codes = fold (\<lambda>c fi. AList.update c watch_channel fi) codes []"

definition send_if_newer :: "u64 \<Rightarrow> watch \<Rightarrow> watch" where
  "send_if_newer n w =
     (if (case wt_value w of None \<Rightarrow> True | Some recorded \<Rightarrow> recorded < n)
      then w\<lparr>wt_value := Some n, wt_version := Suc (wt_version w)\<rparr> else w)"

definition record_finished_iteration :: "job_code \<Rightarrow> u64 \<Rightarrow> finished_iterations \<Rightarrow> finished_iterations" where
  "record_finished_iteration c n fi = (case map_of fi c of
      None \<Rightarrow> fi
    | Some w \<Rightarrow> AList.update c (send_if_newer n w) fi)"

text \<open>The workers are the only owners of the senders: with the end of the pool every channel is closed.\<close>

definition drop_senders :: "finished_iterations \<Rightarrow> finished_iterations" where
  "drop_senders fi = map (\<lambda>(c, w). (c, w\<lparr>wt_closed := True\<rparr>)) fi"

section \<open>Waiting for an iteration\<close>

datatype waiting = NotCalled | Looking | Sleeping nat | WaitEnded "error + u64"

record wait_state =
  ws_finished :: finished_iterations
  ws_waiting :: waiting

definition call_wait :: "job_code \<Rightarrow> finished_iterations \<Rightarrow> waiting" where
  "call_wait c fi = (case map_of fi c of
      None \<Rightarrow> WaitEnded (Inl (ErrOther ''job is not run by this pool''))
    | Some _ \<Rightarrow> Looking)"

text \<open>
  One action of the loop of \<^verbatim>\<open>wait_for_matching_iteration\<close>: the look at the number, and the wait for a change of
  it, which ends at once when the number changed since it was looked at and fails once the senders are
  gone and it did not.
\<close>

definition wait_turn :: "(u64 \<Rightarrow> bool) \<Rightarrow> job_code \<Rightarrow> finished_iterations \<Rightarrow> waiting \<Rightarrow> waiting" where
  "wait_turn is_awaited c fi waiting = (case map_of fi c of
      None \<Rightarrow> waiting
    | Some w \<Rightarrow> (case waiting of
        Looking \<Rightarrow> (case wt_value w of
            Some n \<Rightarrow> if is_awaited n then WaitEnded (Inr n) else Sleeping (wt_version w)
          | None \<Rightarrow> Sleeping (wt_version w))
      | Sleeping seen \<Rightarrow>
          if wt_version w \<noteq> seen then Looking
          else if wt_closed w
            then WaitEnded (Inl (ErrOther ''the worker pool stopped before an iteration of the job finished''))
          else Sleeping seen
      | _ \<Rightarrow> waiting))"

definition awaits_iteration :: "u64 \<Rightarrow> bool" where
  "awaits_iteration n = True"

definition awaits_job :: "job_registry \<Rightarrow> job_code \<Rightarrow> error + (u64 \<Rightarrow> bool)" where
  "awaits_job reg c = bindR (get_job c reg) (\<lambda>jd. case jd_max_iterations jd of
      None \<Rightarrow> Inl (ErrOther ''job has no iteration limit, so it never completes'')
    | Some limit \<Rightarrow> Inr (\<lambda>n. limit \<le> n))"

section \<open>Starting the pool\<close>

datatype spawned = SpawnedCleaner | SpawnedPool

record 'b jobs_manager_handle =
  mh_cancelled :: bool
  mh_join_set :: "spawned list"
  mh_aborted :: bool
  mh_finished_iterations :: finished_iterations
  mh_registry :: job_registry
  mh_pool :: worker_pool
  mh_cleaner_capacity :: "nat option"

text \<open>\<^verbatim>\<open>mpsc::channel\<close> panics on a capacity of zero.\<close>

definition spawn_job_cleaner :: "'b jobs_manager \<Rightarrow> error + nat option" where
  "spawn_job_cleaner m =
     (if \<not> cleaner_enabled (mc_cleaner_config (mgr_config m)) then Inr None
      else if jobs_count (mgr_registry m) * 5 = 0 then Inl (ErrOther ''panic: mpsc bounded channel requires buffer > 0'')
      else Inr (Some (jobs_count (mgr_registry m) * 5)))"

definition manager_start :: "instant \<Rightarrow> (nat \<Rightarrow> uuid) \<Rightarrow> 'b jobs_manager \<Rightarrow> error + 'b jobs_manager_handle" where
  "manager_start now mint m = bindR (spawn_job_cleaner m) (\<lambda>capacity.
     Inr \<lparr>mh_cancelled = False,
          mh_join_set = (if capacity = None then [] else [SpawnedCleaner]) @ [SpawnedPool],
          mh_aborted = False,
          mh_finished_iterations = finished_iterations_new (list_jobs (mgr_registry m)),
          mh_registry = mgr_registry m,
          mh_pool = worker_pool_new
            (scheduler_new now (list_jobs (mgr_registry m)) (mc_scheduler_config (mgr_config m)))
            (map mint [0..<mc_worker_count (mgr_config m)]),
          mh_cleaner_capacity = capacity\<rparr>)"

section \<open>Stopping the pool\<close>

text \<open>
  What a joined task ended with, its result or that it panicked or was aborted, is an input, and so is whether a signal can be listened for.
  \<^verbatim>\<open>shutdown\<close> takes the handle, so the handle is dropped where it ends.
\<close>

type_synonym join_result = "string + (internal_error + unit)"

fun join_all :: "(spawned \<Rightarrow> join_result) \<Rightarrow> spawned list \<Rightarrow> error + unit" where
  "join_all ended [] = Inr ()"
| "join_all ended (t # ts) = (case ended t of
      Inr (Inr _) \<Rightarrow> join_all ended ts
    | Inr (Inl e) \<Rightarrow> join_all ended ts
    | Inl e \<Rightarrow> join_all ended ts)"

definition handle_wait ::
  "(spawned \<Rightarrow> join_result) \<Rightarrow> 'b jobs_manager_handle \<Rightarrow> 'b jobs_manager_handle \<times> (error + unit)" where
  "handle_wait ended h = (h\<lparr>mh_join_set := []\<rparr>, join_all ended (mh_join_set h))"

definition abort :: "'b jobs_manager_handle \<Rightarrow> 'b jobs_manager_handle" where
  "abort h = h\<lparr>mh_cancelled := True, mh_aborted := mh_aborted h \<or> mh_join_set h \<noteq> []\<rparr>"

definition drop_handle :: "'b jobs_manager_handle \<Rightarrow> 'b jobs_manager_handle" where
  "drop_handle h = abort h"

definition shutdown ::
  "(spawned \<Rightarrow> join_result) \<Rightarrow> 'b jobs_manager_handle \<Rightarrow> 'b jobs_manager_handle \<times> (error + unit)" where
  "shutdown ended h = (case handle_wait ended (h\<lparr>mh_cancelled := True\<rparr>) of (h', r) \<Rightarrow> (drop_handle h', r))"

definition shutdown_on_signal ::
  "string + unit \<Rightarrow> (spawned \<Rightarrow> join_result) \<Rightarrow> 'b jobs_manager_handle \<Rightarrow> 'b jobs_manager_handle \<times> (error + unit)" where
  "shutdown_on_signal signal ended h = (case signal of
      Inl e \<Rightarrow> (drop_handle h, Inl (ErrOther (''failed to listen for shutdown signal: '' @ e)))
    | Inr _ \<Rightarrow> shutdown ended h)"

text \<open>A graceful shutdown joins the pool and the cleaner, however each of them ended, aborts neither and never fails;
  a handle that is dropped instead aborts both, and one whose signal cannot be listened for does too.\<close>

lemma join_all_ok: "join_all ended ts = Inr ()"
  by (induction ts) (auto split: sum.split)

lemma shutdown_joins:
  "snd (shutdown ended h) = Inr ()" "mh_join_set (fst (shutdown ended h)) = []" "mh_cancelled (fst (shutdown ended h))"
  "mh_aborted (fst (shutdown ended h)) = mh_aborted h"
  by (simp_all add: shutdown_def handle_wait_def drop_handle_def abort_def join_all_ok)

lemma started_handle_stops:
  assumes "manager_start now mint m = Inr h"
  shows "\<not> mh_aborted (fst (shutdown ended h))" and "mh_aborted (drop_handle h)"
    and "mh_aborted (fst (shutdown_on_signal signal ended h)) \<longleftrightarrow> (\<exists>e. signal = Inl e)"
proof -
  from assms have h: "\<not> mh_aborted h" "mh_join_set h \<noteq> []" by (auto simp: manager_start_def split: sum.splits)
  then show "\<not> mh_aborted (fst (shutdown ended h))" and "mh_aborted (drop_handle h)"
    by (simp_all add: shutdown_joins drop_handle_def abort_def)
  then show "mh_aborted (fst (shutdown_on_signal signal ended h)) \<longleftrightarrow> (\<exists>e. signal = Inl e)"
    by (auto simp: shutdown_on_signal_def split: sum.split)
qed

section \<open>A wait beside the pool it watches\<close>

datatype wait_event = is_report: Reported job_code u64 | PoolStopped | WaitCalled | WaitTurned

definition wait_step :: "(u64 \<Rightarrow> bool) \<Rightarrow> job_code \<Rightarrow> wait_event \<Rightarrow> wait_state \<Rightarrow> wait_state" where
  "wait_step p c ev s = (case ev of
      Reported d n \<Rightarrow> s\<lparr>ws_finished := record_finished_iteration d n (ws_finished s)\<rparr>
    | PoolStopped \<Rightarrow> s\<lparr>ws_finished := drop_senders (ws_finished s)\<rparr>
    | WaitCalled \<Rightarrow> if ws_waiting s = NotCalled then s\<lparr>ws_waiting := call_wait c (ws_finished s)\<rparr> else s
    | WaitTurned \<Rightarrow> s\<lparr>ws_waiting := wait_turn p c (ws_finished s) (ws_waiting s)\<rparr>)"

definition wait_run :: "(u64 \<Rightarrow> bool) \<Rightarrow> job_code \<Rightarrow> job_code list \<Rightarrow> wait_event list \<Rightarrow> wait_state" where
  "wait_run p c codes evs = fold (wait_step p c) evs \<lparr>ws_finished = finished_iterations_new codes, ws_waiting = NotCalled\<rparr>"

text \<open>No report follows the end of the pool: the workers that make them are gone.\<close>

fun events_ok :: "wait_event list \<Rightarrow> bool" where
  "events_ok [] = True"
| "events_ok (ev # evs) = ((ev = PoolStopped \<longrightarrow> \<not> list_ex is_report evs) \<and> events_ok evs)"

definition reports_of :: "job_code \<Rightarrow> wait_event list \<Rightarrow> u64 set" where
  "reports_of c evs = {n. Reported c n \<in> set evs}"

lemma events_ok_snoc: "events_ok (evs @ [ev]) \<longleftrightarrow> events_ok evs \<and> (is_report ev \<longrightarrow> PoolStopped \<notin> set evs)"
  by (induction evs) auto

lemma finite_reports: "finite (reports_of c evs)"
proof -
  have "reports_of c evs \<subseteq> (\<lambda>ev. case ev of Reported d n \<Rightarrow> n | _ \<Rightarrow> 0) ` set evs"
    by (force simp: reports_of_def)
  then show ?thesis by (rule finite_subset) simp
qed

lemma reports_snoc:
  "reports_of c (evs @ [ev]) = (case ev of Reported d n \<Rightarrow> if d = c then insert n (reports_of c evs) else reports_of c evs
     | _ \<Rightarrow> reports_of c evs)"
  by (auto simp: reports_of_def split: wait_event.splits)

definition newest :: "u64 set \<Rightarrow> u64 option" where
  "newest R = (if R = {} then None else Some (Max R))"

lemma newest_insert:
  "finite R \<Longrightarrow> newest (insert n R) = (case newest R of None \<Rightarrow> Some n | Some m \<Rightarrow> Some (max m n))"
  by (auto simp: newest_def max.commute)

definition is_due :: "(u64 \<Rightarrow> bool) \<Rightarrow> watch \<Rightarrow> bool" where
  "is_due p w = (case wt_value w of None \<Rightarrow> False | Some n \<Rightarrow> p n)"

text \<open>What a waiting may have seen of the channel it waits on.\<close>

fun waiting_ok :: "(u64 \<Rightarrow> bool) \<Rightarrow> u64 set \<Rightarrow> watch \<Rightarrow> waiting \<Rightarrow> bool" where
  "waiting_ok p R w NotCalled = True"
| "waiting_ok p R w Looking = True"
| "waiting_ok p R w (Sleeping seen) = (seen \<le> wt_version w \<and> (seen = wt_version w \<longrightarrow> \<not> is_due p w))"
| "waiting_ok p R w (WaitEnded (Inr n)) = (p n \<and> n \<in> R)"
| "waiting_ok p R w (WaitEnded (Inl e)) = (wt_closed w \<and> \<not> is_due p w)"

definition wait_ok :: "(u64 \<Rightarrow> bool) \<Rightarrow> job_code \<Rightarrow> wait_event list \<Rightarrow> wait_state \<Rightarrow> watch \<Rightarrow> bool" where
  "wait_ok p c evs s w \<longleftrightarrow> map_of (ws_finished s) c = Some w \<and> wt_value w = newest (reports_of c evs) \<and>
     wt_closed w = (PoolStopped \<in> set evs) \<and> waiting_ok p (reports_of c evs) w (ws_waiting s)"

lemma finished_new_lookup:
  "map_of (finished_iterations_new codes) c = (if c \<in> set codes then Some watch_channel else None)"
proof -
  have "map_of (fold (\<lambda>c. AList.update c watch_channel) codes m) c = (if c \<in> set codes then Some watch_channel else map_of m c)" for m
    by (induction codes arbitrary: m) (auto simp: update_conv')
  then show ?thesis by (simp add: finished_iterations_new_def)
qed

lemma record_lookup:
  "map_of (record_finished_iteration d n fi) c =
     (if d = c then map_option (send_if_newer n) (map_of fi c) else map_of fi c)"
  by (auto simp: record_finished_iteration_def update_conv' split: option.splits)

lemma drop_senders_lookup: "map_of (drop_senders fi) c = map_option (\<lambda>w. w\<lparr>wt_closed := True\<rparr>) (map_of fi c)"
  by (induction fi) (auto simp: drop_senders_def)

lemma waiting_ok_more: "waiting_ok p R w v \<Longrightarrow> R \<subseteq> R' \<Longrightarrow> waiting_ok p R' w v"
  by (induction p R w v rule: waiting_ok.induct) auto

lemma waiting_ok_send:
  assumes "waiting_ok p R w v" and "\<not> wt_closed w"
  shows "waiting_ok p (insert n R) (send_if_newer n w) v"
  using assms by (induction p R w v rule: waiting_ok.induct) (auto simp: send_if_newer_def is_due_def)

lemma waiting_ok_closed: "waiting_ok p R w v \<Longrightarrow> waiting_ok p R (w\<lparr>wt_closed := True\<rparr>) v"
  by (induction p R w v rule: waiting_ok.induct) (auto simp: is_due_def)

lemma newest_in: "finite R \<Longrightarrow> newest R = Some n \<Longrightarrow> n \<in> R"
  by (metis Max_in newest_def option.distinct(1) option.inject)

lemma wait_turn_ok:
  assumes "map_of fi c = Some w" and "wt_value w = newest R" and "finite R" and "waiting_ok p R w v"
  shows "waiting_ok p R w (wait_turn p c fi v)"
  using assms newest_in [OF assms(3)]
  by (cases v) (auto simp: wait_turn_def is_due_def split: option.splits)

lemma wait_ok_step:
  assumes ok: "wait_ok p c evs s w" and ev: "is_report ev \<longrightarrow> PoolStopped \<notin> set evs"
  shows "\<exists>w'. wait_ok p c (evs @ [ev]) (wait_step p c ev s) w'"
proof (cases ev)
  case (Reported d n)
  show ?thesis
  proof (cases "d = c")
    case True
    have "wt_value (send_if_newer n w) = newest (insert n (reports_of c evs))"
      using ok newest_insert [OF finite_reports, of n c evs]
      by (auto simp: wait_ok_def send_if_newer_def split: option.splits)
    moreover have "waiting_ok p (insert n (reports_of c evs)) (send_if_newer n w) (ws_waiting s)"
      by (rule waiting_ok_send) (use ok ev Reported in \<open>auto simp: wait_ok_def\<close>)
    ultimately show ?thesis
      using ok True by (intro exI [of _ "send_if_newer n w"])
        (simp add: wait_ok_def Reported wait_step_def record_lookup reports_snoc send_if_newer_def)
  next
    case False
    with ok show ?thesis by (auto simp: wait_ok_def Reported wait_step_def record_lookup reports_snoc)
  qed
next
  case PoolStopped
  have "waiting_ok p (reports_of c evs) (w\<lparr>wt_closed := True\<rparr>) (ws_waiting s)"
    by (rule waiting_ok_closed) (use ok in \<open>simp add: wait_ok_def\<close>)
  with ok show ?thesis
    by (intro exI [of _ "w\<lparr>wt_closed := True\<rparr>"])
      (simp add: wait_ok_def PoolStopped wait_step_def drop_senders_lookup reports_snoc)
next
  case WaitCalled
  with ok show ?thesis by (auto simp: wait_ok_def wait_step_def call_wait_def reports_snoc)
next
  case WaitTurned
  have "waiting_ok p (reports_of c evs) w (wait_turn p c (ws_finished s) (ws_waiting s))"
    by (rule wait_turn_ok) (use ok finite_reports in \<open>auto simp: wait_ok_def\<close>)
  with ok WaitTurned show ?thesis by (auto simp: wait_ok_def wait_step_def reports_snoc)
qed

lemma wait_run_ok:
  assumes "events_ok evs" and "c \<in> set codes"
  shows "\<exists>w. wait_ok p c evs (wait_run p c codes evs) w"
  using assms(1)
proof (induction evs rule: rev_induct)
  case Nil
  show ?case using assms(2)
    by (simp add: wait_ok_def wait_run_def finished_new_lookup watch_channel_def newest_def reports_of_def)
next
  case (snoc ev evs)
  then obtain w where "wait_ok p c evs (wait_run p c codes evs) w" by (auto simp: events_ok_snoc)
  from wait_ok_step [OF this, of ev] snoc.prems show ?case by (simp add: wait_run_def events_ok_snoc)
qed

text \<open>The conditions the handle waits for, which a later iteration keeps.\<close>

definition handle_awaits :: "job_registry \<Rightarrow> job_code \<Rightarrow> (u64 \<Rightarrow> bool) \<Rightarrow> bool" where
  "handle_awaits reg c p \<longleftrightarrow> p = awaits_iteration \<or> awaits_job reg c = Inr p"

lemma handle_awaits_later: "handle_awaits reg c p \<Longrightarrow> p m \<Longrightarrow> m \<le> n \<Longrightarrow> p n"
  by (auto simp: handle_awaits_def awaits_iteration_def awaits_job_def split: option.splits)

lemma newest_due:
  assumes "finite R" and "n \<in> R" and "p n" and "handle_awaits reg c p" and "wt_value w = newest R"
  shows "is_due p w"
  using assms handle_awaits_later [OF assms(4,3) Max_ge [OF assms(1,2)]] by (auto simp: is_due_def newest_def)

text \<open>A wait that is called has two turns to the number it waits for, and three to the end of a stopped pool.\<close>

lemma due_found:
  assumes "map_of fi c = Some w" and "is_due p w" and "waiting_ok p R w v" and "v \<noteq> NotCalled"
  shows "\<exists>n. (wait_turn p c fi ^^ 2) v = WaitEnded (Inr n)"
proof (cases v)
  case (WaitEnded r)
  with assms show ?thesis by (cases r) (auto simp: wait_turn_def numeral_2_eq_2)
qed (use assms in \<open>auto simp: wait_turn_def is_due_def numeral_2_eq_2 split: option.splits\<close>)

lemma closed_ends:
  assumes "map_of fi c = Some w" and "wt_closed w" and "v \<noteq> NotCalled"
  shows "\<exists>r. (wait_turn p c fi ^^ 3) v = WaitEnded r"
  using assms by (cases v) (auto simp: wait_turn_def numeral_3_eq_3 split: option.splits)

text \<open>C26. No finished iteration is missed. For every interleaving of the reports of the workers, the end of the pool and the
  turns of a wait for an iteration or for the end of a job, called at any moment: an answer is a number
  that was reported and meets the condition; a wait that fails has a pool that stopped without such a
  report; once such a report was made, the wait is at most two turns from its answer, asleep or not; and
  once the pool stopped, no wait is left hanging.\<close>
theorem wait_never_misses:
  assumes "events_ok evs" and "c \<in> set codes" and "handle_awaits reg c p"
    and "s = wait_run p c codes evs"
  shows "(\<forall>n. ws_waiting s = WaitEnded (Inr n) \<longrightarrow> p n \<and> Reported c n \<in> set evs) \<and>
    (\<forall>e. ws_waiting s = WaitEnded (Inl e) \<longrightarrow> PoolStopped \<in> set evs \<and> (\<forall>n. Reported c n \<in> set evs \<longrightarrow> \<not> p n)) \<and>
    (\<forall>n. Reported c n \<in> set evs \<longrightarrow> p n \<longrightarrow> ws_waiting s \<noteq> NotCalled \<longrightarrow>
       (\<exists>m. (wait_turn p c (ws_finished s) ^^ 2) (ws_waiting s) = WaitEnded (Inr m))) \<and>
    (PoolStopped \<in> set evs \<longrightarrow> ws_waiting s \<noteq> NotCalled \<longrightarrow>
       (\<exists>r. (wait_turn p c (ws_finished s) ^^ 3) (ws_waiting s) = WaitEnded r))"
proof -
  obtain w where "wait_ok p c evs s w" using wait_run_ok [OF assms(1,2)] assms(4) by blast
  then have w: "map_of (ws_finished s) c = Some w" "wt_value w = newest (reports_of c evs)"
    "wt_closed w = (PoolStopped \<in> set evs)" "waiting_ok p (reports_of c evs) w (ws_waiting s)"
    by (simp_all add: wait_ok_def)
  have due: "is_due p w" if "Reported c n \<in> set evs" "p n" for n
    by (rule newest_due [OF finite_reports [of c evs] _ that(2) assms(3) w(2)]) (use that in \<open>simp add: reports_of_def\<close>)
  show ?thesis
    using w(3,4) due due_found [OF w(1) _ w(4)] closed_ends [OF w(1)] by (auto simp: reports_of_def)
qed

text \<open>A wait falls asleep before the first report and is woken by it.\<close>

definition sample_waited :: "wait_event list" where
  "sample_waited = [WaitCalled, WaitTurned, Reported ''a'' 1]"

lemma sample_waiting: "ws_waiting (wait_run awaits_iteration ''a'' [''a''] sample_waited) = Sleeping 0"
  by (simp add: wait_run_def sample_waited_def wait_step_def call_wait_def wait_turn_def finished_iterations_new_def
      watch_channel_def)

theorem wait_never_misses_witness:
  "ws_waiting (wait_run awaits_iteration ''a'' [''a''] sample_waited) = Sleeping 0 \<and>
   (\<exists>m. (wait_turn awaits_iteration ''a'' (ws_finished (wait_run awaits_iteration ''a'' [''a''] sample_waited)) ^^ 2)
      (Sleeping 0) = WaitEnded (Inr m))"
  using wait_never_misses [of sample_waited "''a''" "[''a'']" "\<lparr>reg_jobs = [], reg_executors = []\<rparr>" awaits_iteration, OF _ _ _ refl] sample_waiting
  by (auto simp: sample_waited_def handle_awaits_def awaits_iteration_def)

end
