(* ===== verification/JM_Provider_Errors.thy ===== *)
theory JM_Provider_Errors
  imports JM_Backend
begin

text \<open>
  \<^verbatim>\<open>storage/http_error.rs\<close>, \<^verbatim>\<open>s3_error.rs\<close>, \<^verbatim>\<open>azure_error.rs\<close> and \<^verbatim>\<open>gcs_error.rs\<close>: what a failure of a provider
  means to the code above it. An error of a vendor library is the part of it the sources look at and the
  text it prints; a body is the text its bytes print.
\<close>

section \<open>Statuses\<close>

datatype http_outcome = HttpNotModified | HttpFailed storage_error

definition classify_http_status :: "nat \<Rightarrow> string \<Rightarrow> http_outcome" where
  "classify_http_status status details =
     (if status = 304 then HttpNotModified
      else if status \<in> {401, 403} then HttpFailed (Auth details)
      else if status = 404 then HttpFailed (NotFound details)
      else if status = 408 then HttpFailed Timeout
      else if status = 412 then HttpFailed (ConcurrentModification details)
      else if status = 429 then HttpFailed RateLimited
      else if status \<in> {500, 502, 503, 504} then HttpFailed ServiceUnavailable
      else HttpFailed (Backend details))"

section \<open>S3\<close>

datatype sdk_error = ServiceError nat string | SdkTimeoutError string | SdkDispatchFailure string | SdkOtherError string

datatype s3_failure = S3Refused sdk_error | S3Unread string | S3Unusable storage_error

definition conditional_read_reached :: "string \<Rightarrow> storage_error" where
  "conditional_read_reached text = StorageOther (''conditional read answer reached error mapping: '' @ text)"

fun map_s3_error :: "sdk_error \<Rightarrow> storage_error" where
  "map_s3_error (ServiceError status text) =
     (case classify_http_status status (''S3 SDK error: '' @ text) of
        HttpFailed e \<Rightarrow> e
      | HttpNotModified \<Rightarrow> conditional_read_reached text)"
| "map_s3_error (SdkTimeoutError text) = Timeout"
| "map_s3_error (SdkDispatchFailure text) = ServiceUnavailable"
| "map_s3_error (SdkOtherError text) = Backend (''S3 SDK error: '' @ text)"

fun s3_into_storage_error :: "s3_failure \<Rightarrow> storage_error" where
  "s3_into_storage_error (S3Refused e) = map_s3_error e"
| "s3_into_storage_error (S3Unread text) = Backend (''Failed to read job body: '' @ text)"
| "s3_into_storage_error (S3Unusable e) = e"

fun s3_recorded_status :: "s3_failure \<Rightarrow> request_status" where
  "s3_recorded_status (S3Refused (ServiceError status text)) = Answered status"
| "s3_recorded_status _ = RequestFailed"

fun s3_is_not_modified :: "s3_failure \<Rightarrow> bool" where
  "s3_is_not_modified (S3Refused (ServiceError status text)) = (classify_http_status status [] = HttpNotModified)"
| "s3_is_not_modified _ = False"

definition s3_provider_error :: "s3_failure provider_error" where
  "s3_provider_error = \<lparr>into_storage_error = s3_into_storage_error, recorded_status = s3_recorded_status,
     is_not_modified = s3_is_not_modified, is_object_gone = (\<lambda>_. False)\<rparr>"

record object_delete_error =
  de_key :: "string option"
  de_code :: "string option"
  de_message :: "string option"

definition MAX_DESCRIBED_DELETE_FAILURES :: nat where
  "MAX_DESCRIBED_DELETE_FAILURES = 10"

definition map_delete_failure_code :: "string option \<Rightarrow> storage_error option" where
  "map_delete_failure_code code = (case code of
      None \<Rightarrow> None
    | Some c \<Rightarrow>
        if c \<in> {''SlowDown'', ''RequestLimitExceeded''} then Some RateLimited
        else if c \<in> {''RequestTimeout'', ''RequestTimeoutException''} then Some Timeout
        else if c \<in> {''InternalError'', ''ServiceUnavailable'', ''PriorRequestNotComplete''} then Some ServiceUnavailable
        else None)"

definition unwrap_or :: "'a \<Rightarrow> 'a option \<Rightarrow> 'a" where
  "unwrap_or d v = (case v of None \<Rightarrow> d | Some a \<Rightarrow> a)"

definition describe_delete_failure :: "object_delete_error \<Rightarrow> string" where
  "describe_delete_failure f = unwrap_or ''unnamed object'' (de_key f) @ '' ('' @ unwrap_or ''no code'' (de_code f) @ '': '' @
     unwrap_or ''no message'' (de_message f) @ '')''"

fun join_with :: "string \<Rightarrow> string list \<Rightarrow> string" where
  "join_with sep [] = []"
| "join_with sep [s] = s"
| "join_with sep (s # t # ss) = s @ sep @ join_with sep (t # ss)"

definition describe_delete_failures :: "object_delete_error list \<Rightarrow> string" where
  "describe_delete_failures failures =
     (let description = join_with '', '' (map describe_delete_failure (take MAX_DESCRIBED_DELETE_FAILURES failures));
          omitted = length failures - MAX_DESCRIBED_DELETE_FAILURES
      in if omitted > 0 then description @ '' (+'' @ show_nat omitted @ '' more)'' else description)"

fun find_transient :: "object_delete_error list \<Rightarrow> storage_error option" where
  "find_transient [] = None"
| "find_transient (f # fs) = (case map_delete_failure_code (de_code f) of Some e \<Rightarrow> Some e | None \<Rightarrow> find_transient fs)"

definition classify_delete_failures :: "object_delete_error list \<Rightarrow> storage_error option" where
  "classify_delete_failures failures =
     (if failures = [] then None
      else case find_transient failures of
          Some e \<Rightarrow> Some e
        | None \<Rightarrow> Some (Backend (''Failed to delete job state objects: '' @ describe_delete_failures failures)))"

section \<open>Azure Blob Storage\<close>

datatype azure_error_kind =
    AzHttpResponse nat "string option" | AzConnection | AzIo | AzCredential | AzDataConversion | AzOther

record azure_error =
  az_kind :: azure_error_kind
  az_text :: string

definition az_lost_creation_race :: "string option \<Rightarrow> bool" where
  "az_lost_creation_race code = (case code of None \<Rightarrow> True | Some c \<Rightarrow> c = ''BlobAlreadyExists'' \<or> c = ''ContainerAlreadyExists'')"

definition az_refused_condition :: "string option \<Rightarrow> bool" where
  "az_refused_condition code = (case code of None \<Rightarrow> True | Some c \<Rightarrow> c = ''ConditionNotMet'')"

definition azure_into_storage_error :: "azure_error \<Rightarrow> storage_error" where
  "azure_into_storage_error e = (let text = ''Azure storage error: '' @ az_text e in case az_kind e of
      AzHttpResponse status code \<Rightarrow>
        if status = 409 \<and> az_lost_creation_race code then ConcurrentModification text
        else if status = 412 \<and> \<not> az_refused_condition code then Backend text
        else (case classify_http_status status text of
            HttpFailed error \<Rightarrow> error
          | HttpNotModified \<Rightarrow> conditional_read_reached (az_text e))
    | AzConnection \<Rightarrow> ServiceUnavailable
    | AzIo \<Rightarrow> ServiceUnavailable
    | AzCredential \<Rightarrow> Auth text
    | AzDataConversion \<Rightarrow> Backend text
    | AzOther \<Rightarrow> Backend text)"

definition azure_recorded_status :: "azure_error \<Rightarrow> request_status" where
  "azure_recorded_status e = (case az_kind e of AzHttpResponse status code \<Rightarrow> Answered status | _ \<Rightarrow> RequestFailed)"

definition azure_is_not_modified :: "azure_error \<Rightarrow> bool" where
  "azure_is_not_modified e = (case az_kind e of
      AzHttpResponse status code \<Rightarrow> classify_http_status status [] = HttpNotModified | _ \<Rightarrow> False)"

definition azure_is_object_gone :: "azure_error \<Rightarrow> bool" where
  "azure_is_object_gone e = (case az_kind e of
      AzHttpResponse status code \<Rightarrow> status = 404 \<and> (case code of None \<Rightarrow> True | Some c \<Rightarrow> c = ''BlobNotFound'')
    | _ \<Rightarrow> False)"

definition azure_provider_error :: "azure_error provider_error" where
  "azure_provider_error = \<lparr>into_storage_error = azure_into_storage_error, recorded_status = azure_recorded_status,
     is_not_modified = azure_is_not_modified, is_object_gone = azure_is_object_gone\<rparr>"

section \<open>Google Cloud Storage\<close>

text \<open>An error of the transport is what it answers for itself: that it timed out, that no request could be built.\<close>

record transport_error =
  te_is_timeout :: bool
  te_is_builder :: bool
  te_text :: string

datatype gcs_request_error = Unauthorized string bool | Transport transport_error

record json_api_response =
  ja_status :: nat
  ja_generation :: "string option"
  ja_body :: object_body

datatype gcs_failure = GcsUnanswered gcs_request_error | GcsRefused nat string | GcsUnusable storage_error

definition MAX_DESCRIBED_BODY :: nat where
  "MAX_DESCRIBED_BODY = 512"

definition is_successful :: "nat \<Rightarrow> bool" where
  "is_successful status \<longleftrightarrow> 200 \<le> status \<and> status < 300"

definition gcs_is_not_modified :: "nat \<Rightarrow> bool" where
  "gcs_is_not_modified status \<longleftrightarrow> classify_http_status status [] = HttpNotModified"

definition is_absent_status :: "nat \<Rightarrow> bool" where
  "is_absent_status status = (case classify_http_status status [] of HttpFailed (NotFound _) \<Rightarrow> True | _ \<Rightarrow> False)"

definition gcs_lost_creation_race :: "nat \<Rightarrow> bool" where
  "gcs_lost_creation_race status \<longleftrightarrow> status = 409"

definition map_response_status :: "nat \<Rightarrow> string \<Rightarrow> storage_error" where
  "map_response_status status details = (case classify_http_status status details of
      HttpFailed e \<Rightarrow> e
    | HttpNotModified \<Rightarrow>
        StorageOther (''conditional read answer reached error mapping under status '' @ show_nat status))"

fun map_request_error :: "gcs_request_error \<Rightarrow> storage_error" where
  "map_request_error (Unauthorized details is_transient) = (if is_transient then ServiceUnavailable else Auth details)"
| "map_request_error (Transport e) =
     (if te_is_timeout e then Timeout
      else if te_is_builder e then Backend (''gcs request could not be built: '' @ te_text e)
      else ServiceUnavailable)"

definition describe_refusal :: "string \<Rightarrow> string \<Rightarrow> json_api_response \<Rightarrow> string" where
  "describe_refusal operation key response = ''gcs '' @ operation @ '' of '' @ key @ '' answered '' @
     show_nat (ja_status response) @ '': '' @ take MAX_DESCRIBED_BODY (ja_body response)"

fun gcs_into_storage_error :: "gcs_failure \<Rightarrow> storage_error" where
  "gcs_into_storage_error (GcsUnanswered e) = map_request_error e"
| "gcs_into_storage_error (GcsRefused status details) = map_response_status status details"
| "gcs_into_storage_error (GcsUnusable e) = e"

fun gcs_recorded_status :: "gcs_failure \<Rightarrow> request_status" where
  "gcs_recorded_status (GcsUnanswered (Unauthorized details is_transient)) = RequestNotSent"
| "gcs_recorded_status (GcsRefused status details) = Answered status"
| "gcs_recorded_status (GcsUnanswered (Transport e)) = RequestFailed"
| "gcs_recorded_status (GcsUnusable e) = RequestFailed"

fun gcs_refused_status :: "gcs_failure \<Rightarrow> nat option" where
  "gcs_refused_status (GcsRefused status details) = Some status"
| "gcs_refused_status _ = None"

definition gcs_provider_error :: "gcs_failure provider_error" where
  "gcs_provider_error = \<lparr>into_storage_error = gcs_into_storage_error, recorded_status = gcs_recorded_status,
     is_not_modified = (\<lambda>e. case gcs_refused_status e of Some s \<Rightarrow> gcs_is_not_modified s | None \<Rightarrow> False),
     is_object_gone = (\<lambda>e. case gcs_refused_status e of Some s \<Rightarrow> is_absent_status s | None \<Rightarrow> False)\<rparr>"

lemmas provider_error_simps = s3_provider_error_def azure_provider_error_def gcs_provider_error_def

section \<open>What the providers agree on\<close>

text \<open>What an error means, without the text it carries.\<close>

fun meaning :: "storage_error \<Rightarrow> storage_error" where
  "meaning (NotFound _) = NotFound []"
| "meaning (ConcurrentModification _) = ConcurrentModification []"
| "meaning (Serialization _) = Serialization []"
| "meaning (Backend _) = Backend []"
| "meaning (Auth _) = Auth []"
| "meaning (StorageOther _) = StorageOther []"
| "meaning (AttemptsSpent e) = AttemptsSpent (meaning e)"
| "meaning e = e"

definition transient_statuses :: "nat set" where
  "transient_statuses = {408, 429, 500, 502, 503, 504}"

lemma retryable_status:
  "is_retryable (map_response_status status details) \<longleftrightarrow> status \<in> transient_statuses"
  "is_conflict (map_response_status status details) \<longleftrightarrow> status = 412"
  by (auto simp: map_response_status_def classify_http_status_def transient_statuses_def)

lemma not_modified_status: "classify_http_status status details = HttpNotModified \<longleftrightarrow> status = 304"
  by (auto simp: classify_http_status_def)

lemma meaning_status:
  "meaning (map_s3_error (ServiceError status text)) = meaning (map_response_status status details)"
  "\<not> (status = 409 \<and> az_lost_creation_race code) \<Longrightarrow> \<not> (status = 412 \<and> \<not> az_refused_condition code) \<Longrightarrow>
     meaning (azure_into_storage_error \<lparr>az_kind = AzHttpResponse status code, az_text = text\<rparr>) =
     meaning (map_response_status status details)"
  by (auto simp: map_response_status_def azure_into_storage_error_def classify_http_status_def conditional_read_reached_def Let_def)

lemma meaning_decides: "meaning e = meaning e' \<Longrightarrow> is_retryable e = is_retryable e' \<and> is_conflict e = is_conflict e'"
  by (cases e; cases e') simp_all



text \<open>A batch of deletes failed if any entry did, and is repeated exactly when one of them is transient.\<close>

lemma find_transient_iff: "find_transient fs = None \<longleftrightarrow> (\<forall>f \<in> set fs. map_delete_failure_code (de_code f) = None)"
  by (induction fs) (auto split: option.splits)

lemma find_transient_retryable: "find_transient fs = Some e \<Longrightarrow> is_retryable e"
  by (induction fs) (auto simp: map_delete_failure_code_def split: option.splits if_splits)

lemma classify_delete_failures_iff:
  "(classify_delete_failures fs = None \<longleftrightarrow> fs = []) \<and>
   (classify_delete_failures fs = Some e \<longrightarrow>
      (is_retryable e \<longleftrightarrow> (\<exists>f \<in> set fs. map_delete_failure_code (de_code f) \<noteq> None)))"
  using find_transient_iff [of fs] find_transient_retryable [of fs]
  by (auto simp: classify_delete_failures_def split: option.splits if_splits)

section \<open>One request over a service\<close>

text \<open>
  What may come between a request and its answer: the token was cancelled before, or is while the request is in
  flight, or its timeout passes; in flight, the service may have carried the request out.
\<close>

datatype request_race = Unhindered | StoppedBefore | CutOffAfter bool | LateAfter bool

definition send_over ::
  "'e provider_error \<Rightarrow> 'a expected_answer \<Rightarrow> ('c \<Rightarrow> request_race) \<Rightarrow> ('c, 'e, 'a) sresult \<Rightarrow> ('c, storage_error, 'a) sresult" where
  "send_over pe accepted hindrance req s = (case hindrance s of
      Unhindered \<Rightarrow> (case req s of (s', r) \<Rightarrow> (s', snd (send_request pe accepted False (Landed r))))
    | StoppedBefore \<Rightarrow> (s, snd (send_request pe accepted True CutOff))
    | CutOffAfter reached \<Rightarrow> (if reached then fst (req s) else s, snd (send_request pe accepted False CutOff))
    | LateAfter reached \<Rightarrow> (if reached then fst (req s) else s, snd (send_request pe accepted False OutOfTime)))"

lemma send_over_state: "send_over pe accepted hindrance req s = (s', r) \<Longrightarrow> s' = s \<or> (\<exists>q. req s = (s', q))"
  by (cases "req s") (auto simp: send_over_def split: request_race.splits if_splits)

lemma send_over_Inr:
  assumes "send_over pe accepted hindrance req s = (s', Inr a)"
  shows "req s = (s', Inr a) \<or> (\<exists>e. req s = (s', Inl e) \<and>
    ((accepted = ExpectNotModified a \<and> is_not_modified pe e) \<or> (accepted = ExpectObjectGone a \<and> is_object_gone pe e)))"
proof (cases "hindrance s")
  case Unhindered
  obtain q where q: "req s = (s', q)" "snd (send_request pe accepted False (Landed q)) = Inr a"
    using assms Unhindered by (auto simp: send_over_def split: prod.splits)
  then obtain label where "send_request pe accepted False (Landed q) = (label, Inr a)"
    by (metis prod.collapse)
  from send_request_Inr [OF this] q(1) show ?thesis by auto
qed (use assms in \<open>auto simp: send_over_def send_request_def\<close>)

end
