(* ===== verification/JM_Builder.thy ===== *)
theory JM_Builder
  imports JM_Manager JM_Provider_Errors
begin

text \<open>
  \<^verbatim>\<open>execution/builder.rs\<close>: the description of jobs and pool settings, and what is built from them. The
  closure that describes a job is a function on its builder; the identifier a job's builder is born with is
  an argument. The providers an object storage is opened on are reached over the network, so what opens
  them is a parameter, the record \<open>providers\<close>.
\<close>

section \<open>Describing a job\<close>

record job_builder =
  jb_id :: job_definition_id
  jb_code :: job_code
  jb_iteration_interval :: "duration option"
  jb_max_iterations :: "u64 option"
  jb_iteration_retention :: "u64 option"
  jb_task_limits :: "task_limits option"
  jb_initial_tasks :: "(task_definition \<times> executor) list"
  jb_runtime_executors :: "(task_code \<times> executor) list"
  jb_dependencies :: "(task_ref \<times> task_ref list) list"

definition job_builder_new :: "job_definition_id \<Rightarrow> job_code \<Rightarrow> job_builder" where
  "job_builder_new jid code =
     \<lparr>jb_id = jid, jb_code = code, jb_iteration_interval = None, jb_max_iterations = None, jb_iteration_retention = None,
      jb_task_limits = None, jb_initial_tasks = [], jb_runtime_executors = [], jb_dependencies = []\<rparr>"

definition every :: "duration \<Rightarrow> job_builder \<Rightarrow> job_builder" where
  "every interval b = b\<lparr>jb_iteration_interval := Some interval\<rparr>"

definition max_iterations :: "u64 \<Rightarrow> job_builder \<Rightarrow> job_builder" where
  "max_iterations n b = b\<lparr>jb_max_iterations := Some n\<rparr>"

definition keep_iterations :: "u64 \<Rightarrow> job_builder \<Rightarrow> job_builder" where
  "keep_iterations n b = b\<lparr>jb_iteration_retention := Some n\<rparr>"

definition limit_tasks :: "task_limits \<Rightarrow> job_builder \<Rightarrow> job_builder" where
  "limit_tasks limits b = b\<lparr>jb_task_limits := Some limits\<rparr>"

definition add_initial_task :: "task_definition \<Rightarrow> executor \<Rightarrow> job_builder \<Rightarrow> job_builder \<times> task_ref" where
  "add_initial_task d e b =
     (b\<lparr>jb_initial_tasks := jb_initial_tasks b @ [(d, e)]\<rparr>, Initial (jb_id b) (length (jb_initial_tasks b)))"

definition add_task_executor :: "task_code \<Rightarrow> executor \<Rightarrow> job_builder \<Rightarrow> job_builder" where
  "add_task_executor code e b = b\<lparr>jb_runtime_executors := jb_runtime_executors b @ [(code, e)]\<rparr>"

definition depends_on :: "task_ref \<Rightarrow> task_ref list \<Rightarrow> job_builder \<Rightarrow> job_builder" where
  "depends_on t deps b = b\<lparr>jb_dependencies := jb_dependencies b @ [(t, deps)]\<rparr>"

fun chain :: "task_ref list \<Rightarrow> job_builder \<Rightarrow> job_builder" where
  "chain (t # u # ts) b = chain (u # ts) (depends_on u [t] b)"
| "chain _ b = b"

definition apply_setting :: "'a option \<Rightarrow> ('a \<Rightarrow> 'b \<Rightarrow> error + 'b) \<Rightarrow> 'b \<Rightarrow> error + 'b" where
  "apply_setting setting f v = (case setting of None \<Rightarrow> Inr v | Some a \<Rightarrow> f a v)"

definition limits_of :: "job_builder \<Rightarrow> task_limits" where
  "limits_of b = (case jb_task_limits b of None \<Rightarrow> task_limits_default | Some limits \<Rightarrow> limits)"

definition build_definition :: "externs \<Rightarrow> job_builder \<Rightarrow> error + job_definition" where
  "build_definition x b =
     bindR (job_definition_new x (jb_id b) (jb_code b) (jb_initial_tasks b) (jb_runtime_executors b)
       (jb_dependencies b) (limits_of b))
     (\<lambda>jd. bindR (apply_setting (jb_max_iterations b) with_max_iterations jd)
     (\<lambda>jd. bindR (apply_setting (jb_iteration_retention b) with_iteration_retention jd)
     (\<lambda>jd. apply_setting (jb_iteration_interval b) (with_iteration_interval x) jd)))"

section \<open>Describing a pool\<close>

datatype ('s3, 'az, 'gcs) storage_choice = UnsetStorage | S3 's3 | Azure 'az | Gcs 'gcs | InMemory

record ('s3, 'az, 'gcs) jobs_manager_builder =
  bd_storage :: "('s3, 'az, 'gcs) storage_choice"
  bd_cache_storage :: bool
  bd_jobs :: "job_builder list"
  bd_worker_count :: nat
  bd_poll_interval :: "duration option"
  bd_poll_jitter :: "duration option"
  bd_max_poll_interval :: "duration option"
  bd_retrier_config :: "retrier_config option"
  bd_cleaner_config :: job_cleaner_config

definition jobs_manager_builder_new :: "('s3, 'az, 'gcs) jobs_manager_builder" where
  "jobs_manager_builder_new =
     \<lparr>bd_storage = UnsetStorage, bd_cache_storage = True, bd_jobs = [],
      bd_worker_count = mc_worker_count jobs_manager_config_default, bd_poll_interval = None, bd_poll_jitter = None,
      bd_max_poll_interval = None, bd_retrier_config = None,
      bd_cleaner_config = mc_cleaner_config jobs_manager_config_default\<rparr>"

definition use_s3 :: "'s3 \<Rightarrow> ('s3, 'az, 'gcs) jobs_manager_builder \<Rightarrow> ('s3, 'az, 'gcs) jobs_manager_builder" where
  "use_s3 cfg b = b\<lparr>bd_storage := S3 cfg\<rparr>"

definition use_azure :: "'az \<Rightarrow> ('s3, 'az, 'gcs) jobs_manager_builder \<Rightarrow> ('s3, 'az, 'gcs) jobs_manager_builder" where
  "use_azure cfg b = b\<lparr>bd_storage := Azure cfg\<rparr>"

definition use_gcs :: "'gcs \<Rightarrow> ('s3, 'az, 'gcs) jobs_manager_builder \<Rightarrow> ('s3, 'az, 'gcs) jobs_manager_builder" where
  "use_gcs cfg b = b\<lparr>bd_storage := Gcs cfg\<rparr>"

definition no_cache :: "('s3, 'az, 'gcs) jobs_manager_builder \<Rightarrow> ('s3, 'az, 'gcs) jobs_manager_builder" where
  "no_cache b = b\<lparr>bd_cache_storage := False\<rparr>"

definition use_memory :: "('s3, 'az, 'gcs) jobs_manager_builder \<Rightarrow> ('s3, 'az, 'gcs) jobs_manager_builder" where
  "use_memory b = b\<lparr>bd_storage := InMemory\<rparr>"

definition set_workers :: "nat \<Rightarrow> ('s3, 'az, 'gcs) jobs_manager_builder \<Rightarrow> ('s3, 'az, 'gcs) jobs_manager_builder" where
  "set_workers n b = b\<lparr>bd_worker_count := n\<rparr>"

definition set_poll_interval :: "duration \<Rightarrow> ('s3, 'az, 'gcs) jobs_manager_builder \<Rightarrow> ('s3, 'az, 'gcs) jobs_manager_builder" where
  "set_poll_interval interval b = b\<lparr>bd_poll_interval := Some interval\<rparr>"

definition set_poll_jitter :: "duration \<Rightarrow> ('s3, 'az, 'gcs) jobs_manager_builder \<Rightarrow> ('s3, 'az, 'gcs) jobs_manager_builder" where
  "set_poll_jitter jitter b = b\<lparr>bd_poll_jitter := Some jitter\<rparr>"

definition set_max_poll_interval :: "duration \<Rightarrow> ('s3, 'az, 'gcs) jobs_manager_builder \<Rightarrow> ('s3, 'az, 'gcs) jobs_manager_builder" where
  "set_max_poll_interval interval b = b\<lparr>bd_max_poll_interval := Some interval\<rparr>"

definition set_retrier :: "retrier_config \<Rightarrow> ('s3, 'az, 'gcs) jobs_manager_builder \<Rightarrow> ('s3, 'az, 'gcs) jobs_manager_builder" where
  "set_retrier cfg b = b\<lparr>bd_retrier_config := Some cfg\<rparr>"

definition set_cleaner :: "job_cleaner_config \<Rightarrow> ('s3, 'az, 'gcs) jobs_manager_builder \<Rightarrow> ('s3, 'az, 'gcs) jobs_manager_builder" where
  "set_cleaner cfg b = b\<lparr>bd_cleaner_config := cfg\<rparr>"

definition no_cleanup :: "('s3, 'az, 'gcs) jobs_manager_builder \<Rightarrow> ('s3, 'az, 'gcs) jobs_manager_builder" where
  "no_cleanup b = b\<lparr>bd_cleaner_config := (bd_cleaner_config b)\<lparr>cleaner_enabled := False\<rparr>\<rparr>"

definition add_job ::
  "job_definition_id \<Rightarrow> job_code \<Rightarrow> (job_builder \<Rightarrow> job_builder) \<Rightarrow> ('s3, 'az, 'gcs) jobs_manager_builder \<Rightarrow>
   ('s3, 'az, 'gcs) jobs_manager_builder" where
  "add_job jid code describe b = b\<lparr>bd_jobs := bd_jobs b @ [describe (job_builder_new jid code)]\<rparr>"

section \<open>Building\<close>

definition build_poll_schedule_config :: "duration option \<Rightarrow> duration option \<Rightarrow> duration option \<Rightarrow> error + poll_config" where
  "build_poll_schedule_config interval jitter ceiling =
     bindR (apply_setting interval with_poll_interval poll_config_new)
     (\<lambda>cfg. bindR (apply_setting ceiling with_max_poll_interval cfg)
     (\<lambda>cfg. Inr (case jitter of None \<Rightarrow> cfg | Some j \<Rightarrow> with_poll_jitter j cfg)))"

text \<open>The features a build of the crate was compiled with, and what opens a storage of each provider.\<close>

record ('s3, 'az, 'gcs, 'b) providers =
  compiled_methods :: "string list"
  open_s3 :: "'s3 \<Rightarrow> job_registry \<Rightarrow> error + 'b"
  open_azure :: "'az \<Rightarrow> job_registry \<Rightarrow> error + 'b"
  open_gcs :: "'gcs \<Rightarrow> job_registry \<Rightarrow> error + 'b"

datatype 'b built_storage = Plain 'b | Cached 'b | Memory

definition describe_compiled_backends :: "('s3, 'az, 'gcs, 'b) providers \<Rightarrow> string" where
  "describe_compiled_backends pr = join_with '' or '' (compiled_methods pr @ [''in_memory()''])"

definition cache_object_storage :: "bool \<Rightarrow> 'b \<Rightarrow> 'b built_storage" where
  "cache_object_storage cache st = (if cache then Cached st else Plain st)"

definition build_storage ::
  "('s3, 'az, 'gcs, 'b) providers \<Rightarrow> ('s3, 'az, 'gcs) storage_choice \<Rightarrow> bool \<Rightarrow> job_registry \<Rightarrow> error + 'b built_storage" where
  "build_storage pr choice cache reg = (case choice of
      UnsetStorage \<Rightarrow> Inl (ErrOther (''storage backend is not configured: call '' @ describe_compiled_backends pr))
    | S3 cfg \<Rightarrow> bindR (open_s3 pr cfg reg) (\<lambda>st. Inr (cache_object_storage cache st))
    | Azure cfg \<Rightarrow> bindR (open_azure pr cfg reg) (\<lambda>st. Inr (cache_object_storage cache st))
    | Gcs cfg \<Rightarrow> bindR (open_gcs pr cfg reg) (\<lambda>st. Inr (cache_object_storage cache st))
    | InMemory \<Rightarrow> Inr Memory)"

definition build ::
  "externs \<Rightarrow> ('s3, 'az, 'gcs, 'b) providers \<Rightarrow> ('s3, 'az, 'gcs) jobs_manager_builder \<Rightarrow>
   error + 'b built_storage jobs_manager" where
  "build x pr b =
     (if bd_jobs b = [] then Inl (ErrOther ''at least one job must be added'')
      else bindR (mapR (build_definition x) (bd_jobs b))
     (\<lambda>job_defs. bindR (registry_new job_defs)
     (\<lambda>reg. bindR (build_storage pr (bd_storage b) (bd_cache_storage b) reg)
     (\<lambda>st. bindR (build_poll_schedule_config (bd_poll_interval b) (bd_poll_jitter b) (bd_max_poll_interval b))
     (\<lambda>poll. jobs_manager_new st
        \<lparr>mc_worker_count = bd_worker_count b, mc_scheduler_config = poll,
         mc_retrier_config = (case bd_retrier_config b of None \<Rightarrow> retrier_config_default | Some cfg \<Rightarrow> cfg),
         mc_cleaner_config = bd_cleaner_config b\<rparr> reg)))))"

section \<open>What is accepted\<close>

lemma apply_setting_ok_iff: "is_ok (apply_setting a f v) \<longleftrightarrow> (\<forall>u. a = Some u \<longrightarrow> is_ok (f u v))"
  by (auto simp: apply_setting_def split: option.splits)

lemma is_ok_bindR: "is_ok (bindR m f) \<longleftrightarrow> (\<exists>a. m = Inr a \<and> is_ok (f a))"
  by (cases m) auto

definition schedule_ok :: "externs \<Rightarrow> job_builder \<Rightarrow> bool" where
  "schedule_ok x b \<longleftrightarrow> jb_max_iterations b \<noteq> Some 0 \<and>
     (\<forall>n. jb_iteration_retention b = Some n \<longrightarrow> MIN_ITERATION_RETENTION \<le> n) \<and>
     (\<forall>i. jb_iteration_interval b = Some i \<longrightarrow> i \<noteq> 0 \<and> from_std x i \<noteq> None)"

definition job_described :: "externs \<Rightarrow> job_builder \<Rightarrow> bool" where
  "job_described x b \<longleftrightarrow>
     description_ok x (jb_id b) (jb_initial_tasks b) (jb_runtime_executors b) (jb_dependencies b) (limits_of b) \<and> schedule_ok x b"

lemma setting_ok_iffs:
  "is_ok (with_max_iterations n jd) \<longleftrightarrow> n \<noteq> 0" "is_ok (with_iteration_retention n jd) \<longleftrightarrow> MIN_ITERATION_RETENTION \<le> n"
  "is_ok (with_iteration_interval x i jd) \<longleftrightarrow> i \<noteq> 0 \<and> from_std x i \<noteq> None"
  by (auto simp: with_max_iterations_def with_iteration_retention_def with_iteration_interval_def)

text \<open>The settings of a job refuse their values whatever description they are set on.\<close>

lemma build_definition_ok_iff: "is_ok (build_definition x b) \<longleftrightarrow> job_described x b"
proof -
  have s: "is_ok (apply_setting (jb_max_iterations b) with_max_iterations jd) \<longleftrightarrow> jb_max_iterations b \<noteq> Some 0"
    "is_ok (apply_setting (jb_iteration_retention b) with_iteration_retention jd) \<longleftrightarrow>
      (\<forall>n. jb_iteration_retention b = Some n \<longrightarrow> MIN_ITERATION_RETENTION \<le> n)"
    "is_ok (apply_setting (jb_iteration_interval b) (with_iteration_interval x) jd) \<longleftrightarrow>
      (\<forall>i. jb_iteration_interval b = Some i \<longrightarrow> i \<noteq> 0 \<and> from_std x i \<noteq> None)" for jd
    by (auto simp: apply_setting_ok_iff setting_ok_iffs)
  show ?thesis
    unfolding build_definition_def is_ok_bindR s job_described_def schedule_ok_def
      job_definition_new_ok_iff [symmetric, of _ _ _ _ _ _ "jb_code b"]
    using s by (auto simp: is_ok_iff)
qed

text \<open>What the settings leave of a description.\<close>

lemma apply_setting_Inr: "apply_setting a f v = Inr v' \<longleftrightarrow> (a = None \<and> v' = v) \<or> (\<exists>u. a = Some u \<and> f u v = Inr v')"
  by (auto simp: apply_setting_def split: option.splits)

lemma build_definition_Inr:
  assumes "build_definition x b = Inr jd"
  shows "\<exists>jd0. job_definition_new x (jb_id b) (jb_code b) (jb_initial_tasks b) (jb_runtime_executors b) (jb_dependencies b)
      (limits_of b) = Inr jd0 \<and> jd_code jd = jb_code b \<and> initial_tasks jd = initial_tasks jd0 \<and>
    task_executors jd = task_executors jd0 \<and> jd_max_iterations jd = jb_max_iterations b \<and>
    jd_iteration_interval jd = jb_iteration_interval b \<and>
    iteration_retention jd = (case jb_iteration_retention b of None \<Rightarrow> DEFAULT_ITERATION_RETENTION | Some n \<Rightarrow> n)"
proof -
  obtain jd0 jd1 jd2 where s: "job_definition_new x (jb_id b) (jb_code b) (jb_initial_tasks b) (jb_runtime_executors b)
      (jb_dependencies b) (limits_of b) = Inr jd0"
    "apply_setting (jb_max_iterations b) with_max_iterations jd0 = Inr jd1"
    "apply_setting (jb_iteration_retention b) with_iteration_retention jd1 = Inr jd2"
    "apply_setting (jb_iteration_interval b) (with_iteration_interval x) jd2 = Inr jd"
    using assms by (auto simp: build_definition_def)
  from s(1) have "jd_code jd0 = jb_code b \<and> jd_max_iterations jd0 = None \<and> jd_iteration_interval jd0 = None \<and>
      iteration_retention jd0 = DEFAULT_ITERATION_RETENTION" by (auto simp: job_definition_new_Inr_iff)
  with s show ?thesis
    by (auto simp: apply_setting_Inr with_max_iterations_def with_iteration_retention_def with_iteration_interval_def
        split: if_splits)
qed

definition poll_settings_ok :: "duration option \<Rightarrow> duration option \<Rightarrow> bool" where
  "poll_settings_ok interval ceiling \<longleftrightarrow> (let i = (case interval of None \<Rightarrow> DEFAULT_POLL_INTERVAL | Some i \<Rightarrow> i) in
     0 < i \<and> i \<le> LONGEST_ACCEPTED_POLL_INTERVAL \<and>
     (\<forall>c. ceiling = Some c \<longrightarrow> i \<le> c \<and> c \<le> LONGEST_ACCEPTED_POLL_INTERVAL))"

lemma default_interval_ok: "0 < DEFAULT_POLL_INTERVAL" "DEFAULT_POLL_INTERVAL \<le> LONGEST_ACCEPTED_POLL_INTERVAL"
  using config_ok_new by (simp_all add: config_ok_def poll_config_new_def)

lemma with_poll_interval_new:
  "with_poll_interval i poll_config_new = Inr cfg \<longleftrightarrow>
     0 < i \<and> i \<le> LONGEST_ACCEPTED_POLL_INTERVAL \<and> cfg = poll_config_new\<lparr>cfg_poll_interval := i\<rparr>"
  by (auto simp: with_poll_interval_def poll_config_new_def)

lemma with_max_poll_interval_ok_iff:
  "is_ok (with_max_poll_interval c cfg) \<longleftrightarrow> cfg_poll_interval cfg \<le> c \<and> c \<le> LONGEST_ACCEPTED_POLL_INTERVAL"
  by (auto simp: with_max_poll_interval_def)

lemma poll_settings_ok_iff: "is_ok (build_poll_schedule_config i j c) \<longleftrightarrow> poll_settings_ok i c"
proof -
  have "is_ok (build_poll_schedule_config i j c) \<longleftrightarrow>
      (\<exists>cfg. apply_setting i with_poll_interval poll_config_new = Inr cfg \<and> is_ok (apply_setting c with_max_poll_interval cfg))"
    by (auto simp: build_poll_schedule_config_def is_ok_bindR is_ok_iff)
  also have "\<dots> \<longleftrightarrow> poll_settings_ok i c"
  proof (cases i)
    case None
    then show ?thesis
      using default_interval_ok
      by (simp add: apply_setting_Inr apply_setting_ok_iff poll_settings_ok_def with_max_poll_interval_ok_iff poll_config_new_def)
  next
    case (Some interval)
    then show ?thesis
      by (auto simp: apply_setting_Inr apply_setting_ok_iff poll_settings_ok_def with_max_poll_interval_ok_iff
          with_poll_interval_new Let_def)
  qed
  finally show ?thesis .
qed

lemma build_poll_config_ok:
  assumes "build_poll_schedule_config i j c = Inr cfg"
  shows "config_ok cfg"
proof -
  obtain cfg1 cfg2 where s: "apply_setting i with_poll_interval poll_config_new = Inr cfg1"
    "apply_setting c with_max_poll_interval cfg1 = Inr cfg2"
    and cfg: "cfg = (case j of None \<Rightarrow> cfg2 | Some d \<Rightarrow> with_poll_jitter d cfg2)"
    using assms by (auto simp: build_poll_schedule_config_def)
  have "config_ok cfg1" using s(1) config_ok_new config_ok_interval by (auto simp: apply_setting_Inr)
  then have "config_ok cfg2" using s(2) config_ok_ceiling by (auto simp: apply_setting_Inr)
  then show ?thesis using config_ok_jitter by (simp add: cfg split: option.split)
qed

text \<open>The registry the jobs of a builder give.\<close>

definition built_registry :: "externs \<Rightarrow> ('s3, 'az, 'gcs) jobs_manager_builder \<Rightarrow> error + job_registry" where
  "built_registry x b = bindR (mapR (build_definition x) (bd_jobs b)) registry_new"

definition jobs_described :: "externs \<Rightarrow> job_builder list \<Rightarrow> bool" where
  "jobs_described x bs \<longleftrightarrow> bs \<noteq> [] \<and> (\<forall>j \<in> set bs. job_described x j) \<and> [] \<notin> jb_code ` set bs \<and> distinct (map jb_code bs)"

lemma built_codes:
  assumes "mapR (build_definition x) bs = Inr defs"
  shows "map jd_code defs = map jb_code bs"
proof (rule nth_equalityI)
  have all: "list_all2 (\<lambda>b d. build_definition x b = Inr d) bs defs" using assms by (simp add: mapR_Inr_iff)
  then show "length (map jd_code defs) = length (map jb_code bs)" by (simp add: list_all2_lengthD)
  fix i assume "i < length (map jd_code defs)"
  then show "map jd_code defs ! i = map jb_code bs ! i"
    using all build_definition_Inr [of x "bs ! i" "defs ! i"] by (auto simp: list_all2_conv_all_nth)
qed

lemma built_registry_ok_iff: "is_ok (built_registry x b) \<longleftrightarrow> jobs_described x (bd_jobs b)"
proof (cases "mapR (build_definition x) (bd_jobs b)")
  case (Inl e)
  then have "\<not> (\<forall>j \<in> set (bd_jobs b). job_described x j)"
    using mapR_ok_iff [of "build_definition x" "bd_jobs b"] by (simp add: build_definition_ok_iff)
  with Inl show ?thesis by (auto simp: built_registry_def jobs_described_def)
next
  case (Inr defs)
  then have described: "\<forall>j \<in> set (bd_jobs b). job_described x j"
    using mapR_ok_iff [of "build_definition x" "bd_jobs b"] by (simp add: build_definition_ok_iff)
  have codes: "map jd_code defs = map jb_code (bd_jobs b)" by (rule built_codes [OF Inr])
  then have "jd_code ` set defs = jb_code ` set (bd_jobs b)" and "defs = [] \<longleftrightarrow> bd_jobs b = []"
    by (simp_all flip: set_map) (metis map_is_Nil_conv)
  with codes described Inr show ?thesis by (simp add: built_registry_def jobs_described_def registry_new_accepts_iff)
qed

lemma build_Inr_iff:
  "build x pr b = Inr m \<longleftrightarrow> bd_jobs b \<noteq> [] \<and> bd_worker_count b \<noteq> 0 \<and> built_registry x b = Inr (mgr_registry m) \<and>
     build_storage pr (bd_storage b) (bd_cache_storage b) (mgr_registry m) = Inr (mgr_storage m) \<and>
     build_poll_schedule_config (bd_poll_interval b) (bd_poll_jitter b) (bd_max_poll_interval b) =
       Inr (mc_scheduler_config (mgr_config m)) \<and>
     mc_worker_count (mgr_config m) = bd_worker_count b \<and>
     mc_retrier_config (mgr_config m) = (case bd_retrier_config b of None \<Rightarrow> retrier_config_default | Some cfg \<Rightarrow> cfg) \<and>
     mc_cleaner_config (mgr_config m) = bd_cleaner_config b"
  by (cases m; cases "mgr_config m") (auto simp: build_def built_registry_def jobs_manager_new_def)

lemma built_registry_Inr:
  assumes "built_registry x b = Inr reg"
  shows "list_jobs reg = map jb_code (bd_jobs b)" and "bd_jobs b \<noteq> []"
    and "j \<in> set (bd_jobs b) \<Longrightarrow> \<exists>jd. build_definition x j = Inr jd \<and> get_job (jb_code j) reg = Inr jd"
proof -
  obtain defs where defs: "mapR (build_definition x) (bd_jobs b) = Inr defs" "registry_new defs = Inr reg"
    using assms by (auto simp: built_registry_def)
  have jobs: "reg_jobs reg = map (\<lambda>d. (jd_code d, d)) defs" by (rule registry_new_jobs [OF defs(2)])
  have described: "jobs_described x (bd_jobs b)" using built_registry_ok_iff [of x b] assms by simp
  then show "bd_jobs b \<noteq> []" by (simp add: jobs_described_def)
  have codes: "map jd_code defs = map jb_code (bd_jobs b)" by (rule built_codes [OF defs(1)])
  then show "list_jobs reg = map jb_code (bd_jobs b)" by (simp add: list_jobs_def jobs comp_def)
  assume "j \<in> set (bd_jobs b)"
  then obtain i where i: "i < length (bd_jobs b)" "bd_jobs b ! i = j" by (auto simp: in_set_conv_nth)
  have all: "list_all2 (\<lambda>b d. build_definition x b = Inr d) (bd_jobs b) defs" using defs(1) by (simp add: mapR_Inr_iff)
  then have jd: "build_definition x j = Inr (defs ! i)" and "i < length defs"
    using i by (auto simp: list_all2_conv_all_nth)
  moreover have "jd_code (defs ! i) = jb_code j" using build_definition_Inr [OF jd] by blast
  ultimately have "(jb_code j, defs ! i) \<in> set (reg_jobs reg)" by (force simp: jobs)
  moreover have "distinct (map fst (reg_jobs reg))"
    using codes described by (simp add: jobs comp_def jobs_described_def)
  ultimately show "\<exists>jd. build_definition x j = Inr jd \<and> get_job (jb_code j) reg = Inr jd"
    using jd by (simp add: get_job_def)
qed

lemma build_storage_caches:
  assumes "build_storage pr choice cache reg = Inr st"
  shows "(\<forall>s. st = Plain s \<longrightarrow> \<not> cache) \<and> (\<forall>s. st = Cached s \<longrightarrow> cache)"
  using assms by (auto simp: build_storage_def cache_object_storage_def split: storage_choice.splits if_splits)

section \<open>What the builder guarantees\<close>

text \<open>C27. What is built. A pool is built exactly when it has a worker and a job, every job is described by tasks, executors and
  dependencies that pass their checks, with a positive iteration limit, at least the smallest retention and an
  interval that can be scheduled, the job codes are not empty and differ, the poll settings are in range and
  the chosen storage opens; then it holds exactly the described jobs under their codes, its poll settings are
  valid, and an object storage is behind the read cache unless the cache was taken off.\<close>
theorem build_accepts:
  "(is_ok (build x pr b) \<longleftrightarrow> bd_worker_count b \<noteq> 0 \<and> jobs_described x (bd_jobs b) \<and>
      poll_settings_ok (bd_poll_interval b) (bd_max_poll_interval b) \<and>
      (\<exists>reg st. built_registry x b = Inr reg \<and> build_storage pr (bd_storage b) (bd_cache_storage b) reg = Inr st)) \<and>
   (\<forall>m. build x pr b = Inr m \<longrightarrow> list_jobs (mgr_registry m) = map jb_code (bd_jobs b) \<and>
      (\<forall>j \<in> set (bd_jobs b). \<exists>jd. build_definition x j = Inr jd \<and> get_job (jb_code j) (mgr_registry m) = Inr jd) \<and>
      config_ok (mc_scheduler_config (mgr_config m)) \<and>
      (\<forall>st. mgr_storage m = Plain st \<longrightarrow> \<not> bd_cache_storage b) \<and> (\<forall>st. mgr_storage m = Cached st \<longrightarrow> bd_cache_storage b))"
proof (intro conjI allI impI)
  have poll: "poll_settings_ok (bd_poll_interval b) (bd_max_poll_interval b) \<longleftrightarrow>
      (\<exists>cfg. build_poll_schedule_config (bd_poll_interval b) (bd_poll_jitter b) (bd_max_poll_interval b) = Inr cfg)"
    using poll_settings_ok_iff is_ok_iff by metis
  have jobs: "jobs_described x (bd_jobs b) \<longleftrightarrow> (\<exists>reg. built_registry x b = Inr reg)"
    using built_registry_ok_iff is_ok_iff by metis
  have "is_ok (build x pr b)" if b: "bd_worker_count b \<noteq> 0" "built_registry x b = Inr reg"
    "build_storage pr (bd_storage b) (bd_cache_storage b) reg = Inr st"
    "build_poll_schedule_config (bd_poll_interval b) (bd_poll_jitter b) (bd_max_poll_interval b) = Inr cfg" for reg st cfg
    using b built_registry_Inr(2) [OF b(2)] by (auto simp: build_def built_registry_def jobs_manager_new_def)
  then show "is_ok (build x pr b) \<longleftrightarrow> bd_worker_count b \<noteq> 0 \<and> jobs_described x (bd_jobs b) \<and>
      poll_settings_ok (bd_poll_interval b) (bd_max_poll_interval b) \<and>
      (\<exists>reg st. built_registry x b = Inr reg \<and> build_storage pr (bd_storage b) (bd_cache_storage b) reg = Inr st)"
    unfolding poll jobs is_ok_iff build_Inr_iff by blast
next
  fix m assume "build x pr b = Inr m"
  then have m: "built_registry x b = Inr (mgr_registry m)"
    "build_storage pr (bd_storage b) (bd_cache_storage b) (mgr_registry m) = Inr (mgr_storage m)"
    "build_poll_schedule_config (bd_poll_interval b) (bd_poll_jitter b) (bd_max_poll_interval b) =
       Inr (mc_scheduler_config (mgr_config m))" by (simp_all add: build_Inr_iff)
  show "list_jobs (mgr_registry m) = map jb_code (bd_jobs b)" by (rule built_registry_Inr(1) [OF m(1)])
  show "\<forall>j \<in> set (bd_jobs b). \<exists>jd. build_definition x j = Inr jd \<and> get_job (jb_code j) (mgr_registry m) = Inr jd"
    using built_registry_Inr(3) [OF m(1)] by blast
  show "config_ok (mc_scheduler_config (mgr_config m))" by (rule build_poll_config_ok [OF m(3)])
qed (use build_storage_caches in \<open>fastforce simp: build_Inr_iff\<close>)+

lemma scheduler_new_due: "set (due_queue (scheduler_new now codes cfg)) = Pair now ` set codes"
proof -
  have "set (fold (\<lambda>c q. insort_insert (now, c) q) codes q) = set q \<union> Pair now ` set codes" for q
    by (induction codes arbitrary: q) (auto simp: set_insort_insert)
  then show ?thesis by (simp add: scheduler_new_def)
qed

text \<open>C28. A pool that was built starts. The channel of its cleaner has room for five reports of every job, so opening it
  does not panic; the pool has a worker, each of them free; every job is due at once and none is held; and for
  every job, and no other, there is a record of finished iterations to wait on.\<close>
theorem built_pool_starts:
  assumes "build x pr b = Inr m" and "inj_on mint {..<bd_worker_count b}"
  shows "\<exists>h. manager_start now mint m = Inr h \<and>
    mh_cleaner_capacity h = (if cleaner_enabled (bd_cleaner_config b) then Some (5 * length (bd_jobs b)) else None) \<and>
    pool_ok (mh_pool h) \<and> pl_idle_workers (mh_pool h) \<noteq> [] \<and> distinct (pl_idle_workers (mh_pool h)) \<and>
    (\<forall>c. c \<in> jb_code ` set (bd_jobs b) \<longleftrightarrow> (now, c) \<in> set (due_queue (pl_scheduler (mh_pool h)))) \<and>
    held_jobs (pl_scheduler (mh_pool h)) = {} \<and>
    (\<forall>c. map_of (mh_finished_iterations h) c = (if c \<in> jb_code ` set (bd_jobs b) then Some watch_channel else None))"
proof -
  have m: "built_registry x b = Inr (mgr_registry m)" "bd_worker_count b \<noteq> 0"
    "mc_worker_count (mgr_config m) = bd_worker_count b" "mc_cleaner_config (mgr_config m) = bd_cleaner_config b"
    using assms(1) by (simp_all add: build_Inr_iff)
  note codes = built_registry_Inr(1,2) [OF m(1)]
  let ?cs = "list_jobs (mgr_registry m)"
  let ?s = "scheduler_new now ?cs (mc_scheduler_config (mgr_config m))"
  let ?p = "worker_pool_new ?s (map mint [0..<bd_worker_count b])"
  have count: "jobs_count (mgr_registry m) = length (bd_jobs b)"
    using arg_cong [OF codes(1), of length] by (simp add: jobs_count_def list_jobs_def)
  have ok: "pool_ok ?p" by (rule pool_new_ok)
  then have held: "held_jobs ?s = {}" by (simp add: pool_ok_def worker_pool_new_def)
  have due: "(now, c) \<in> set (due_queue ?s) \<longleftrightarrow> c \<in> set ?cs" for c by (auto simp: scheduler_new_due)
  have free: "distinct (map mint [0..<bd_worker_count b])" using assms(2) by (simp add: distinct_map lessThan_atLeast0)
  show ?thesis
    using ok held due free m codes count
    by (simp add: manager_start_def spawn_job_cleaner_def worker_pool_new_def finished_new_lookup)
qed

section \<open>Chains\<close>

lemma chain_fields:
  "jb_dependencies (chain ts b) = jb_dependencies b @ map (\<lambda>(t, u). (u, [t])) (zip ts (tl ts))"
  "jb_id (chain ts b) = jb_id b" "jb_initial_tasks (chain ts b) = jb_initial_tasks b"
  "jb_runtime_executors (chain ts b) = jb_runtime_executors b" "limits_of (chain ts b) = limits_of b"
  "schedule_ok x (chain ts b) = schedule_ok x b"
  by (induction ts b rule: chain.induct) (auto simp: depends_on_def limits_of_def schedule_ok_def)

text \<open>The edges a chain over positions adds: each position waits for the one before it.\<close>

definition chain_edges :: "nat list \<Rightarrow> (nat \<times> nat) set" where
  "chain_edges ps = {(q, p) | p q. (p, q) \<in> set (zip ps (tl ps))}"

lemma chain_edges_nth: "(q, p) \<in> chain_edges ps \<longleftrightarrow> (\<exists>k. Suc k < length ps \<and> p = ps ! k \<and> q = ps ! Suc k)"
  by (auto simp: chain_edges_def in_set_zip nth_tl less_diff_conv)

lemma chain_path: "j < length ps \<Longrightarrow> i < j \<Longrightarrow> (ps ! j, ps ! i) \<in> (chain_edges ps)\<^sup>+"
proof (induction j)
  case 0
  then show ?case by simp
next
  case (Suc j)
  have edge: "(ps ! Suc j, ps ! j) \<in> chain_edges ps" using Suc.prems by (auto simp: chain_edges_nth)
  show ?case
  proof (cases "i = j")
    case True
    with edge show ?thesis by auto
  next
    case False
    with Suc have "(ps ! j, ps ! i) \<in> (chain_edges ps)\<^sup>+" by simp
    with edge show ?thesis by (rule trancl_into_trancl2)
  qed
qed

lemma acyclic_chain_iff: "acyclic (chain_edges ps) \<longleftrightarrow> distinct ps"
proof
  assume "acyclic (chain_edges ps)"
  then show "distinct ps"
    using chain_path [of _ ps] unfolding distinct_conv_nth acyclic_def by (metis linorder_neq_iff)
next
  assume d: "distinct ps"
  define pos where "pos q = (THE k. k < length ps \<and> ps ! k = q)" for q
  have pos: "pos (ps ! k) = k" if "k < length ps" for k
    unfolding pos_def by (rule the_equality) (use d that nth_eq_iff_index_eq in auto)
  have "(chain_edges ps)\<inverse> \<subseteq> measure pos" by (auto simp: chain_edges_nth pos)
  then have "acyclic ((chain_edges ps)\<inverse>)" by (metis wf_acyclic wf_measure wf_subset)
  then show "acyclic (chain_edges ps)" by (simp add: acyclic_converse)
qed

text \<open>The declarations of a chain over positions of the own job, and the description they give.\<close>

lemma chain_declared:
  fixes jid ps
  defines "declared \<equiv> map (\<lambda>(t, u). (u, [t])) (zip (map (Initial jid) ps) (tl (map (Initial jid) ps)))"
  shows "declared_for jid declared q = map (Initial jid) (map fst (filter (\<lambda>(p, r). r = q) (zip ps (tl ps))))"
    and "declarations_ok jid n declared \<longleftrightarrow> (\<forall>r \<in> set (tl ps). r < n)"
proof -
  have declared: "declared = map (\<lambda>(p, q). (Initial jid q, [Initial jid p])) (zip ps (tl ps))"
    by (simp add: declared_def zip_map_map comp_def case_prod_beta flip: map_tl)
  have "concat (map snd (filter (\<lambda>(t, _). t = Initial jid q) (map (\<lambda>(p, q). (Initial jid q, [Initial jid p])) zs))) =
      map (Initial jid) (map fst (filter (\<lambda>(p, r). r = q) zs))" for zs
    by (induction zs) auto
  then show "declared_for jid declared q = map (Initial jid) (map fst (filter (\<lambda>(p, r). r = q) (zip ps (tl ps))))"
    by (simp add: declared_for_def declared)
  have "set (tl ps) = snd ` set (zip ps (tl ps))" by (simp flip: set_map add: map_snd_zip_take)
  then show "declarations_ok jid n declared \<longleftrightarrow> (\<forall>r \<in> set (tl ps). r < n)"
    by (force simp: declarations_ok_def declared)
qed

text \<open>A job whose tasks pass their checks and wait for nothing yet.\<close>

definition unlinked :: "externs \<Rightarrow> job_builder \<Rightarrow> bool" where
  "unlinked x b \<longleftrightarrow> jb_initial_tasks b \<noteq> [] \<and> jb_dependencies b = [] \<and> schedule_ok x b \<and>
     (\<forall>(d, e) \<in> set (jb_initial_tasks b). validate x (limits_of b) d = Inr () \<and> def_depends_on d = [] \<and>
        \<not> is_declared (def_tolerance d)) \<and>
     consistent_executors (map (\<lambda>(d, e). (def_code d, e)) (jb_initial_tasks b) @ jb_runtime_executors b)"

lemma set_tl_subset: "set (tl xs) \<subseteq> set xs"
  by (cases xs) auto

lemma chain_merged:
  assumes b: "unlinked x b" and ps: "\<forall>p \<in> set ps. p < length (jb_initial_tasks b)"
  defines "ds \<equiv> merged_definitions (jb_id b) (map fst (jb_initial_tasks b))
      (jb_dependencies (chain (map (Initial (jb_id b)) ps) b))"
  shows "length ds = length (jb_initial_tasks b)"
    and "q < length ds \<Longrightarrow> def_depends_on (ds ! q) = map (Initial (jb_id b)) (map fst (filter (\<lambda>(p, r). r = q) (zip ps (tl ps))))"
    and "dependencies_ok (jb_id b) ds \<longleftrightarrow> distinct ps"
proof -
  have deps: "jb_dependencies (chain (map (Initial (jb_id b)) ps) b) =
      map (\<lambda>(t, u). (u, [t])) (zip (map (Initial (jb_id b)) ps) (tl (map (Initial (jb_id b)) ps)))"
    using b by (simp add: chain_fields unlinked_def)
  show len: "length ds = length (jb_initial_tasks b)" by (simp add: ds_def merged_definitions_def)
  have plain: "def_depends_on d = []" "\<not> is_declared (def_tolerance d)" if "d \<in> set (map fst (jb_initial_tasks b))" for d
    using b that by (auto simp: unlinked_def)
  have at: "def_depends_on (ds ! q) = map (Initial (jb_id b)) (map fst (filter (\<lambda>(p, r). r = q) (zip ps (tl ps))))"
    "is_declares_tolerance_valid (ds ! q)" if "q < length ds" for q
    using that len plain [of "map fst (jb_initial_tasks b) ! q"]
    by (simp_all add: ds_def merged_definitions_def deps chain_declared with_dependencies_def is_declares_tolerance_valid_def)
  then show "q < length ds \<Longrightarrow>
      def_depends_on (ds ! q) = map (Initial (jb_id b)) (map fst (filter (\<lambda>(p, r). r = q) (zip ps (tl ps))))" by blast
  have range: "p < length ds" "q < length ds" if "(p, q) \<in> set (zip ps (tl ps))" for p q
    using ps len set_zip_leftD [OF that] set_zip_rightD [OF that] set_tl_subset [of ps] by auto
  have "refs_ok (jb_id b) ds"
    using range by (fastforce simp: refs_ok_def in_set_conv_nth [of _ ds] at)
  moreover have "\<forall>d \<in> set ds. is_declares_tolerance_valid d" using at(2) by (auto simp: in_set_conv_nth)
  moreover have "graph_edges (position_graph ds) = chain_edges ps"
  proof -
    have "set (position_graph ds ! q) = {p. (p, q) \<in> set (zip ps (tl ps))}" if "q < length ds" for q
      using that by (force simp: position_graph_def at)
    then show ?thesis using range by (auto simp: graph_edges_def chain_edges_def position_graph_def)
  qed
  ultimately show "dependencies_ok (jb_id b) ds \<longleftrightarrow> distinct ps" by (simp add: dependencies_ok_def acyclic_chain_iff)
qed

lemma chain_filter:
  "distinct ps \<Longrightarrow> Suc k < length ps \<Longrightarrow> filter (\<lambda>(p, r). r = ps ! Suc k) (zip ps (tl ps)) = [(ps ! k, ps ! Suc k)]"
proof (induction ps arbitrary: k)
  case Nil
  then show ?case by simp
next
  case (Cons a ps)
  obtain c qs where ps: "ps = c # qs" using Cons.prems(2) by (cases ps) auto
  have absent: "filter (\<lambda>(p, r). r = c) (zip (c # qs) qs) = []"
    using Cons.prems(1) by (auto simp: ps filter_empty_conv dest: set_zip_rightD)
  show ?case
  proof (cases k)
    case 0
    with absent show ?thesis by (simp add: ps)
  next
    case (Suc l)
    then have "ps ! Suc l \<noteq> c" using Cons.prems by (auto simp: ps)
    with Cons.IH [of l] Cons.prems Suc show ?thesis by (simp add: ps)
  qed
qed

text \<open>Chains. A chain over the tasks of a job that wait for nothing yet is accepted exactly when no task occurs in it
  twice, whatever order it names them in; then each task of the chain waits for exactly the one before it,
  and the first of the chain and the tasks outside it wait for none.\<close>
lemma chain_accepted_iff:
  assumes "unlinked x b" and "\<forall>p \<in> set ps. p < length (jb_initial_tasks b)"
  defines "chained \<equiv> build_definition x (chain (map (Initial (jb_id b)) ps) b)"
  shows "is_ok chained = distinct ps \<and>
    (\<forall>jd. chained = Inr jd \<longrightarrow>
      (\<forall>k. Suc k < length ps \<longrightarrow> def_depends_on (initial_tasks jd ! (ps ! Suc k)) = [Initial (jb_id b) (ps ! k)]) \<and>
      (\<forall>q < length (jb_initial_tasks b). q \<notin> set (tl ps) \<longrightarrow> def_depends_on (initial_tasks jd ! q) = []))"
proof -
  let ?b = "chain (map (Initial (jb_id b)) ps) b"
  let ?ds = "merged_definitions (jb_id b) (map fst (jb_initial_tasks b)) (jb_dependencies ?b)"
  note m = chain_merged [OF assms(1,2)]
  have declarations: "declarations_ok (jb_id b) (length (jb_initial_tasks b)) (jb_dependencies ?b)"
    using assms(1,2) set_tl_subset [of ps] by (auto simp: chain_fields unlinked_def chain_declared)
  have ok: "is_ok chained = distinct ps"
    using assms(1) declarations m(3)
    by (auto simp: chained_def build_definition_ok_iff job_described_def description_ok_def chain_fields(2-) unlinked_def)
  have "(\<forall>k. Suc k < length ps \<longrightarrow> def_depends_on (initial_tasks jd ! (ps ! Suc k)) = [Initial (jb_id b) (ps ! k)]) \<and>
      (\<forall>q < length (jb_initial_tasks b). q \<notin> set (tl ps) \<longrightarrow> def_depends_on (initial_tasks jd ! q) = [])" if jd: "chained = Inr jd" for jd
  proof -
    have d: "distinct ps" using ok jd by simp
    obtain jd0 where "job_definition_new x (jb_id b) (jb_code ?b) (jb_initial_tasks b) (jb_runtime_executors b)
        (jb_dependencies ?b) (limits_of b) = Inr jd0" "initial_tasks jd = initial_tasks jd0"
      using build_definition_Inr [OF jd [unfolded chained_def]] by (auto simp: chain_fields(2-))
    then have ds: "initial_tasks jd = ?ds" by (auto simp: job_definition_new_Inr_iff)
    have "filter (\<lambda>(p, r). r = q) (zip ps (tl ps)) = []" if "q \<notin> set (tl ps)" for q
      using that by (auto simp: filter_empty_conv dest: set_zip_rightD)
    with m(1,2) chain_filter [OF d] assms(2) show ?thesis unfolding ds by simp
  qed
  with ok show ?thesis by blast
qed

section \<open>A pool for evaluation\<close>

text \<open>Two workers and one job of two tasks in a chain, in memory; opening a provider would always succeed.\<close>

definition sample_unlinked :: job_builder where
  "sample_unlinked = fst (add_initial_task sample_definition 7 (fst (add_initial_task sample_definition 7 (job_builder_new 1 ''job''))))"

definition sample_builder :: "(unit, unit, unit) jobs_manager_builder" where
  "sample_builder = set_workers 2 (use_memory (add_job 1 ''job''
     (\<lambda>jb. case add_initial_task sample_definition 7 jb of (jb1, first) \<Rightarrow>
        case add_initial_task sample_definition 7 jb1 of (jb2, second) \<Rightarrow> chain [first, second] jb2) jobs_manager_builder_new))"

definition sample_providers :: "(unit, unit, unit, unit) providers" where
  "sample_providers = \<lparr>compiled_methods = [''s3()''], open_s3 = \<lambda>_ _. Inr (), open_azure = \<lambda>_ _. Inr (), open_gcs = \<lambda>_ _. Inr ()\<rparr>"

lemmas sample_builder_defs = sample_builder_def set_workers_def use_memory_def add_job_def add_initial_task_def depends_on_def
  job_builder_new_def jobs_manager_builder_new_def

lemma sample_builder_jobs:
  "bd_jobs sample_builder = [\<lparr>jb_id = 1, jb_code = ''job'', jb_iteration_interval = None, jb_max_iterations = None,
     jb_iteration_retention = None, jb_task_limits = None, jb_initial_tasks = sample_tasks, jb_runtime_executors = [],
     jb_dependencies = sample_declared\<rparr>]"
  by (simp add: sample_builder_defs sample_tasks_def sample_declared_def)

lemma sample_built: "\<exists>m. build std_externs sample_providers sample_builder = Inr m"
proof -
  obtain r where r: "registry_new [sample_jd] = Inr r"
    by (simp add: registry_new_def register_job_def sample_jd_def)
  have "mapR (build_definition std_externs) (bd_jobs sample_builder) = Inr [sample_jd]"
    by (simp add: sample_builder_jobs build_definition_def limits_of_def apply_setting_def
        sample_jd_new [unfolded One_nat_def])
  moreover have "bd_storage sample_builder = InMemory" "bd_worker_count sample_builder = 2"
    "bd_poll_interval sample_builder = None" "bd_max_poll_interval sample_builder = None" "bd_jobs sample_builder \<noteq> []"
    by (simp_all add: sample_builder_defs)
  ultimately show ?thesis
    using r by (simp add: build_def build_storage_def build_poll_schedule_config_def apply_setting_def jobs_manager_new_def)
qed

theorem build_accepts_witness:
  "\<exists>m. build std_externs sample_providers sample_builder = Inr m \<and> jobs_described std_externs (bd_jobs sample_builder) \<and>
     list_jobs (mgr_registry m) = [''job'']"
proof -
  obtain m where m: "build std_externs sample_providers sample_builder = Inr m" using sample_built by blast
  have "map jb_code (bd_jobs sample_builder) = [''job'']" by (simp add: sample_builder_jobs)
  with m build_accepts [of std_externs sample_providers sample_builder] show ?thesis by simp
qed

theorem built_pool_starts_witness:
  "\<exists>m h. build std_externs sample_providers sample_builder = Inr m \<and> manager_start 0 Suc m = Inr h \<and>
     mh_cleaner_capacity h = Some 5 \<and> (0, ''job'') \<in> set (due_queue (pl_scheduler (mh_pool h)))"
proof -
  obtain m where m: "build std_externs sample_providers sample_builder = Inr m" using sample_built by blast
  have "cleaner_enabled (bd_cleaner_config sample_builder)"
    by (simp add: sample_builder_defs jobs_manager_config_default_def job_cleaner_config_default_def)
  moreover have "length (bd_jobs sample_builder) = 1" "jb_code ` set (bd_jobs sample_builder) = {''job''}"
    by (simp_all add: sample_builder_jobs)
  ultimately obtain h where "manager_start 0 Suc m = Inr h" "mh_cleaner_capacity h = Some 5"
    "\<forall>c. c \<in> {''job''} \<longleftrightarrow> (0, c) \<in> set (due_queue (pl_scheduler (mh_pool h)))"
    using built_pool_starts [OF m, of Suc 0] by auto
  with m show ?thesis by blast
qed

lemma sample_unlinked_ok: "unlinked std_externs sample_unlinked"
  using sample_valid sample_depends
  by (auto simp: unlinked_def sample_unlinked_def add_initial_task_def job_builder_new_def schedule_ok_def limits_of_def
      consistent_executors_def tolerance_default_def is_declared_def)

end
