(* ===== verification/JM_Provider.thy ===== *)
theory JM_Provider
  imports JM_Provider_Errors
begin

text \<open>
  What the three providers have in common once a request is put under its timeout and its token: from the
  laws of the single requests of a provider, as its service documents them, to the laws of an object
  store. \<open>stored s k\<close> is the version and the body under a key, \<open>moved\<close> what others may do to the store.
\<close>

locale provider_requests =
  fixes pe :: "'e provider_error"
    and hindrance :: "'c \<Rightarrow> request_race"
    and write_req :: "object_key \<Rightarrow> object_body \<Rightarrow> put_condition \<Rightarrow> ('c, 'e, object_version) sresult"
    and read_req :: "object_key \<Rightarrow> object_version \<Rightarrow> ('c, 'e, 'r) sresult"
    and body_of :: "'r \<Rightarrow> object_body"
    and changed_req :: "object_key \<Rightarrow> object_version \<Rightarrow> ('c, 'e, (object_version \<times> object_body) option) sresult"
    and list_req :: "listing_request \<Rightarrow> ('c, 'e, 'p) sresult"
    and page_of :: "'p \<Rightarrow> listed_page"
    and stored :: "'c \<Rightarrow> object_key \<Rightarrow> (object_version \<times> object_body) option"
    and moved :: "'c \<Rightarrow> 'c \<Rightarrow> bool"
  assumes moved_refl: "moved s s"
    and write_law: "write_req k body cond s = (s', wr) \<Longrightarrow>
      \<exists>s0. moved s s0 \<and> (stored s' = stored s0 \<and> \<not> is_ok wr \<or> condition_met cond (stored s0 k) \<and>
        (\<exists>v. real_version v \<and> stored s' = (stored s0)(k \<mapsto> (v, body)) \<and> (\<forall>u. wr = Inr u \<longrightarrow> u = v)))"
    and read_moves: "read_req k v s = (s', rr) \<Longrightarrow> moved s s'"
    and read_law: "read_req k v s = (s', Inr read) \<Longrightarrow> \<exists>u. stored s' k = Some (u, body_of read) \<and> (real_version v \<longrightarrow> u = v)"
    and changed_moves: "changed_req k v s = (s', cr) \<Longrightarrow> moved s s'"
    and changed_law: "changed_req k v s = (s', Inr o1) \<Longrightarrow> \<exists>v' body. o1 = Some (v', body) \<and> stored s' k = Some (v', body)"
    and unchanged_law: "real_version v \<Longrightarrow> changed_req k v s = (s', Inl e) \<Longrightarrow> is_not_modified pe e \<Longrightarrow> \<exists>body. stored s' k = Some (v, body)"
    and list_moves: "list_req req s = (s', lr) \<Longrightarrow> moved s s'"
    and list_law: "list_req \<lparr>lr_prefix = p, lr_start_key = None, lr_page_size = 1, lr_cursor = None\<rparr> s = (s', Inr out) \<Longrightarrow>
      (case lp_objects (page_of out) of
         [] \<Rightarrow> \<forall>k. prefix p k \<longrightarrow> stored s' k = None
       | o1 # _ \<Rightarrow> prefix p (lo_key o1) \<and> stored s' (lo_key o1) \<noteq> None \<and>
           (\<forall>v. lo_version o1 = Some v \<longrightarrow> (\<exists>body. stored s' (lo_key o1) = Some (v, body))) \<and>
           (\<forall>k. prefix p k \<and> stored s' k \<noteq> None \<longrightarrow> lo_key o1 \<le> k))"
begin

lemma put_lands:
  assumes "send_over pe ExpectSuccess hindrance (write_req k body cond) s = (s', Inr v)"
  shows "\<exists>s0. moved s s0 \<and> condition_met cond (stored s0 k) \<and> real_version v \<and> stored s' = (stored s0)(k \<mapsto> (v, body))"
  using send_over_Inr [OF assms] write_law [of k body cond s s' "Inr v"] by auto

lemma put_lost:
  assumes "send_over pe ExpectSuccess hindrance (write_req k body cond) s = (s', Inl e)"
  shows "\<exists>s0. moved s s0 \<and> (stored s' = stored s0 \<or>
    (condition_met cond (stored s0 k) \<and> (\<exists>v. stored s' = (stored s0)(k \<mapsto> (v, body)))))"
  using send_over_state [OF assms] write_law [of k body cond s s'] moved_refl by blast

lemma sent_moves:
  assumes "send_over pe acc h req s = (s', r)" and "\<And>s' q. req s = (s', q) \<Longrightarrow> moved s s'"
  shows "moved s s'"
  using send_over_state [OF assms(1)] assms(2) moved_refl by blast

lemma get_state: "send_over pe ExpectSuccess hindrance (read_req k v) s = (s', r) \<Longrightarrow> moved s s'"
  by (erule sent_moves) (rule read_moves)

lemma get_lands:
  "send_over pe ExpectSuccess hindrance (read_req k v) s = (s', Inr read) \<Longrightarrow>
    \<exists>u. stored s' k = Some (u, body_of read) \<and> (real_version v \<longrightarrow> u = v)"
  using send_over_Inr [of pe ExpectSuccess hindrance "read_req k v"] read_law by fastforce

lemma changed_state: "send_over pe (ExpectNotModified None) hindrance (changed_req k v) s = (s', r) \<Longrightarrow> moved s s'"
  by (erule sent_moves) (rule changed_moves)

lemma changed_lands:
  assumes "send_over pe (ExpectNotModified None) hindrance (changed_req k v) s = (s', Inr (Some (v', body)))"
  shows "stored s' k = Some (v', body)"
  using send_over_Inr [OF assms] changed_law by fastforce

lemma unchanged_lands:
  assumes "real_version v" and "send_over pe (ExpectNotModified None) hindrance (changed_req k v) s = (s', Inr None)"
  shows "\<exists>body. stored s' k = Some (v, body)"
  using send_over_Inr [OF assms(2)] changed_law unchanged_law [OF assms(1)] by fastforce

lemma list_state: "send_over pe ExpectSuccess hindrance (list_req req) s = (s', r) \<Longrightarrow> moved s s'"
  by (erule sent_moves) (rule list_moves)

lemma list_lands:
  assumes "send_over pe ExpectSuccess hindrance
    (list_req \<lparr>lr_prefix = p, lr_start_key = None, lr_page_size = 1, lr_cursor = None\<rparr>) s = (s', Inr out)"
  shows "case lp_objects (page_of out) of
     [] \<Rightarrow> \<forall>k. prefix p k \<longrightarrow> stored s' k = None
   | o1 # _ \<Rightarrow> prefix p (lo_key o1) \<and> stored s' (lo_key o1) \<noteq> None \<and>
       (\<forall>v. lo_version o1 = Some v \<longrightarrow> (\<exists>body. stored s' (lo_key o1) = Some (v, body))) \<and>
       (\<forall>k. prefix p k \<and> stored s' k \<noteq> None \<longrightarrow> lo_key o1 \<le> k)"
  by (rule list_law) (use send_over_Inr [OF assms] in simp)

text \<open>Deletes, one request for a group of keys.\<close>

lemma delete_state:
  assumes "send_over pe acc h req s = (s', r)"
    and "\<And>s' q. req s = (s', q) \<Longrightarrow> \<exists>s0. moved s s0 \<and> clears stored K s0 s'" and "K \<subseteq> K'"
  shows "(\<lambda>a c. moved a c \<or> clears stored K' a c)\<^sup>*\<^sup>* s s'"
proof -
  have more: "clears stored K a c \<Longrightarrow> clears stored K' a c" for a c using assms(3) by (auto simp: clears_def)
  from send_over_state [OF assms(1)] show ?thesis
  proof
    assume "\<exists>q. req s = (s', q)"
    then obtain s0 where "moved s s0" "clears stored K' s0 s'" using assms(2) more by blast
    then show ?thesis by (intro converse_rtranclp_into_rtranclp [of _ s s0] r_into_rtranclp) auto
  qed simp
qed

lemma step_loop:
  assumes "\<And>g t t' q. g \<in> set gs \<Longrightarrow> f g t = (t', q) \<Longrightarrow> R\<^sup>*\<^sup>* t t'" and "forS f gs s = (s', r)"
  shows "R\<^sup>*\<^sup>* s s'"
proof -
  have "R\<^sup>*\<^sup>* s (fst (forS f gs s))"
  proof (rule forS_invariant)
    fix g t assume "g \<in> set gs" "R\<^sup>*\<^sup>* s t"
    with assms(1) [of g t "fst (f g t)" "snd (f g t)"] show "R\<^sup>*\<^sup>* s (fst (f g t))" by simp
  qed simp
  with assms(2) show ?thesis by simp
qed

lemma delete_loop:
  assumes "\<And>g s s' q. g \<in> set gs \<Longrightarrow> req g s = (s', q) \<Longrightarrow> \<exists>s0. moved s s0 \<and> clears stored (keys_of g) s0 s'"
    and "\<And>g. g \<in> set gs \<Longrightarrow> keys_of g \<subseteq> K" and "forS (\<lambda>g. send_over pe acc h (req g)) gs s = (s', r)"
  shows "(\<lambda>a c. moved a c \<or> clears stored K a c)\<^sup>*\<^sup>* s s'"
  using assms(3) by (rule step_loop [rotated]) (erule delete_state, erule (1) assms(1), erule assms(2))

end

end
