(* ===== verification/JM_S3.thy ===== *)
theory JM_S3
  imports JM_Provider JM_Bucket
begin

text \<open>
  \<^verbatim>\<open>storage/s3.rs\<close>: the settings of an S3 storage, the check of its bucket, and the requests of the backend over the
  client of the SDK, which is a parameter, the record \<open>s3_client\<close>. What the service documents of conditional
  requests is the locale \<open>s3_service\<close>; over it the backend keeps the contract of an object store. What
  comes between a request and its answer is decided by \<open>sb_hindrance\<close>.
\<close>

section \<open>Settings\<close>

definition S3_REQUEST_TIMEOUT :: duration where
  "S3_REQUEST_TIMEOUT = secs 5"

definition S3_LIST_PAGE_SIZE :: int where
  "S3_LIST_PAGE_SIZE = 1000"

definition S3_DELETE_BATCH_SIZE :: nat where
  "S3_DELETE_BATCH_SIZE = 1000"

definition ANY_VERSION :: string where
  "ANY_VERSION = ''*''"

datatype s3_credentials_source = S3DefaultChain | S3StaticCredentials string string "string option"

record s3_config =
  s3_endpoint :: "string option"
  s3_credentials :: s3_credentials_source
  s3_bucket_name :: string
  s3_region :: string
  s3_state_prefix :: string
  s3_codec :: job_state_codec_kind
  s3_request_timeout :: duration
  s3_retrier_config :: retrier_config
  s3_list_page_size :: int
  s3_delete_batch_size :: nat
  s3_creation_allowed :: bool

definition s3_config_new :: "string \<Rightarrow> string \<Rightarrow> s3_config" where
  "s3_config_new bucket_name region =
     \<lparr>s3_endpoint = None, s3_credentials = S3DefaultChain, s3_bucket_name = bucket_name, s3_region = region,
      s3_state_prefix = DEFAULT_STATE_PREFIX, s3_codec = Json, s3_request_timeout = S3_REQUEST_TIMEOUT,
      s3_retrier_config = retrier_config_default, s3_list_page_size = S3_LIST_PAGE_SIZE,
      s3_delete_batch_size = S3_DELETE_BATCH_SIZE, s3_creation_allowed = True\<rparr>"

definition s3_with_endpoint :: "string \<Rightarrow> s3_config \<Rightarrow> s3_config" where
  "s3_with_endpoint endpoint cfg = cfg\<lparr>s3_endpoint := Some endpoint\<rparr>"

definition s3_with_static_credentials :: "string \<Rightarrow> string \<Rightarrow> string option \<Rightarrow> s3_config \<Rightarrow> s3_config" where
  "s3_with_static_credentials access_key_id secret_access_key session_token cfg =
     cfg\<lparr>s3_credentials := S3StaticCredentials access_key_id secret_access_key session_token\<rparr>"

definition s3_with_state_prefix :: "string \<Rightarrow> s3_config \<Rightarrow> s3_config" where
  "s3_with_state_prefix state_prefix cfg = cfg\<lparr>s3_state_prefix := state_prefix\<rparr>"

definition s3_with_job_state_codec :: "job_state_codec_kind \<Rightarrow> s3_config \<Rightarrow> s3_config" where
  "s3_with_job_state_codec codec cfg = cfg\<lparr>s3_codec := codec\<rparr>"

definition s3_with_request_timeout :: "duration \<Rightarrow> s3_config \<Rightarrow> s3_config" where
  "s3_with_request_timeout timeout cfg = cfg\<lparr>s3_request_timeout := timeout\<rparr>"

definition s3_with_retrier_config :: "retrier_config \<Rightarrow> s3_config \<Rightarrow> s3_config" where
  "s3_with_retrier_config rc cfg = cfg\<lparr>s3_retrier_config := rc\<rparr>"

definition s3_with_list_page_size :: "int \<Rightarrow> s3_config \<Rightarrow> error + s3_config" where
  "s3_with_list_page_size n cfg =
     (if 1 \<le> n \<and> n \<le> S3_LIST_PAGE_SIZE then Inr (cfg\<lparr>s3_list_page_size := n\<rparr>)
      else Inl (ErrOther ''s3 list page size must be within 1..=1000''))"

definition s3_with_delete_batch_size :: "nat \<Rightarrow> s3_config \<Rightarrow> error + s3_config" where
  "s3_with_delete_batch_size n cfg =
     (if 1 \<le> n \<and> n \<le> S3_DELETE_BATCH_SIZE then Inr (cfg\<lparr>s3_delete_batch_size := n\<rparr>)
      else Inl (ErrOther ''s3 delete batch size must be within 1..=1000''))"

definition s3_with_container_creation :: "bool \<Rightarrow> s3_config \<Rightarrow> s3_config" where
  "s3_with_container_creation allowed cfg = cfg\<lparr>s3_creation_allowed := allowed\<rparr>"

section \<open>The client of the SDK\<close>

record s3_put =
  sp_key :: object_key
  sp_body :: object_body
  sp_content_type :: string
  sp_if_match :: "string option"
  sp_if_none_match :: "string option"

record s3_get =
  sg_key :: object_key
  sg_if_match :: "string option"
  sg_if_none_match :: "string option"

record s3_listing =
  sl_prefix :: string
  sl_max_keys :: nat
  sl_continuation_token :: "string option"
  sl_start_after :: "string option"

record s3_entry =
  se_key :: "object_key option"
  se_e_tag :: "string option"

record s3_listed =
  sd_contents :: "s3_entry list"
  sd_next_continuation_token :: "string option"

text \<open>An answer to a read carries its entity-tag and its body, or the failure of the stream the body comes by.\<close>

record 'c s3_client =
  c_put_object :: "string \<Rightarrow> s3_put \<Rightarrow> ('c, sdk_error, string option) sresult"
  c_get_object :: "string \<Rightarrow> s3_get \<Rightarrow> ('c, sdk_error, string option \<times> (string + object_body)) sresult"
  c_list_objects_v2 :: "string \<Rightarrow> s3_listing \<Rightarrow> ('c, sdk_error, s3_listed) sresult"
  c_delete_object :: "string \<Rightarrow> object_key \<Rightarrow> ('c, sdk_error, unit) sresult"
  c_build_identifier :: "object_key \<Rightarrow> string + object_key"
  c_build_delete :: "object_key list \<Rightarrow> string + object_key list"
  c_delete_objects :: "string \<Rightarrow> object_key list \<Rightarrow> ('c, sdk_error, object_delete_error list) sresult"
  c_head_bucket :: "string \<Rightarrow> ('c, sdk_error, unit) sresult"
  c_create_bucket :: "string \<Rightarrow> ('c, sdk_error, unit) sresult"

record 'c s3_backend =
  sb_client :: "'c s3_client"
  sb_bucket_name :: string
  sb_content_type :: string
  sb_list_page_size :: nat
  sb_delete_batch_size :: nat
  sb_hindrance :: "'c \<Rightarrow> request_race"

section \<open>The check of the bucket\<close>

text \<open>A request under a timeout alone; \<open>None\<close> is the timeout.\<close>

definition timed :: "('c \<Rightarrow> request_race) \<Rightarrow> ('c, 'e, 'a) sresult \<Rightarrow> 'c \<Rightarrow> 'c \<times> ('e + 'a) option" where
  "timed hindrance req s = (case hindrance s of
      LateAfter reached \<Rightarrow> (if reached then fst (req s) else s, None)
    | _ \<Rightarrow> (case req s of (s', r) \<Rightarrow> (s', Some r)))"

fun answers_status :: "nat \<Rightarrow> sdk_error \<Rightarrow> bool" where
  "answers_status status (ServiceError answered text) = (answered = status)"
| "answers_status status _ = False"

definition s3_bucket_attempt ::
  "('c \<Rightarrow> request_race) \<Rightarrow> 'c s3_client \<Rightarrow> string \<Rightarrow> bool \<Rightarrow> ('c, storage_error, (unit, storage_error) retry_step) sresult" where
  "s3_bucket_attempt hindrance client bucket_name allowed s =
     (case timed hindrance (c_head_bucket client bucket_name) s of
        (s1, None) \<Rightarrow> (s1, Inr (Retry Timeout))
      | (s1, Some (Inr _)) \<Rightarrow> (s1, Inr (Done ()))
      | (s1, Some (Inl e)) \<Rightarrow>
          if answers_status 404 e
          then if \<not> allowed
            then (s1, Inl (Backend (''bucket '' @ bucket_name @ '' does not exist and container creation is turned off'')))
            else (case timed hindrance (c_create_bucket client bucket_name) s1 of
                (s2, None) \<Rightarrow> (s2, Inr (Retry Timeout))
              | (s2, Some (Inr _)) \<Rightarrow> (s2, Inr (Done ()))
              | (s2, Some (Inl e)) \<Rightarrow>
                  if answers_status 409 e then (s2, Inr (Done ())) else (s2, into_retry_step (map_s3_error e)))
          else (s1, into_retry_step (map_s3_error e)))"

text \<open>
  What the SDK loads for a region and a source of credentials: the endpoint its own configuration names for the
  service, where it looks one up, and the one it names for every service. \<open>endpoint_key\<close> is the key of the
  lookup, or why it cannot be built; \<open>from_conf\<close> the client of a configuration.
\<close>

record sdk_loader =
  sl_region :: string
  sl_credentials :: "(string \<times> string \<times> string option) option"

record 'k sdk_config =
  sk_load_config :: "('k \<Rightarrow> string option) option"
  sk_endpoint_url :: "string option"
  sk_loaded_with :: sdk_loader

record 'k s3_client_config =
  scc_sdk_config :: "'k sdk_config"
  scc_retries_disabled :: bool
  scc_endpoint_url :: "string option"
  scc_force_path_style :: bool

definition read_configured_endpoint :: "string + 'k \<Rightarrow> 'k sdk_config \<Rightarrow> error + string option" where
  "read_configured_endpoint endpoint_key sdk_config =
     bindR (map_err (\<lambda>e. ErrOther (''s3 endpoint lookup key: '' @ e)) endpoint_key)
       (\<lambda>key. Inr (case Option.bind (sk_load_config sdk_config) (\<lambda>load_config. load_config key) of
          Some endpoint \<Rightarrow> Some endpoint | None \<Rightarrow> sk_endpoint_url sdk_config))"

definition build_client_config ::
  "(sdk_loader \<Rightarrow> 'k sdk_config) \<Rightarrow> string + 'k \<Rightarrow> s3_config \<Rightarrow> error + 'k s3_client_config" where
  "build_client_config load endpoint_key cfg =
     (let sdk_config = load \<lparr>sl_region = s3_region cfg, sl_credentials = (case s3_credentials cfg of
            S3DefaultChain \<Rightarrow> None | S3StaticCredentials key_id secret token \<Rightarrow> Some (key_id, secret, token))\<rparr>
      in bindR (case s3_endpoint cfg of Some e \<Rightarrow> Inr (Some e) | None \<Rightarrow> read_configured_endpoint endpoint_key sdk_config)
        (\<lambda>endpoint. let client_config = \<lparr>scc_sdk_config = sdk_config, scc_retries_disabled = True, scc_endpoint_url = None,
              scc_force_path_style = False\<rparr>
          in Inr (case endpoint of
              None \<Rightarrow> client_config
            | Some e \<Rightarrow> client_config\<lparr>scc_endpoint_url := Some e, scc_force_path_style := True\<rparr>)))"

definition s3_build ::
  "('c \<Rightarrow> request_race) \<Rightarrow> (sdk_loader \<Rightarrow> 'k sdk_config) \<Rightarrow> string + 'k \<Rightarrow> ('k s3_client_config \<Rightarrow> 'c s3_client) \<Rightarrow> s3_config \<Rightarrow>
   ('c, error, 'c s3_backend \<times> job_paths) sresult" where
  "s3_build hindrance load endpoint_key from_conf cfg s = (case build_client_config load endpoint_key cfg of
      Inl e \<Rightarrow> (s, Inl e)
    | Inr client_config \<Rightarrow> (let client = from_conf client_config in
       case retry storage_retry_error (s3_retrier_config cfg) not_cancelled
        (s3_bucket_attempt hindrance client (s3_bucket_name cfg) (s3_creation_allowed cfg)) s of
        (s', Inl e) \<Rightarrow> (s', Inl (ErrOther ''Failed to init bucket''))
      | (s', Inr _) \<Rightarrow> (s', Inr (\<lparr>sb_client = client, sb_bucket_name = s3_bucket_name cfg,
            sb_content_type = content_type_of (s3_codec cfg), sb_list_page_size = nat (s3_list_page_size cfg),
            sb_delete_batch_size = s3_delete_batch_size cfg, sb_hindrance = hindrance\<rparr>,
          job_paths_new (s3_state_prefix cfg) (s3_codec cfg)))))"

section \<open>The backend\<close>

definition s3_read_object :: "'c s3_backend \<Rightarrow> s3_get \<Rightarrow> ('c, s3_failure, object_body) sresult" where
  "s3_read_object b g s = (case c_get_object (sb_client b) (sb_bucket_name b) g s of
      (s', Inl e) \<Rightarrow> (s', Inl (S3Refused e))
    | (s', Inr (_, Inl e)) \<Rightarrow> (s', Inl (S3Unread e))
    | (s', Inr (_, Inr body)) \<Rightarrow> (s', Inr body))"

definition s3_read_changed_object ::
  "'c s3_backend \<Rightarrow> s3_get \<Rightarrow> ('c, s3_failure, (object_version \<times> object_body) option) sresult" where
  "s3_read_changed_object b g s = (case c_get_object (sb_client b) (sb_bucket_name b) g s of
      (s', Inl e) \<Rightarrow> (s', Inl (S3Refused e))
    | (s', Inr (_, Inl e)) \<Rightarrow> (s', Inl (S3Unread e))
    | (s', Inr (None, Inr body)) \<Rightarrow> (s', Inl (S3Unusable (Backend (''Missing etag reading iteration '' @ sg_key g))))
    | (s', Inr (Some tag, Inr body)) \<Rightarrow> (s', Inr (Some (normalize_etag tag, body))))"

definition s3_write_object :: "'c s3_backend \<Rightarrow> s3_put \<Rightarrow> ('c, s3_failure, object_version) sresult" where
  "s3_write_object b w s = (case c_put_object (sb_client b) (sb_bucket_name b) w s of
      (s', Inl e) \<Rightarrow> (s', Inl (S3Refused e))
    | (s', Inr None) \<Rightarrow> (s', Inl (S3Unusable (Backend (''Missing etag writing '' @ sp_key w))))
    | (s', Inr (Some tag)) \<Rightarrow> (s', Inr (normalize_etag tag)))"

definition s3_delete_object_batch :: "'c s3_backend \<Rightarrow> object_key list \<Rightarrow> ('c, s3_failure, unit) sresult" where
  "s3_delete_object_batch b keys s = (case c_delete_objects (sb_client b) (sb_bucket_name b) keys s of
      (s', Inl e) \<Rightarrow> (s', Inl (S3Refused e))
    | (s', Inr failures) \<Rightarrow> (case classify_delete_failures failures of
        None \<Rightarrow> (s', Inr ()) | Some e \<Rightarrow> (s', Inl (S3Unusable e))))"

definition box_sdk_request :: "('c, sdk_error, 'a) sresult \<Rightarrow> ('c, s3_failure, 'a) sresult" where
  "box_sdk_request req s = (case req s of (s', Inl e) \<Rightarrow> (s', Inl (S3Refused e)) | (s', Inr a) \<Rightarrow> (s', Inr a))"

definition s3_put_request :: "'c s3_backend \<Rightarrow> object_key \<Rightarrow> object_body \<Rightarrow> put_condition \<Rightarrow> s3_put" where
  "s3_put_request b k body cond =
     (let w = \<lparr>sp_key = k, sp_body = body, sp_content_type = sb_content_type b, sp_if_match = None, sp_if_none_match = None\<rparr> in
      case cond of
        CreateOnly \<Rightarrow> w\<lparr>sp_if_none_match := Some ANY_VERSION\<rparr>
      | MatchVersion v \<Rightarrow> w\<lparr>sp_if_match := Some v\<rparr>)"

definition s3_put_object ::
  "'c s3_backend \<Rightarrow> object_key \<Rightarrow> object_body \<Rightarrow> put_condition \<Rightarrow> ('c, storage_error, object_version) sresult" where
  "s3_put_object b k body cond =
     send_over s3_provider_error ExpectSuccess (sb_hindrance b) (s3_write_object b (s3_put_request b k body cond))"

definition s3_get_object :: "'c s3_backend \<Rightarrow> object_key \<Rightarrow> object_version \<Rightarrow> ('c, storage_error, object_body) sresult" where
  "s3_get_object b k v =
     send_over s3_provider_error ExpectSuccess (sb_hindrance b)
       (s3_read_object b \<lparr>sg_key = k, sg_if_match = Some v, sg_if_none_match = None\<rparr>)"

definition s3_get_changed_object ::
  "'c s3_backend \<Rightarrow> object_key \<Rightarrow> object_version \<Rightarrow> ('c, storage_error, (object_version \<times> object_body) option) sresult" where
  "s3_get_changed_object b k v =
     send_over s3_provider_error (ExpectNotModified None) (sb_hindrance b)
       (s3_read_changed_object b \<lparr>sg_key = k, sg_if_match = None, sg_if_none_match = Some v\<rparr>)"

definition s3_page_of :: "s3_listed \<Rightarrow> listed_page" where
  "s3_page_of out =
     \<lparr>lp_objects = List.map_filter (\<lambda>e. map_option (\<lambda>k. \<lparr>lo_key = k, lo_version = map_option normalize_etag (se_e_tag e)\<rparr>)
        (se_key e)) (sd_contents out),
      lp_next_cursor = sd_next_continuation_token out\<rparr>"

definition s3_listing_of :: "listing_request \<Rightarrow> s3_listing" where
  "s3_listing_of req = \<lparr>sl_prefix = lr_prefix req, sl_max_keys = lr_page_size req, sl_continuation_token = lr_cursor req,
     sl_start_after = lr_start_key req\<rparr>"

definition s3_list_objects :: "'c s3_backend \<Rightarrow> listing_request \<Rightarrow> ('c, storage_error, listed_page) sresult" where
  "s3_list_objects b req s =
     (case send_over s3_provider_error ExpectSuccess (sb_hindrance b)
        (box_sdk_request (c_list_objects_v2 (sb_client b) (sb_bucket_name b) (s3_listing_of req))) s of
        (s', Inl e) \<Rightarrow> (s', Inl e)
      | (s', Inr out) \<Rightarrow> (s', Inr (s3_page_of out)))"

definition s3_delete_object :: "'c s3_backend \<Rightarrow> object_key \<Rightarrow> ('c, storage_error, unit) sresult" where
  "s3_delete_object b k =
     send_over s3_provider_error ExpectSuccess (sb_hindrance b)
       (box_sdk_request (c_delete_object (sb_client b) (sb_bucket_name b) k))"

text \<open>\<^verbatim>\<open>slice::chunks\<close>; the size of a chunk is positive, as the settings keep it.\<close>

function chunks :: "nat \<Rightarrow> 'a list \<Rightarrow> 'a list list" where
  "chunks n xs = (if xs = [] \<or> n = 0 then [] else take n xs # chunks n (drop n xs))"
  by pat_completeness auto
termination
  by (relation "measure (\<lambda>(n, xs). length xs)") auto

declare chunks.simps [simp del]

definition build_delete_payload :: "'c s3_client \<Rightarrow> object_key list \<Rightarrow> storage_error + object_key list" where
  "build_delete_payload client keys =
     bindR (mapR (\<lambda>k. map_err (\<lambda>e. StorageOther (''Failed to build delete entry for '' @ k @ '': '' @ e)) (c_build_identifier client k)) keys)
       (\<lambda>objects. map_err (\<lambda>e. StorageOther (''Failed to build delete request: '' @ e)) (c_build_delete client objects))"

definition s3_delete_chunk :: "'c s3_backend \<Rightarrow> object_key list \<Rightarrow> ('c, storage_error, unit) sresult" where
  "s3_delete_chunk b chunk s = (case build_delete_payload (sb_client b) chunk of
      Inl e \<Rightarrow> (s, Inl e)
    | Inr delete \<Rightarrow> send_over s3_provider_error ExpectSuccess (sb_hindrance b) (s3_delete_object_batch b delete) s)"

definition s3_delete_objects :: "'c s3_backend \<Rightarrow> object_key list \<Rightarrow> ('c, storage_error, unit) sresult" where
  "s3_delete_objects b keys = (case keys of
      [k] \<Rightarrow> s3_delete_object b k
    | _ \<Rightarrow> forS (s3_delete_chunk b) (chunks (sb_delete_batch_size b) keys))"

definition s3_ops :: "'c s3_backend \<Rightarrow> 'c backend" where
  "s3_ops b =
     \<lparr>be_listing_start_bound = Exclusive, be_list_page_size = sb_list_page_size b, be_put_object = s3_put_object b,
      be_get_object = s3_get_object b, be_get_changed_object = s3_get_changed_object b,
      be_list_objects = s3_list_objects b, be_delete_objects = s3_delete_objects b\<rparr>"

lemma s3_ops_simps:
  "be_put_object (s3_ops b) = s3_put_object b" "be_get_object (s3_ops b) = s3_get_object b"
  "be_get_changed_object (s3_ops b) = s3_get_changed_object b" "be_list_objects (s3_ops b) = s3_list_objects b"
  "be_delete_objects (s3_ops b) = s3_delete_objects b"
  by (simp_all add: s3_ops_def)

lemma set_chunks: "chunk \<in> set (chunks n xs) \<Longrightarrow> set chunk \<subseteq> set xs"
proof (induction n xs rule: chunks.induct)
  case (1 n xs)
  then show ?case by (subst (asm) (2) chunks.simps) (auto split: if_splits dest: in_set_takeD in_set_dropD)
qed

section \<open>What the service documents\<close>

text \<open>
  \<open>stored s k\<close> is the entity-tag, without its quotes, and the body under a key. A condition is held against the tag
  with or without quotes; a write is atomic, and one whose answer is lost may have been made; an answer
  names the tag of what it is about.
\<close>

definition s3_condition :: "string option \<Rightarrow> string option \<Rightarrow> (object_version \<times> object_body) option \<Rightarrow> bool" where
  "s3_condition if_match if_none_match obj \<longleftrightarrow>
     (\<forall>v. if_match = Some v \<longrightarrow> (if v = ANY_VERSION then obj \<noteq> None else (\<exists>body. obj = Some (v, body)))) \<and>
     (\<forall>v. if_none_match = Some v \<longrightarrow> (if v = ANY_VERSION then obj = None else (\<forall>body. obj \<noteq> Some (v, body))))"

locale s3_service =
  fixes b :: "'c s3_backend"
    and stored :: "'c \<Rightarrow> object_key \<Rightarrow> (object_version \<times> object_body) option"
    and moved :: "'c \<Rightarrow> 'c \<Rightarrow> bool"
  assumes moved_refl: "moved s s"
    and s3_put: "c_put_object (sb_client b) (sb_bucket_name b) w s = (s', pr) \<Longrightarrow>
      \<exists>s0. moved s s0 \<and> (stored s' = stored s0 \<and> \<not> is_ok pr \<or>
        s3_condition (sp_if_match w) (sp_if_none_match w) (stored s0 (sp_key w)) \<and>
        (\<exists>v. real_version v \<and> stored s' = (stored s0)(sp_key w \<mapsto> (v, sp_body w)) \<and>
           (\<forall>tag. pr = Inr (Some tag) \<longrightarrow> normalize_etag tag = v)))"
    and s3_get_moves: "c_get_object (sb_client b) (sb_bucket_name b) g s = (s', gr) \<Longrightarrow> moved s s'"
    and s3_get: "c_get_object (sb_client b) (sb_bucket_name b) g s = (s', Inr (tag, Inr body)) \<Longrightarrow>
      \<exists>v. stored s' (sg_key g) = Some (v, body) \<and> s3_condition (sg_if_match g) (sg_if_none_match g) (Some (v, body)) \<and>
        (\<forall>t. tag = Some t \<longrightarrow> normalize_etag t = v)"
    and s3_not_modified: "c_get_object (sb_client b) (sb_bucket_name b) g s = (s', Inl (ServiceError 304 text)) \<Longrightarrow>
      \<exists>v body. sg_if_none_match g = Some v \<and> stored s' (sg_key g) = Some (v, body)"
    and s3_list_moves: "c_list_objects_v2 (sb_client b) (sb_bucket_name b) l s = (s', lr) \<Longrightarrow> moved s s'"
    and s3_list_first: "c_list_objects_v2 (sb_client b) (sb_bucket_name b)
        \<lparr>sl_prefix = p, sl_max_keys = 1, sl_continuation_token = None, sl_start_after = None\<rparr> s = (s', Inr out) \<Longrightarrow>
      (case sd_contents out of
         [] \<Rightarrow> \<forall>k. prefix p k \<longrightarrow> stored s' k = None
       | e # _ \<Rightarrow> \<exists>k. se_key e = Some k \<and> prefix p k \<and> stored s' k \<noteq> None \<and>
           (\<forall>t. se_e_tag e = Some t \<longrightarrow> (\<exists>body. stored s' k = Some (normalize_etag t, body))) \<and>
           (\<forall>k'. prefix p k' \<and> stored s' k' \<noteq> None \<longrightarrow> k \<le> k'))"
    and s3_delete: "c_delete_object (sb_client b) (sb_bucket_name b) k s = (s', dr) \<Longrightarrow>
      \<exists>s0. moved s s0 \<and> clears stored {k} s0 s'"
    and s3_identifier: "c_build_identifier (sb_client b) k = Inr k' \<Longrightarrow> k' = k"
    and s3_payload: "c_build_delete (sb_client b) ks = Inr ks' \<Longrightarrow> ks' = ks"
    and s3_delete_batch: "c_delete_objects (sb_client b) (sb_bucket_name b) ks s = (s', br) \<Longrightarrow>
      \<exists>s0. moved s s0 \<and> clears stored (set ks) s0 s'"
begin

lemma write_cases:
  assumes "s3_write_object b (s3_put_request b k body cond) s = (s', r)"
  shows "\<exists>s0. moved s s0 \<and> (stored s' = stored s0 \<and> \<not> is_ok r \<or> condition_met cond (stored s0 k) \<and>
    (\<exists>v. real_version v \<and> stored s' = (stored s0)(k \<mapsto> (v, body)) \<and> (\<forall>u. r = Inr u \<longrightarrow> u = v)))"
proof -
  let ?w = "s3_put_request b k body cond"
  have w: "sp_key ?w = k" "sp_body ?w = body" by (simp_all add: s3_put_request_def Let_def split: put_condition.splits)
  have cond: "s3_condition (sp_if_match ?w) (sp_if_none_match ?w) obj \<Longrightarrow> condition_met cond obj" for obj
    by (cases cond) (auto simp: condition_met_def s3_put_request_def s3_condition_def Let_def real_version_def ANY_VERSION_def)
  obtain q where q: "c_put_object (sb_client b) (sb_bucket_name b) ?w s = (s', q)"
    and r: "r = (case q of Inl e \<Rightarrow> Inl (S3Refused e) | Inr None \<Rightarrow> Inl (S3Unusable (Backend (''Missing etag writing '' @ k)))
      | Inr (Some tag) \<Rightarrow> Inr (normalize_etag tag))"
    using assms by (auto simp: s3_write_object_def w split: prod.splits sum.splits option.splits)
  have "is_ok r \<Longrightarrow> is_ok q" "\<And>u. r = Inr u \<Longrightarrow> \<exists>tag. q = Inr (Some tag) \<and> u = normalize_etag tag"
    by (auto simp: r is_ok_iff split: sum.splits option.splits)
  with s3_put [OF q, unfolded w] cond show ?thesis by metis
qed

lemma read_lands:
  assumes "s3_read_object b \<lparr>sg_key = k, sg_if_match = Some v, sg_if_none_match = None\<rparr> s = (s', Inr body)"
  shows "\<exists>u. stored s' k = Some (u, body) \<and> (real_version v \<longrightarrow> u = v)"
proof -
  obtain tag where "c_get_object (sb_client b) (sb_bucket_name b)
      \<lparr>sg_key = k, sg_if_match = Some v, sg_if_none_match = None\<rparr> s = (s', Inr (tag, Inr body))"
    using assms by (auto simp: s3_read_object_def split: prod.splits sum.splits)
  from s3_get [OF this] show ?thesis by (auto simp: s3_condition_def real_version_def ANY_VERSION_def)
qed

lemma read_changed_lands:
  assumes "s3_read_changed_object b \<lparr>sg_key = k, sg_if_match = None, sg_if_none_match = Some v\<rparr> s = (s', Inr o1)"
  shows "\<exists>v' body. o1 = Some (v', body) \<and> stored s' k = Some (v', body)"
proof -
  obtain tag body where "c_get_object (sb_client b) (sb_bucket_name b)
      \<lparr>sg_key = k, sg_if_match = None, sg_if_none_match = Some v\<rparr> s = (s', Inr (Some tag, Inr body))"
    "o1 = Some (normalize_etag tag, body)"
    using assms by (auto simp: s3_read_changed_object_def split: prod.splits sum.splits option.splits)
  from s3_get [OF this(1)] this(2) show ?thesis by auto
qed

lemma read_unchanged_lands:
  assumes "real_version v" and "s3_read_changed_object b \<lparr>sg_key = k, sg_if_match = None, sg_if_none_match = Some v\<rparr> s = (s', Inl e)"
    and "is_not_modified s3_provider_error e"
  shows "\<exists>body. stored s' k = Some (v, body)"
proof -
  obtain words where "e = S3Refused (ServiceError 304 words)"
    using assms(3) by (cases e rule: s3_is_not_modified.cases) (auto simp: s3_provider_error_def not_modified_status)
  with assms(2) have "c_get_object (sb_client b) (sb_bucket_name b)
      \<lparr>sg_key = k, sg_if_match = None, sg_if_none_match = Some v\<rparr> s = (s', Inl (ServiceError 304 words))"
    by (auto simp: s3_read_changed_object_def split: prod.splits sum.splits option.splits)
  from s3_not_modified [OF this] show ?thesis by auto
qed

lemma boxed: "box_sdk_request req s = (s', r) \<Longrightarrow> \<exists>q. req s = (s', q) \<and> (\<forall>a. r = Inr a \<longrightarrow> q = Inr a)"
  by (auto simp: box_sdk_request_def split: prod.splits sum.splits)

lemma batch_clears:
  assumes "s3_delete_object_batch b chunk s = (s', q)"
  shows "\<exists>s0. moved s s0 \<and> clears stored (set chunk) s0 s'"
  using assms s3_delete_batch by (fastforce simp: s3_delete_object_batch_def split: prod.splits sum.splits option.splits)

end

sublocale s3_service \<subseteq> requests: provider_requests s3_provider_error "sb_hindrance b"
  "\<lambda>k body cond. s3_write_object b (s3_put_request b k body cond)"
  "\<lambda>k v. s3_read_object b \<lparr>sg_key = k, sg_if_match = Some v, sg_if_none_match = None\<rparr>" "\<lambda>body. body"
  "\<lambda>k v. s3_read_changed_object b \<lparr>sg_key = k, sg_if_match = None, sg_if_none_match = Some v\<rparr>"
  "\<lambda>req. box_sdk_request (c_list_objects_v2 (sb_client b) (sb_bucket_name b) (s3_listing_of req))"
  s3_page_of stored moved
proof unfold_locales
  show "moved s s'" if "s3_read_object b \<lparr>sg_key = k, sg_if_match = Some v, sg_if_none_match = None\<rparr> s = (s', r)" for k v s s' r
    using that s3_get_moves by (fastforce simp: s3_read_object_def split: prod.splits sum.splits)
  show "moved s s'" if "s3_read_changed_object b \<lparr>sg_key = k, sg_if_match = None, sg_if_none_match = Some v\<rparr> s = (s', r)" for k v s s' r
    using that s3_get_moves by (fastforce simp: s3_read_changed_object_def split: prod.splits sum.splits option.splits)
  show "moved s s'" if "box_sdk_request (c_list_objects_v2 (sb_client b) (sb_bucket_name b) (s3_listing_of req)) s = (s', r)" for req s s' r
    using boxed [OF that] s3_list_moves by blast
  show "case lp_objects (s3_page_of out) of
       [] \<Rightarrow> \<forall>k. prefix p k \<longrightarrow> stored s' k = None
     | o1 # _ \<Rightarrow> prefix p (lo_key o1) \<and> stored s' (lo_key o1) \<noteq> None \<and>
         (\<forall>v. lo_version o1 = Some v \<longrightarrow> (\<exists>body. stored s' (lo_key o1) = Some (v, body))) \<and>
         (\<forall>k. prefix p k \<and> stored s' k \<noteq> None \<longrightarrow> lo_key o1 \<le> k)"
    if "box_sdk_request (c_list_objects_v2 (sb_client b) (sb_bucket_name b)
      (s3_listing_of \<lparr>lr_prefix = p, lr_start_key = None, lr_page_size = 1, lr_cursor = None\<rparr>)) s = (s', Inr out)" for p s s' out
  proof -
    have "c_list_objects_v2 (sb_client b) (sb_bucket_name b)
        \<lparr>sl_prefix = p, sl_max_keys = 1, sl_continuation_token = None, sl_start_after = None\<rparr> s = (s', Inr out)"
      using boxed [OF that] by (auto simp: s3_listing_of_def)
    from s3_list_first [OF this] show ?thesis by (cases "sd_contents out") (auto simp: s3_page_of_def map_filter_simps)
  qed
qed (fact moved_refl write_cases read_lands read_changed_lands read_unchanged_lands)+

context s3_service
begin

lemma payload_keys: "build_delete_payload (sb_client b) keys = Inr delete \<Longrightarrow> delete = keys"
proof -
  assume "build_delete_payload (sb_client b) keys = Inr delete"
  then obtain objects where "list_all2 (\<lambda>k k'. c_build_identifier (sb_client b) k = Inr k') keys objects"
    and built: "c_build_delete (sb_client b) objects = Inr delete"
    by (auto simp: build_delete_payload_def mapR_Inr_iff)
  then have "list_all2 (\<lambda>k k'. k = k') keys objects" by (auto elim!: list_all2_mono dest: s3_identifier)
  with s3_payload [OF built] show "delete = keys" by (simp add: list.rel_eq)
qed

lemma chunk_state:
  assumes "s3_delete_chunk b chunk s = (s', r)" and "set chunk \<subseteq> K"
  shows "(\<lambda>a c. moved a c \<or> clears stored K a c)\<^sup>*\<^sup>* s s'"
proof (cases "build_delete_payload (sb_client b) chunk")
  case (Inr delete)
  with assms(1) have "send_over s3_provider_error ExpectSuccess (sb_hindrance b) (s3_delete_object_batch b chunk) s = (s', r)"
    using payload_keys [OF Inr] by (simp add: s3_delete_chunk_def)
  then show ?thesis by (rule requests.delete_state [OF _ _ assms(2)]) (erule batch_clears)
qed (use assms(1) in \<open>simp add: s3_delete_chunk_def\<close>)

lemma delete_all_state:
  assumes "s3_delete_objects b keys s = (s', r)"
  shows "(\<lambda>a c. moved a c \<or> clears stored (set keys) a c)\<^sup>*\<^sup>* s s'"
proof (cases "\<exists>k. keys = [k]")
  case True
  then obtain k where k: "keys = [k]" by blast
  have "send_over s3_provider_error ExpectSuccess (sb_hindrance b)
      (box_sdk_request (c_delete_object (sb_client b) (sb_bucket_name b) k)) s = (s', r)"
    using assms by (simp add: k s3_delete_objects_def s3_delete_object_def)
  then show ?thesis
  proof (rule requests.delete_state [where K = "{k}"])
    fix t q assume "box_sdk_request (c_delete_object (sb_client b) (sb_bucket_name b) k) s = (t, q)"
    from boxed [OF this] s3_delete show "\<exists>s0. moved s s0 \<and> clears stored {k} s0 t" by blast
  qed (simp add: k)
next
  case False
  then have "forS (s3_delete_chunk b) (chunks (sb_delete_batch_size b) keys) s = (s', r)"
    using assms by (simp add: s3_delete_objects_def split: list.splits)
  then show ?thesis by (rule requests.step_loop [rotated]) (erule chunk_state, erule set_chunks)
qed

lemma list_cases:
  assumes "s3_list_objects b req s = (s', r)"
  shows "\<exists>q. send_over s3_provider_error ExpectSuccess (sb_hindrance b)
      (box_sdk_request (c_list_objects_v2 (sb_client b) (sb_bucket_name b) (s3_listing_of req))) s = (s', q) \<and>
    (\<forall>page. r = Inr page \<longrightarrow> (\<exists>out. q = Inr out \<and> page = s3_page_of out))"
  using assms by (auto simp: s3_list_objects_def split: prod.splits sum.splits)

lemma list_lands:
  assumes "s3_list_objects b \<lparr>lr_prefix = p, lr_start_key = None, lr_page_size = 1, lr_cursor = None\<rparr> s = (s', Inr page)"
  shows "case lp_objects page of
     [] \<Rightarrow> \<forall>k. prefix p k \<longrightarrow> stored s' k = None
   | o1 # _ \<Rightarrow> prefix p (lo_key o1) \<and> stored s' (lo_key o1) \<noteq> None \<and>
       (\<forall>v. lo_version o1 = Some v \<longrightarrow> (\<exists>body. stored s' (lo_key o1) = Some (v, body))) \<and>
       (\<forall>k. prefix p k \<and> stored s' k \<noteq> None \<longrightarrow> lo_key o1 \<le> k)"
proof -
  obtain out where out: "send_over s3_provider_error ExpectSuccess (sb_hindrance b)
      (box_sdk_request (c_list_objects_v2 (sb_client b) (sb_bucket_name b)
        (s3_listing_of \<lparr>lr_prefix = p, lr_start_key = None, lr_page_size = 1, lr_cursor = None\<rparr>))) s = (s', Inr out)"
    and page: "page = s3_page_of out"
    using list_cases [OF assms] by blast
  from requests.list_lands [OF out] show ?thesis unfolding page .
qed

lemma list_state: "s3_list_objects b req s = (s', r) \<Longrightarrow> moved s s'"
  by (drule list_cases) (elim exE conjE, erule requests.list_state)

end

text \<open>The contract of an object store, proved once for every service of this kind.\<close>

sublocale s3_service \<subseteq> over_s3: object_store "s3_ops b" stored moved
  by unfold_locales
    (simp_all only: s3_ops_simps s3_put_object_def s3_get_object_def s3_get_changed_object_def,
      (rule requests.put_lands requests.put_lost requests.get_state requests.get_lands requests.changed_state
        requests.changed_lands requests.unchanged_lands list_state list_lands delete_all_state; assumption)+)

context s3_service
begin

lemma keeps_contract: "object_store (s3_ops b) stored moved"
  by (rule over_s3.object_store_axioms)

end

section \<open>A service over a bucket\<close>

definition quoted :: "string \<Rightarrow> string" where
  "quoted v = CHR 0x22 # v @ [CHR 0x22]"

text \<open>The tag an answer names; the bucket numbers its versions, and no other version has one.\<close>

definition tag_of :: "object_version \<Rightarrow> string option" where
  "tag_of v = (if normalize_etag (quoted v) = v then Some (quoted v) else None)"

definition s3_allows :: "string option \<Rightarrow> string option \<Rightarrow> (object_version \<times> object_body) option \<Rightarrow> bool" where
  "s3_allows if_match if_none_match obj \<longleftrightarrow>
     (case if_match of None \<Rightarrow> True | Some v \<Rightarrow> if v = ANY_VERSION then obj \<noteq> None else map_option fst obj = Some v) \<and>
     (case if_none_match of None \<Rightarrow> True | Some v \<Rightarrow> if v = ANY_VERSION then obj = None else map_option fst obj \<noteq> Some v)"

definition bk_remove :: "object_key list \<Rightarrow> bucket \<Rightarrow> bucket" where
  "bk_remove ks b = b\<lparr>bk_objects := filter (\<lambda>(k, _). k \<notin> set ks) (bk_objects b)\<rparr>"

lemma bk_remove_clears: "clears bk_lookup (set ks) b (bk_remove ks b)"
  by (simp add: clears_def bk_remove_def lookup_delete)

definition bucket_s3_client :: "job_paths \<Rightarrow> bucket s3_client" where
  "bucket_s3_client p =
     \<lparr>c_put_object = (\<lambda>_ w b. let b0 = bk_arrive p b in
        if s3_allows (sp_if_match w) (sp_if_none_match w) (bk_lookup b0 (sp_key w))
        then (bk_write (sp_key w) (sp_body w) b0, Inr (tag_of (show_nat (bk_counter b0 + 1))))
        else (b0, Inl (ServiceError 412 ''PreconditionFailed''))),
      c_get_object = (\<lambda>_ g b. let b0 = bk_arrive p b in
        (b0, case bk_lookup b0 (sg_key g) of
          None \<Rightarrow> Inl (ServiceError 404 ''NoSuchKey'')
        | Some (v, body) \<Rightarrow>
            if s3_allows (sg_if_match g) (sg_if_none_match g) (Some (v, body)) then Inr (tag_of v, Inr body)
            else if sg_if_none_match g = Some v then Inl (ServiceError 304 ''NotModified'')
            else Inl (ServiceError 412 ''PreconditionFailed''))),
      c_list_objects_v2 = (\<lambda>_ l b. let b0 = bk_arrive p b;
          page = bk_list \<lparr>lr_prefix = sl_prefix l, lr_start_key = None, lr_page_size = sl_max_keys l,
            lr_cursor = (case sl_continuation_token l of Some t \<Rightarrow> Some t | None \<Rightarrow> sl_start_after l)\<rparr> b0 in
        (b0, Inr \<lparr>sd_contents = map (\<lambda>o1. \<lparr>se_key = Some (lo_key o1), se_e_tag = Option.bind (lo_version o1) tag_of\<rparr>) (lp_objects page),
                  sd_next_continuation_token = lp_next_cursor page\<rparr>)),
      c_delete_object = (\<lambda>_ k b. let b0 = bk_arrive p b in
        (bk_remove [k] b0, Inr ())),
      c_build_identifier = Inr, c_build_delete = Inr,
      c_delete_objects = (\<lambda>_ ks b. let b0 = bk_arrive p b in
        (bk_remove ks b0, Inr [])),
      c_head_bucket = (\<lambda>_ b. (b, Inr ())),
      c_create_bucket = (\<lambda>_ b. (b, Inl (ServiceError 409 ''BucketAlreadyOwnedByYou'')))\<rparr>"

definition bucket_s3 :: "job_paths \<Rightarrow> (bucket \<Rightarrow> request_race) \<Rightarrow> bucket s3_backend" where
  "bucket_s3 p h = \<lparr>sb_client = bucket_s3_client p, sb_bucket_name = ''jobs'', sb_content_type = ''application/json'',
     sb_list_page_size = 1000, sb_delete_batch_size = 1000, sb_hindrance = h\<rparr>"

lemma s3_allows_condition: "s3_allows m n obj \<longleftrightarrow> s3_condition m n obj"
  by (cases obj) (auto simp: s3_allows_def s3_condition_def split: option.splits)

text \<open>A tag that is a number loses its quotes and nothing else.\<close>

lemma normalize_quoted:
  assumes "\<forall>c \<in> set v. is_digit c"
  shows "normalize_etag (quoted v) = v"
proof -
  have q: "\<not> is_ascii_space (CHR 0x22)" by (simp add: is_ascii_space_def)
  have d: "c \<noteq> CHR 0x22" if "c \<in> set v" for c using assms that by (auto simp: is_digit_def)
  have t1: "trim_both is_ascii_space (quoted v) = quoted v" using q by (simp add: trim_both_def quoted_def)
  have dropv: "dropWhile (\<lambda>c. c = CHR 0x22) (v @ [CHR 0x22]) = v @ [CHR 0x22] \<or> v = []" using d by (cases v) auto
  have "dropWhile (\<lambda>c. c = CHR 0x22) (rev v) = rev v"
    unfolding dropWhile_eq_self_iff using d by (metis hd_in_set set_rev)
  with dropv show ?thesis by (auto simp: normalize_etag_def t1) (auto simp: trim_both_def quoted_def)
qed

lemma tag_of_Some: "tag_of v = Some t \<Longrightarrow> normalize_etag t = v"
  by (auto simp: tag_of_def split: if_splits)

interpretation s3_bucket: s3_service "bucket_s3 p h" bk_lookup "bk_moved p"
proof unfold_locales
  let ?c = "bucket_s3_client p"
  have c: "sb_client (bucket_s3 p h) = ?c" by (simp add: bucket_s3_def)
  show "bk_moved p s s" for s by simp
  show "\<exists>s0. bk_moved p s s0 \<and> (bk_lookup s' = bk_lookup s0 \<and> \<not> is_ok pr \<or>
      s3_condition (sp_if_match w) (sp_if_none_match w) (bk_lookup s0 (sp_key w)) \<and>
      (\<exists>v. real_version v \<and> bk_lookup s' = (bk_lookup s0)(sp_key w \<mapsto> (v, sp_body w)) \<and>
         (\<forall>tag. pr = Inr (Some tag) \<longrightarrow> normalize_etag tag = v)))"
    if "c_put_object (sb_client (bucket_s3 p h)) (sb_bucket_name (bucket_s3 p h)) w s = (s', pr)" for w s s' pr
  proof (cases "s3_condition (sp_if_match w) (sp_if_none_match w) (bk_lookup (bk_arrive p s) (sp_key w))")
    case True
    let ?v = "show_nat (bk_counter (bk_arrive p s) + 1)"
    have "s' = bk_write (sp_key w) (sp_body w) (bk_arrive p s)" "pr = Inr (tag_of ?v)"
      using that True unfolding c by (auto simp: bucket_s3_client_def Let_def s3_allows_condition)
    then have "bk_lookup s' = (bk_lookup (bk_arrive p s))(sp_key w \<mapsto> (?v, sp_body w))" "\<forall>tag. pr = Inr (Some tag) \<longrightarrow> normalize_etag tag = ?v"
      using tag_of_Some by (simp_all)
    moreover have "real_version ?v" by (rule counted_real)
    ultimately show ?thesis using True arrive_moves [of p s] by blast
  next
    case False
    with that arrive_moves [of p s] show ?thesis
      unfolding c by (auto simp: bucket_s3_client_def Let_def s3_allows_condition)
  qed
  show "bk_moved p s s'" if "c_get_object (sb_client (bucket_s3 p h)) (sb_bucket_name (bucket_s3 p h)) g s = (s', gr)" for g s s' gr
    using that arrive_moves [of p s] unfolding c by (auto simp: bucket_s3_client_def Let_def)
  show "\<exists>v. bk_lookup s' (sg_key g) = Some (v, body) \<and> s3_condition (sg_if_match g) (sg_if_none_match g) (Some (v, body)) \<and>
      (\<forall>t. tag = Some t \<longrightarrow> normalize_etag t = v)"
    if "c_get_object (sb_client (bucket_s3 p h)) (sb_bucket_name (bucket_s3 p h)) g s = (s', Inr (tag, Inr body))" for g s s' tag body
    using that tag_of_Some unfolding c
    by (auto simp: bucket_s3_client_def Let_def s3_allows_condition split: option.splits if_splits)
  show "\<exists>v body. sg_if_none_match g = Some v \<and> bk_lookup s' (sg_key g) = Some (v, body)"
    if "c_get_object (sb_client (bucket_s3 p h)) (sb_bucket_name (bucket_s3 p h)) g s = (s', Inl (ServiceError 304 words))" for g s s' words
    using that unfolding c by (auto simp: bucket_s3_client_def Let_def split: option.splits if_splits)
  show "bk_moved p s s'" if "c_list_objects_v2 (sb_client (bucket_s3 p h)) (sb_bucket_name (bucket_s3 p h)) l s = (s', lr)" for l s s' lr
    using that arrive_moves [of p s] unfolding c by (auto simp: bucket_s3_client_def Let_def)
  show "case sd_contents out of
       [] \<Rightarrow> \<forall>k. prefix pre k \<longrightarrow> bk_lookup s' k = None
     | e # _ \<Rightarrow> \<exists>k. se_key e = Some k \<and> prefix pre k \<and> bk_lookup s' k \<noteq> None \<and>
         (\<forall>t. se_e_tag e = Some t \<longrightarrow> (\<exists>body. bk_lookup s' k = Some (normalize_etag t, body))) \<and>
         (\<forall>k'. prefix pre k' \<and> bk_lookup s' k' \<noteq> None \<longrightarrow> k \<le> k')"
    if "c_list_objects_v2 (sb_client (bucket_s3 p h)) (sb_bucket_name (bucket_s3 p h))
      \<lparr>sl_prefix = pre, sl_max_keys = 1, sl_continuation_token = None, sl_start_after = None\<rparr> s = (s', Inr out)" for pre s s' out
  proof -
    let ?page = "bk_list \<lparr>lr_prefix = pre, lr_start_key = None, lr_page_size = 1, lr_cursor = None\<rparr> s'"
    have out: "sd_contents out =
        map (\<lambda>o1. \<lparr>se_key = Some (lo_key o1), se_e_tag = Option.bind (lo_version o1) tag_of\<rparr>) (lp_objects ?page)"
      using that unfolding c by (auto simp: bucket_s3_client_def Let_def)
    show ?thesis
      using bk_list_first [of pre s'] tag_of_Some unfolding out
      by (cases "lp_objects ?page") (auto simp: bind_eq_Some_conv)
  qed
  show "\<exists>s0. bk_moved p s s0 \<and> clears bk_lookup {k} s0 s'"
    if "c_delete_object (sb_client (bucket_s3 p h)) (sb_bucket_name (bucket_s3 p h)) k s = (s', dr)" for k s s' dr
    using that arrive_moves [of p s] bk_remove_clears [of "[k]"] unfolding c
    by (intro exI [of _ "bk_arrive p s"]) (auto simp: bucket_s3_client_def Let_def)
  show "k' = k" if "c_build_identifier (sb_client (bucket_s3 p h)) k = Inr k'" for k k'
    using that unfolding c by (simp add: bucket_s3_client_def)
  show "ks' = ks" if "c_build_delete (sb_client (bucket_s3 p h)) ks = Inr ks'" for ks ks'
    using that unfolding c by (simp add: bucket_s3_client_def)
  show "\<exists>s0. bk_moved p s s0 \<and> clears bk_lookup (set ks) s0 s'"
    if "c_delete_objects (sb_client (bucket_s3 p h)) (sb_bucket_name (bucket_s3 p h)) ks s = (s', br)" for ks s s' br
    using that arrive_moves [of p s] unfolding c
    by (intro exI [of _ "bk_arrive p s"]) (auto simp: bucket_s3_client_def Let_def bk_remove_clears)
qed

text \<open>C17. The S3 backend is an object store. Over every service that keeps what S3 documents of its conditional requests, whatever
  comes between a request and its answer, the backend keeps the contract the storage of jobs rests on: a
  write lands only under its condition and then hands over the version it stored, a lost answer leaves the
  object as it was or as written, a read answers the version asked for or the one stored, the first page of a
  listing names the least key, and a delete removes no key but the named ones.\<close>
theorem s3_keeps_contract:
  assumes "s3_service b stored moved"
  shows "object_store (s3_ops b) stored moved"
  using assms by (rule s3_service.keeps_contract)

theorem s3_keeps_contract_witness: "object_store (s3_ops (bucket_s3 (job_paths_new ''jobs'' Json) (\<lambda>_. CutOffAfter True)))
    bk_lookup (bk_moved (job_paths_new ''jobs'' Json))"
  by (rule s3_keeps_contract) (rule s3_bucket.s3_service_axioms)

end
