(* ===== verification/JM_Azure_Signing.thy ===== *)
theory JM_Azure_Signing
  imports JM_Provider_Errors "HOL-Library.Multiset"
begin

text \<open>
  \<^verbatim>\<open>storage/azure_signing.rs\<close>: the signature a request to Azure Blob Storage carries. A request is its method, its
  headers, which the HTTP library keeps in no order and under distinct lower-case names, and its address, as the
  path it is sent with and the decoded pairs of its query. The base64 decoder, the keyed hash, the clock and the
  rest of the pipeline are parameters.
\<close>

section \<open>The string to sign\<close>

record az_request =
  aq_method :: string
  aq_headers :: "(string \<times> string) list"
  aq_path :: string
  aq_query :: "(string \<times> string) list"

record shared_key_signing_policy =
  sk_account :: string
  sk_key :: string

definition signing_policy_try_new :: "(string \<Rightarrow> string option) \<Rightarrow> string \<Rightarrow> string \<Rightarrow> storage_error + shared_key_signing_policy" where
  "signing_policy_try_new undecodable account account_key = (case undecodable account_key of
      Some e \<Rightarrow> Inl (Auth (''azure account key is not base64: '' @ e))
    | None \<Rightarrow> Inr \<lparr>sk_account = account, sk_key = account_key\<rparr>)"

definition NEWLINE :: char where
  "NEWLINE = CHR 0x0A"

definition az_read_header :: "az_request \<Rightarrow> string \<Rightarrow> string" where
  "az_read_header req name = (case map_of (aq_headers req) name of None \<Rightarrow> [] | Some v \<Rightarrow> v)"

text \<open>\<^verbatim>\<open>str::to_lowercase\<close>, on the letters of ASCII.\<close>

definition lowercase_char :: "char \<Rightarrow> char" where
  "lowercase_char c = (let n = of_char c :: nat in if 65 \<le> n \<and> n \<le> 90 then char_of (n + 32) else c)"

definition to_lowercase :: "string \<Rightarrow> string" where
  "to_lowercase = map lowercase_char"

text \<open>A \<^verbatim>\<open>BTreeMap\<close> from names to lists of values, as the ascending list of its entries.\<close>

fun entry_push :: "string \<Rightarrow> string \<Rightarrow> (string \<times> string list) list \<Rightarrow> (string \<times> string list) list" where
  "entry_push name v [] = [(name, [v])]"
| "entry_push name v ((n, vs) # entries) =
     (if name = n then (n, vs @ [v]) # entries
      else if name < n then (name, [v]) # (n, vs) # entries
      else (n, vs) # entry_push name v entries)"

definition collect_parameters :: "(string \<times> string) list \<Rightarrow> (string \<times> string list) list" where
  "collect_parameters pairs = fold (\<lambda>(name, v). entry_push (to_lowercase name) v) pairs []"

definition parameter_line :: "string \<times> string list \<Rightarrow> string" where
  "parameter_line entry = (case entry of (name, values) \<Rightarrow> NEWLINE # name @ '':'' @ join_with '','' (sort values))"

definition build_canonicalized_resource :: "shared_key_signing_policy \<Rightarrow> az_request \<Rightarrow> string" where
  "build_canonicalized_resource p req = ''/'' @ sk_account p @ aq_path req @
     concat (map parameter_line (collect_parameters (aq_query req)))"

definition build_canonicalized_headers :: "az_request \<Rightarrow> string" where
  "build_canonicalized_headers req =
     concat (map (\<lambda>(name, v). name @ '':'' @ v @ [NEWLINE])
       (sort_key fst (map (\<lambda>(name, v). (name, trim_both is_ascii_space v))
         (filter (\<lambda>(name, _). prefix ''x-ms-'' name) (aq_headers req)))))"

definition signed_length :: "az_request \<Rightarrow> string" where
  "signed_length req = (let n = az_read_header req ''content-length'' in if n = ''0'' then [] else n)"

definition header_slots :: "az_request \<Rightarrow> string list" where
  "header_slots req = [aq_method req, az_read_header req ''content-encoding'', az_read_header req ''content-language'',
     signed_length req, az_read_header req ''content-md5'', az_read_header req ''content-type'', [],
     az_read_header req ''if-modified-since'', az_read_header req ''if-match'', az_read_header req ''if-none-match'',
     az_read_header req ''if-unmodified-since'', az_read_header req ''range'']"

definition build_string_to_sign :: "shared_key_signing_policy \<Rightarrow> az_request \<Rightarrow> string" where
  "build_string_to_sign p req = concat (map (\<lambda>slot. slot @ [NEWLINE]) (header_slots req)) @
     build_canonicalized_headers req @ build_canonicalized_resource p req"

section \<open>Signing\<close>

definition build_authorization ::
  "(string \<Rightarrow> string \<Rightarrow> azure_error + string) \<Rightarrow> shared_key_signing_policy \<Rightarrow> az_request \<Rightarrow> azure_error + string" where
  "build_authorization hmac_sha256 p req =
     bindR (hmac_sha256 (build_string_to_sign p req) (sk_key p)) (\<lambda>signature. Inr (''SharedKey '' @ sk_account p @ '':'' @ signature))"

definition insert_header :: "string \<Rightarrow> string \<Rightarrow> az_request \<Rightarrow> az_request" where
  "insert_header name v req = req\<lparr>aq_headers := AList.update name v (aq_headers req)\<rparr>"

text \<open>\<open>run\<close> hands a request to a policy and to those after it; \<open>now\<close> prints the time of the attempt.\<close>

definition signing_send ::
  "(string \<Rightarrow> string \<Rightarrow> azure_error + string) \<Rightarrow> ('c \<Rightarrow> string) \<Rightarrow> ('q \<Rightarrow> az_request \<Rightarrow> 'q list \<Rightarrow> ('c, azure_error, 'r) sresult) \<Rightarrow>
   shared_key_signing_policy \<Rightarrow> az_request \<Rightarrow> 'q list \<Rightarrow> ('c, azure_error, 'r) sresult" where
  "signing_send hmac_sha256 now run p req next s =
     (let dated = insert_header ''x-ms-date'' (now s) req in
      case build_authorization hmac_sha256 p dated of
        Inl e \<Rightarrow> (s, Inl e)
      | Inr authorization \<Rightarrow> (case next of
          [] \<Rightarrow> (s, Inl \<lparr>az_kind = AzOther, az_text = ''a signed request reached the end of the pipeline with no transport policy''\<rparr>)
        | next_policy # rest \<Rightarrow> run next_policy (insert_header ''authorization'' authorization dated) rest s))"

section \<open>What a signature depends on\<close>

lemma set_entry_push: "fst ` set (entry_push name v es) = insert name (fst ` set es)"
  by (induction name v es rule: entry_push.induct) (simp_all add: insert_commute)

lemma sorted_entry_push: "sorted_wrt (<) (map fst es) \<Longrightarrow> sorted_wrt (<) (map fst (entry_push name v es))"
proof (induction es)
  case (Cons e es)
  show ?case
  proof (cases "name \<le> fst e")
    case True
    with Cons.prems show ?thesis by (cases e) auto
  next
    case False
    then show ?thesis using Cons by (cases e) (auto simp: not_le set_entry_push)
  qed
qed simp

lemma lookup_entry_push: "sorted_wrt (<) (map fst es) \<Longrightarrow>
  map_of (entry_push name v es) = (map_of es)(name \<mapsto> (case map_of es name of None \<Rightarrow> [] | Some vs \<Rightarrow> vs) @ [v])"
proof (induction es)
  case (Cons e es)
  obtain n vs where e: "e = (n, vs)" by fastforce
  have "map_of es name = None" if "name < n"
    using Cons.prems that e by (auto simp: map_of_eq_None_iff)
  with Cons e show ?case by (auto simp: fun_eq_iff)
qed simp

lemma collected:
  "sorted_wrt (<) (map fst (collect_parameters q)) \<and>
   map_of (collect_parameters q) name = (let vs = map snd (filter (\<lambda>(n, _). to_lowercase n = name) q) in if vs = [] then None else Some vs)"
proof (induction q arbitrary: name rule: rev_induct)
  case (snoc x q)
  obtain n v where x: "x = (n, v)" by fastforce
  have step: "collect_parameters (q @ [x]) = entry_push (to_lowercase n) v (collect_parameters q)"
    by (simp add: collect_parameters_def x)
  have s: "sorted_wrt (<) (map fst (collect_parameters q))" using snoc.IH by blast
  show ?case
    using sorted_entry_push [OF s] snoc.IH unfolding step lookup_entry_push [OF s] by (auto simp: x Let_def)
qed (simp add: collect_parameters_def)

lemma ascending_alist_eq:
  fixes xs ys :: "(string \<times> 'a) list"
  assumes "sorted_wrt (<) (map fst xs)" "sorted_wrt (<) (map fst ys)" and "map_of xs = map_of ys"
  shows "xs = ys"
proof (rule map_sorted_distinct_set_unique)
  have d: "distinct (map fst xs)" "distinct (map fst ys)" using assms(1,2) by (simp_all add: strict_sorted_iff)
  show same: "set xs = set ys" using map_of_inject_set [OF d] assms(3) by blast
  show "inj_on fst (set xs \<union> set ys)" using d(2) by (simp add: same distinct_map)
qed (use assms in \<open>simp_all add: strict_sorted_iff\<close>)

lemma sort_eq_Nil: "sort xs = [] \<longleftrightarrow> xs = []"
  by (metis set_empty set_sort)

lemma parameters_order_free:
  assumes "mset q = mset q'"
  shows "map parameter_line (collect_parameters q) = map parameter_line (collect_parameters q')"
proof -
  define canonical where "canonical q = map (\<lambda>(n, vs). (n, sort vs)) (collect_parameters q)" for q
  have "sorted_wrt (<) (map fst (canonical q))" for q
    using collected [of q] by (simp add: canonical_def comp_def case_prod_unfold)
  moreover have "map_of (canonical q) name =
      (let vs = sort (map snd (filter (\<lambda>(n, _). to_lowercase n = name) q)) in if vs = [] then None else Some vs)" for q name
    using collected [of q name]
    by (auto simp: canonical_def map_of_map Let_def sort_eq_Nil)
  moreover have "sort (map snd (filter (\<lambda>(n, _). to_lowercase n = name) q)) =
      sort (map snd (filter (\<lambda>(n, _). to_lowercase n = name) q'))" for name
    by (rule properties_for_sort) (simp_all add: assms)
  ultimately have "canonical q = canonical q'" by (intro ascending_alist_eq) (simp_all add: fun_eq_iff)
  moreover have "map parameter_line (collect_parameters q) =
      map (\<lambda>(n, vs). NEWLINE # n @ '':'' @ join_with '','' vs) (canonical q)" for q
    by (auto simp: canonical_def parameter_line_def)
  ultimately show ?thesis by simp
qed

lemma headers_same_map:
  assumes "distinct (map fst hs)" and "mset hs = mset hs'"
  shows "map_of hs = map_of hs'"
proof -
  have "distinct (map fst hs')" using assms by (metis mset_eq_imp_distinct_iff mset_map)
  moreover have "set hs = set hs'" using assms(2) by (rule mset_eq_setD)
  ultimately show ?thesis using assms(1) by (simp add: map_of_inject_set)
qed

lemma headers_same_order:
  assumes "distinct (map fst hs)" and "mset hs = mset hs'" and "\<And>h. fst (f h) = fst h"
  shows "sort_key fst (map f (filter P hs)) = sort_key fst (map f (filter P hs'))"
proof -
  let ?hs = "map f (filter P hs)" and ?hs' = "map f (filter P hs')"
  have keys: "map fst ?hs = map fst (filter P hs)" using assms(3) by simp
  have m: "mset ?hs = mset (sort_key fst ?hs')" using assms(2) by simp
  have "distinct (map fst ?hs)" unfolding keys using assms(1) by (rule distinct_map_filter)
  then have "inj_on fst (set ?hs)" by (simp only: distinct_map)
  from sort_key_inj_key_eq [OF m this] show ?thesis by simp
qed

text \<open>Fields without a newline are told apart by the newlines after them.\<close>

lemma fields_cancel:
  assumes "length xs = length ys" "\<forall>x \<in> set xs. nl \<notin> set x" "\<forall>y \<in> set ys. nl \<notin> set y"
    and "concat (map (\<lambda>x. x @ [nl]) xs) @ a = concat (map (\<lambda>y. y @ [nl]) ys) @ b"
  shows "xs = ys \<and> a = b"
  using assms
proof (induction xs ys rule: list_induct2)
  case (Cons x xs y ys)
  let ?u = "concat (map (\<lambda>x. x @ [nl]) xs) @ a" and ?w = "concat (map (\<lambda>y. y @ [nl]) ys) @ b"
  have eq: "x @ nl # ?u = y @ nl # ?w" using Cons.prems by simp
  have "takeWhile (\<lambda>c. c \<noteq> nl) (z @ nl # t) = z" if "nl \<notin> set z" for z t
    using that by (induction z) auto
  with eq Cons.prems have "x = y" by (metis list.set_intros(1))
  with eq Cons show ?case by simp
qed simp

definition plain_headers :: "az_request \<Rightarrow> bool" where
  "plain_headers req \<longleftrightarrow> NEWLINE \<notin> set (aq_method req) \<and> (\<forall>h \<in> set (aq_headers req). NEWLINE \<notin> set (snd h))"

lemma plain_slots: "plain_headers req \<Longrightarrow> \<forall>slot \<in> set (header_slots req). NEWLINE \<notin> set slot"
proof -
  assume p: "plain_headers req"
  have "NEWLINE \<notin> set (az_read_header req name)" for name
    using p map_of_SomeD [of "aq_headers req" name]
    by (cases "map_of (aq_headers req) name") (auto simp: az_read_header_def plain_headers_def)
  then show ?thesis using p by (auto simp: header_slots_def signed_length_def plain_headers_def Let_def)
qed

text \<open>C21. A signature is one of the request and not of how it is kept. The HTTP library hands out headers in no order and the
  query in the order it was written in; however they come, the string a request is signed over, and with it
  the authorization it carries, is the same.\<close>
theorem signature_order_free:
  assumes "distinct (map fst (aq_headers req))" and "mset (aq_headers req) = mset hs" and "mset (aq_query req) = mset q"
  shows "build_authorization hmac p (req\<lparr>aq_headers := hs, aq_query := q\<rparr>) = build_authorization hmac p req"
proof -
  have "az_read_header (req\<lparr>aq_headers := hs, aq_query := q\<rparr>) = az_read_header req"
    using headers_same_map [OF assms(1,2)] by (intro ext) (simp add: az_read_header_def)
  then have "header_slots (req\<lparr>aq_headers := hs, aq_query := q\<rparr>) = header_slots req"
    by (simp add: header_slots_def signed_length_def)
  moreover have "build_canonicalized_headers (req\<lparr>aq_headers := hs, aq_query := q\<rparr>) = build_canonicalized_headers req"
    using headers_same_order [OF assms(1,2), of "\<lambda>(name, v). (name, trim_both is_ascii_space v)" "\<lambda>(name, _). prefix ''x-ms-'' name"]
    by (simp add: build_canonicalized_headers_def case_prod_unfold)
  moreover have "build_canonicalized_resource p (req\<lparr>aq_headers := hs, aq_query := q\<rparr>) = build_canonicalized_resource p req"
    using parameters_order_free [OF assms(3)] by (simp add: build_canonicalized_resource_def)
  ultimately show ?thesis by (simp add: build_authorization_def build_string_to_sign_def)
qed

definition sample_signing_policy :: shared_key_signing_policy where
  "sample_signing_policy = \<lparr>sk_account = ''account'', sk_key = ''a2V5''\<rparr>"

definition sample_az_request :: "string \<Rightarrow> az_request" where
  "sample_az_request n = \<lparr>aq_method = ''PUT'',
     aq_headers = [(''x-ms-date'', ''now''), (''content-length'', n), (''if-none-match'', ''*'')],
     aq_path = ''/c/jobs/a'', aq_query = [(''Comp'', ''list''), (''comp'', ''a'')]\<rparr>"

theorem signature_order_free_witness:
  "build_authorization (\<lambda>words key. Inr words) sample_signing_policy
     ((sample_az_request ''2'')\<lparr>aq_headers := rev (aq_headers (sample_az_request ''2'')), aq_query := [(''comp'', ''a''), (''Comp'', ''list'')]\<rparr>) =
   build_authorization (\<lambda>words key. Inr words) sample_signing_policy (sample_az_request ''2'')"
  by (rule signature_order_free) (simp_all add: sample_az_request_def)

text \<open>C22. The condition is signed. Two requests, their headers of single lines, that are signed over the same string have the same
  method, the same \<^verbatim>\<open>If-Match\<close> and \<^verbatim>\<open>If-None-Match\<close>, the same content type and range, and a length that differs at most
  as nothing and zero do: a signature never carries over to a write under another condition.\<close>
theorem signature_covers_condition:
  assumes "plain_headers req" and "plain_headers req'" and "build_string_to_sign p req = build_string_to_sign p' req'"
  shows "aq_method req = aq_method req' \<and>
    (\<forall>name \<in> {''if-match'', ''if-none-match'', ''if-modified-since'', ''if-unmodified-since'', ''content-type'', ''content-md5'', ''range''}.
       az_read_header req name = az_read_header req' name) \<and>
    (az_read_header req ''content-length'' = az_read_header req' ''content-length'' \<or>
     {az_read_header req ''content-length'', az_read_header req' ''content-length''} = {[], ''0''})"
proof -
  have "length (header_slots req) = length (header_slots req')" by (simp add: header_slots_def)
  from fields_cancel [OF this plain_slots [OF assms(1)] plain_slots [OF assms(2)]] assms(3)
  have "header_slots req = header_slots req'" by (simp add: build_string_to_sign_def)
  then show ?thesis by (auto simp: header_slots_def signed_length_def Let_def split: if_splits)
qed

theorem signature_covers_condition_witness:
  "az_read_header (sample_az_request []) ''if-none-match'' = az_read_header (sample_az_request ''0'') ''if-none-match'' \<and>
   {az_read_header (sample_az_request []) ''content-length'', az_read_header (sample_az_request ''0'') ''content-length''} = {[], ''0''}"
proof -
  have "plain_headers (sample_az_request [])" "plain_headers (sample_az_request ''0'')"
    by (simp_all add: plain_headers_def sample_az_request_def NEWLINE_def)
  moreover have "build_string_to_sign sample_signing_policy (sample_az_request []) =
      build_string_to_sign sample_signing_policy (sample_az_request ''0'')"
    by (simp add: build_string_to_sign_def header_slots_def signed_length_def az_read_header_def sample_az_request_def
        build_canonicalized_headers_def build_canonicalized_resource_def)
  ultimately show ?thesis
    using signature_covers_condition [of "sample_az_request []" "sample_az_request ''0''" sample_signing_policy sample_signing_policy]
    by (simp add: az_read_header_def sample_az_request_def)
qed

end
