(* ===== verification/JM_Azure.thy ===== *)
theory JM_Azure
  imports JM_S3 JM_Azure_Signing
begin

text \<open>
  \<^verbatim>\<open>storage/azure.rs\<close>: the settings of an Azure storage, the check of its container, and the requests of the backend
  over the container client of the SDK, which is a parameter, the record \<open>azure_client\<close>. What the service
  documents of conditional requests is the locale \<open>azure_service\<close>; over it the backend keeps the contract of an
  object store.
\<close>

section \<open>Settings\<close>

definition AZURE_REQUEST_TIMEOUT :: duration where
  "AZURE_REQUEST_TIMEOUT = secs 5"

definition AZURE_LIST_PAGE_SIZE :: int where
  "AZURE_LIST_PAGE_SIZE = 5000"

definition SINGLE_REQUEST_PARTITION_SIZE :: nat where
  "SINGLE_REQUEST_PARTITION_SIZE = 5000 * 1024 * 1024"

definition build_version_condition :: "string \<Rightarrow> string" where
  "build_version_condition v = quoted v"

record azure_config =
  az_endpoint :: string
  az_account :: string
  az_account_key :: string
  az_container_name :: string
  az_state_prefix :: string
  az_codec :: job_state_codec_kind
  az_request_timeout :: duration
  az_retrier_config :: retrier_config
  az_list_page_size :: int
  az_creation_allowed :: bool

definition azure_config_new :: "string \<Rightarrow> string \<Rightarrow> string \<Rightarrow> string \<Rightarrow> azure_config" where
  "azure_config_new endpoint account account_key container_name =
     \<lparr>az_endpoint = endpoint, az_account = account, az_account_key = account_key, az_container_name = container_name,
      az_state_prefix = DEFAULT_STATE_PREFIX, az_codec = Json, az_request_timeout = AZURE_REQUEST_TIMEOUT,
      az_retrier_config = retrier_config_default, az_list_page_size = AZURE_LIST_PAGE_SIZE, az_creation_allowed = True\<rparr>"

definition az_with_state_prefix :: "string \<Rightarrow> azure_config \<Rightarrow> azure_config" where
  "az_with_state_prefix state_prefix cfg = cfg\<lparr>az_state_prefix := state_prefix\<rparr>"

definition az_with_job_state_codec :: "job_state_codec_kind \<Rightarrow> azure_config \<Rightarrow> azure_config" where
  "az_with_job_state_codec codec cfg = cfg\<lparr>az_codec := codec\<rparr>"

definition az_with_request_timeout :: "duration \<Rightarrow> azure_config \<Rightarrow> azure_config" where
  "az_with_request_timeout timeout cfg = cfg\<lparr>az_request_timeout := timeout\<rparr>"

definition az_with_retrier_config :: "retrier_config \<Rightarrow> azure_config \<Rightarrow> azure_config" where
  "az_with_retrier_config rc cfg = cfg\<lparr>az_retrier_config := rc\<rparr>"

definition az_with_list_page_size :: "int \<Rightarrow> azure_config \<Rightarrow> error + azure_config" where
  "az_with_list_page_size n cfg =
     (if 1 \<le> n \<and> n \<le> AZURE_LIST_PAGE_SIZE then Inr (cfg\<lparr>az_list_page_size := n\<rparr>)
      else Inl (ErrOther ''azure list page size must be within 1..=5000''))"

definition az_with_container_creation :: "bool \<Rightarrow> azure_config \<Rightarrow> azure_config" where
  "az_with_container_creation allowed cfg = cfg\<lparr>az_creation_allowed := allowed\<rparr>"

section \<open>The client of the SDK\<close>

record az_download =
  ad_if_match :: "string option"
  ad_if_none_match :: "string option"
  ad_partition_size :: nat

record az_upload =
  au_if_match :: "string option"
  au_if_none_match :: "string option"
  au_blob_content_type :: string
  au_partition_size :: nat

record az_listing =
  al_prefix :: string
  al_start_from :: "string option"
  al_maxresults :: nat
  al_marker :: "string option"

record az_blob_item =
  ab_name :: "object_key option"
  ab_etag :: "string option"

record az_listed =
  ag_blob_items :: "az_blob_item list"
  ag_next_marker :: "string option"

text \<open>
  A listing is refused before it is sent when no request can be built from its options; its pager answers with a
  page, or with none after the last one.
\<close>

record 'c azure_client =
  a_upload :: "object_key \<Rightarrow> object_body \<Rightarrow> az_upload \<Rightarrow> ('c, azure_error, string option) sresult"
  a_download :: "object_key \<Rightarrow> az_download \<Rightarrow> ('c, azure_error, string option \<times> (azure_error + object_body)) sresult"
  a_unbuildable :: "az_listing \<Rightarrow> azure_error option"
  a_next_page :: "az_listing \<Rightarrow> ('c, azure_error, az_listed option) sresult"
  a_delete :: "object_key \<Rightarrow> ('c, azure_error, unit) sresult"
  a_exists :: "('c, azure_error, bool) sresult"
  a_create :: "('c, azure_error, unit) sresult"

record 'c azure_backend =
  zb_client :: "'c azure_client"
  zb_content_type :: string
  zb_list_page_size :: nat
  zb_hindrance :: "'c \<Rightarrow> request_race"

section \<open>The check of the container\<close>

definition send_container_request ::
  "('c \<Rightarrow> request_race) \<Rightarrow> ('c, azure_error, 'a) sresult \<Rightarrow> ('c, storage_error, 'a) sresult" where
  "send_container_request hindrance req s = (case timed hindrance req s of
      (s', Some (Inr a)) \<Rightarrow> (s', Inr a)
    | (s', Some (Inl e)) \<Rightarrow> (s', Inl (azure_into_storage_error e))
    | (s', None) \<Rightarrow> (s', Inl Timeout))"

definition azure_container_attempt ::
  "('c \<Rightarrow> request_race) \<Rightarrow> 'c azure_client \<Rightarrow> string \<Rightarrow> bool \<Rightarrow> ('c, storage_error, (unit, storage_error) retry_step) sresult" where
  "azure_container_attempt hindrance client container_name allowed s =
     (case send_container_request hindrance (a_exists client) s of
        (s1, Inr True) \<Rightarrow> (s1, Inr (Done ()))
      | (s1, Inr False) \<Rightarrow>
          if \<not> allowed
          then (s1, Inl (Backend (''container '' @ container_name @ '' does not exist and container creation is turned off'')))
          else (case send_container_request hindrance (a_create client) s1 of
              (s2, Inr _) \<Rightarrow> (s2, Inr (Done ()))
            | (s2, Inl refusal) \<Rightarrow>
                if is_conflict refusal then (s2, Inr (Done ())) else (s2, into_retry_step refusal))
      | (s1, Inl refusal) \<Rightarrow> (s1, into_retry_step refusal))"

datatype sdk_retry_options = SdkRetryNone | SdkRetryDefault

record az_client_options =
  ao_per_try_policies :: "shared_key_signing_policy list"
  ao_retry :: sdk_retry_options

definition build_client_options :: "(string \<Rightarrow> string option) \<Rightarrow> azure_config \<Rightarrow> error + az_client_options" where
  "build_client_options undecodable cfg = (case signing_policy_try_new undecodable (az_account cfg) (az_account_key cfg) of
      Inl e \<Rightarrow> Inl (ErrOther ''Failed to init azure signing'')
    | Inr signing_policy \<Rightarrow> Inr \<lparr>ao_per_try_policies = [signing_policy], ao_retry = SdkRetryNone\<rparr>)"

text \<open>
  \<open>parse_url\<close> answers what is wrong with an address, \<open>undecodable\<close> with a key; \<open>new_client\<close> is the client of the SDK for an
  address and options, or why there is none.
\<close>

definition azure_build_client ::
  "(string \<Rightarrow> string option) \<Rightarrow> (string \<Rightarrow> string option) \<Rightarrow> (string \<Rightarrow> az_client_options \<Rightarrow> string + 'c azure_client) \<Rightarrow>
   azure_config \<Rightarrow> error + 'c azure_client" where
  "azure_build_client parse_url undecodable new_client cfg =
     (let container_url = trim_end_matches ''/'' (az_endpoint cfg) @ ''/'' @ az_container_name cfg in
      case parse_url container_url of
        Some e \<Rightarrow> Inl (ErrOther (''azure endpoint and container do not form a url: '' @ e))
      | None \<Rightarrow> bindR (build_client_options undecodable cfg)
          (\<lambda>options. map_err (\<lambda>e. ErrOther (''Failed to init azure container client: '' @ e)) (new_client container_url options)))"

definition azure_build ::
  "('c \<Rightarrow> request_race) \<Rightarrow> (string \<Rightarrow> string option) \<Rightarrow> (string \<Rightarrow> string option) \<Rightarrow>
   (string \<Rightarrow> az_client_options \<Rightarrow> string + 'c azure_client) \<Rightarrow> azure_config \<Rightarrow> ('c, error, 'c azure_backend \<times> job_paths) sresult" where
  "azure_build hindrance parse_url undecodable new_client cfg s =
    (case azure_build_client parse_url undecodable new_client cfg of
      Inl e \<Rightarrow> (s, Inl e)
    | Inr client \<Rightarrow>
       (case retry storage_retry_error (az_retrier_config cfg) not_cancelled
          (azure_container_attempt hindrance client (az_container_name cfg) (az_creation_allowed cfg)) s of
          (s', Inl e) \<Rightarrow> (s', Inl (ErrOther ''Failed to init container''))
        | (s', Inr _) \<Rightarrow> (s', Inr (\<lparr>zb_client = client, zb_content_type = content_type_of (az_codec cfg),
              zb_list_page_size = nat (az_list_page_size cfg), zb_hindrance = hindrance\<rparr>,
            job_paths_new (az_state_prefix cfg) (az_codec cfg)))))"

section \<open>The backend\<close>

definition build_download_options :: "string option \<Rightarrow> string option \<Rightarrow> az_download" where
  "build_download_options if_match if_none_match =
     \<lparr>ad_if_match = if_match, ad_if_none_match = if_none_match, ad_partition_size = SINGLE_REQUEST_PARTITION_SIZE\<rparr>"

definition build_upload_options :: "'c azure_backend \<Rightarrow> put_condition \<Rightarrow> az_upload" where
  "build_upload_options b cond = (case cond of
      CreateOnly \<Rightarrow> \<lparr>au_if_match = None, au_if_none_match = Some ANY_VERSION, au_blob_content_type = zb_content_type b,
        au_partition_size = SINGLE_REQUEST_PARTITION_SIZE\<rparr>
    | MatchVersion v \<Rightarrow> \<lparr>au_if_match = Some (build_version_condition v), au_if_none_match = None,
        au_blob_content_type = zb_content_type b, au_partition_size = SINGLE_REQUEST_PARTITION_SIZE\<rparr>)"

definition download_object ::
  "'c azure_backend \<Rightarrow> object_key \<Rightarrow> az_download \<Rightarrow> ('c, azure_error, string option \<times> object_body) sresult" where
  "download_object b k options s = (case a_download (zb_client b) k options s of
      (s', Inl e) \<Rightarrow> (s', Inl e)
    | (s', Inr (etag, Inl e)) \<Rightarrow> (s', Inl e)
    | (s', Inr (etag, Inr body)) \<Rightarrow> (s', Inr (etag, body)))"

definition download_versioned_object ::
  "'c azure_backend \<Rightarrow> object_key \<Rightarrow> az_download \<Rightarrow> ('c, azure_error, object_version \<times> object_body) sresult" where
  "download_versioned_object b k options s = (case download_object b k options s of
      (s', Inl e) \<Rightarrow> (s', Inl e)
    | (s', Inr (None, body)) \<Rightarrow> (s', Inl \<lparr>az_kind = AzDataConversion, az_text = ''Missing etag reading '' @ k\<rparr>)
    | (s', Inr (Some etag, body)) \<Rightarrow> (s', Inr (normalize_etag etag, body)))"

definition download_changed_object ::
  "'c azure_backend \<Rightarrow> object_key \<Rightarrow> az_download \<Rightarrow> ('c, azure_error, (object_version \<times> object_body) option) sresult" where
  "download_changed_object b k options s = (case download_versioned_object b k options s of
      (s', Inl e) \<Rightarrow> (s', Inl e) | (s', Inr (v, body)) \<Rightarrow> (s', Inr (Some (v, body))))"

definition az_delete_object :: "'c azure_backend \<Rightarrow> object_key \<Rightarrow> ('c, azure_error, unit) sresult" where
  "az_delete_object b k = a_delete (zb_client b) k"

definition upload_versioned_object ::
  "'c azure_backend \<Rightarrow> object_key \<Rightarrow> object_body \<Rightarrow> az_upload \<Rightarrow> ('c, azure_error, object_version) sresult" where
  "upload_versioned_object b k body options s = (case a_upload (zb_client b) k body options s of
      (s', Inl e) \<Rightarrow> (s', Inl e)
    | (s', Inr None) \<Rightarrow> (s', Inl \<lparr>az_kind = AzDataConversion, az_text = ''Missing etag writing '' @ k\<rparr>)
    | (s', Inr (Some etag)) \<Rightarrow> (s', Inr (normalize_etag etag)))"

definition azure_put_object ::
  "'c azure_backend \<Rightarrow> object_key \<Rightarrow> object_body \<Rightarrow> put_condition \<Rightarrow> ('c, storage_error, object_version) sresult" where
  "azure_put_object b k body cond =
     send_over azure_provider_error ExpectSuccess (zb_hindrance b)
       (upload_versioned_object b k body (build_upload_options b cond))"

definition read_version ::
  "'c azure_backend \<Rightarrow> object_key \<Rightarrow> object_version \<Rightarrow> ('c, azure_error, string option \<times> object_body) sresult" where
  "read_version b k v = download_object b k (build_download_options (Some (build_version_condition v)) None)"

definition azure_get_object :: "'c azure_backend \<Rightarrow> object_key \<Rightarrow> object_version \<Rightarrow> ('c, storage_error, object_body) sresult" where
  "azure_get_object b k v s = (case send_over azure_provider_error ExpectSuccess (zb_hindrance b) (read_version b k v) s of
      (s', Inl e) \<Rightarrow> (s', Inl e) | (s', Inr (_, body)) \<Rightarrow> (s', Inr body))"

definition azure_get_changed_object ::
  "'c azure_backend \<Rightarrow> object_key \<Rightarrow> object_version \<Rightarrow> ('c, storage_error, (object_version \<times> object_body) option) sresult" where
  "azure_get_changed_object b k v =
     send_over azure_provider_error (ExpectNotModified None) (zb_hindrance b)
       (download_changed_object b k (build_download_options None (Some (build_version_condition v))))"

definition az_listing_of :: "listing_request \<Rightarrow> az_listing" where
  "az_listing_of req = \<lparr>al_prefix = lr_prefix req, al_start_from = lr_start_key req, al_maxresults = lr_page_size req,
     al_marker = lr_cursor req\<rparr>"

definition az_page_of :: "az_listed option \<Rightarrow> listed_page" where
  "az_page_of listed = (case listed of
      None \<Rightarrow> \<lparr>lp_objects = [], lp_next_cursor = None\<rparr>
    | Some page \<Rightarrow>
        \<lparr>lp_objects = List.map_filter (\<lambda>i. map_option (\<lambda>k. \<lparr>lo_key = k, lo_version = map_option normalize_etag (ab_etag i)\<rparr>)
           (ab_name i)) (ag_blob_items page),
         lp_next_cursor = (case ag_next_marker page of None \<Rightarrow> None | Some m \<Rightarrow> if m = [] then None else Some m)\<rparr>)"

definition azure_list_objects :: "'c azure_backend \<Rightarrow> listing_request \<Rightarrow> ('c, storage_error, listed_page) sresult" where
  "azure_list_objects b req s = (case a_unbuildable (zb_client b) (az_listing_of req) of
      Some e \<Rightarrow> (s, Inl (azure_into_storage_error e))
    | None \<Rightarrow> (case send_over azure_provider_error ExpectSuccess (zb_hindrance b) (a_next_page (zb_client b) (az_listing_of req)) s of
        (s', Inl e) \<Rightarrow> (s', Inl e)
      | (s', Inr page) \<Rightarrow> (s', Inr (az_page_of page))))"

definition azure_delete_objects :: "'c azure_backend \<Rightarrow> object_key list \<Rightarrow> ('c, storage_error, unit) sresult" where
  "azure_delete_objects b =
     forS (\<lambda>k. send_over azure_provider_error (ExpectObjectGone ()) (zb_hindrance b) (az_delete_object b k))"

definition azure_ops :: "'c azure_backend \<Rightarrow> 'c backend" where
  "azure_ops b =
     \<lparr>be_listing_start_bound = Inclusive, be_list_page_size = zb_list_page_size b, be_put_object = azure_put_object b,
      be_get_object = azure_get_object b, be_get_changed_object = azure_get_changed_object b,
      be_list_objects = azure_list_objects b, be_delete_objects = azure_delete_objects b\<rparr>"

lemma azure_ops_simps:
  "be_put_object (azure_ops b) = azure_put_object b" "be_get_object (azure_ops b) = azure_get_object b"
  "be_get_changed_object (azure_ops b) = azure_get_changed_object b" "be_list_objects (azure_ops b) = azure_list_objects b"
  "be_delete_objects (azure_ops b) = azure_delete_objects b"
  by (simp_all add: azure_ops_def)

section \<open>What the service documents\<close>

text \<open>
  A condition carries the quotes of the entity-tag it is held against; \<open>stored\<close> has the tag without them. A write is
  atomic, and one whose answer is lost may have been made; a container that lists nothing answers an empty page.
\<close>

definition az_condition :: "string option \<Rightarrow> string option \<Rightarrow> (object_version \<times> object_body) option \<Rightarrow> bool" where
  "az_condition if_match if_none_match obj \<longleftrightarrow>
     (\<forall>h. if_match = Some h \<longrightarrow> (\<exists>v body. h = quoted v \<and> obj = Some (v, body))) \<and>
     (\<forall>h. if_none_match = Some h \<longrightarrow> (if h = ANY_VERSION then obj = None else (\<forall>v body. h = quoted v \<longrightarrow> obj \<noteq> Some (v, body))))"

locale azure_service =
  fixes b :: "'c azure_backend"
    and stored :: "'c \<Rightarrow> object_key \<Rightarrow> (object_version \<times> object_body) option"
    and moved :: "'c \<Rightarrow> 'c \<Rightarrow> bool"
  assumes moved_refl: "moved s s"
    and az_upload: "a_upload (zb_client b) k body options s = (s', ur) \<Longrightarrow>
      \<exists>s0. moved s s0 \<and> (stored s' = stored s0 \<and> \<not> is_ok ur \<or>
        az_condition (au_if_match options) (au_if_none_match options) (stored s0 k) \<and>
        (\<exists>v. real_version v \<and> stored s' = (stored s0)(k \<mapsto> (v, body)) \<and> (\<forall>tag. ur = Inr (Some tag) \<longrightarrow> normalize_etag tag = v)))"
    and az_download_moves: "a_download (zb_client b) k dl s = (s', gr) \<Longrightarrow> moved s s'"
    and az_download: "a_download (zb_client b) k dl s = (s', Inr (tag, Inr body)) \<Longrightarrow>
      \<exists>v. stored s' k = Some (v, body) \<and> az_condition (ad_if_match dl) (ad_if_none_match dl) (Some (v, body)) \<and>
        (\<forall>t. tag = Some t \<longrightarrow> normalize_etag t = v)"
    and az_not_modified: "a_download (zb_client b) k dl s = (s', Inl e) \<Longrightarrow> azure_is_not_modified e \<Longrightarrow>
      \<exists>v body. ad_if_none_match dl = Some (quoted v) \<and> stored s' k = Some (v, body)"
    and az_body_late: "a_download (zb_client b) k dl s = (s', Inr (tag, Inl e)) \<Longrightarrow> \<not> azure_is_not_modified e"
    and az_list_moves: "a_next_page (zb_client b) l s = (s', lr) \<Longrightarrow> moved s s'"
    and az_list_first: "a_next_page (zb_client b)
        \<lparr>al_prefix = p, al_start_from = None, al_maxresults = 1, al_marker = None\<rparr> s = (s', Inr out) \<Longrightarrow>
      (case (case out of None \<Rightarrow> [] | Some page \<Rightarrow> ag_blob_items page) of
         [] \<Rightarrow> \<forall>k. prefix p k \<longrightarrow> stored s' k = None
       | i # _ \<Rightarrow> \<exists>k. ab_name i = Some k \<and> prefix p k \<and> stored s' k \<noteq> None \<and>
           (\<forall>t. ab_etag i = Some t \<longrightarrow> (\<exists>body. stored s' k = Some (normalize_etag t, body))) \<and>
           (\<forall>k'. prefix p k' \<and> stored s' k' \<noteq> None \<longrightarrow> k \<le> k'))"
    and az_delete: "a_delete (zb_client b) k s = (s', dr) \<Longrightarrow> \<exists>s0. moved s s0 \<and> clears stored {k} s0 s'"
begin

lemma upload_cases:
  assumes "upload_versioned_object b k body (build_upload_options b cond) s = (s', r)"
  shows "\<exists>s0. moved s s0 \<and> (stored s' = stored s0 \<and> \<not> is_ok r \<or> condition_met cond (stored s0 k) \<and>
    (\<exists>v. real_version v \<and> stored s' = (stored s0)(k \<mapsto> (v, body)) \<and> (\<forall>u. r = Inr u \<longrightarrow> u = v)))"
proof -
  let ?o = "build_upload_options b cond"
  have cond: "az_condition (au_if_match ?o) (au_if_none_match ?o) obj \<Longrightarrow> condition_met cond obj" for obj
    by (cases cond) (auto simp: condition_met_def build_upload_options_def az_condition_def build_version_condition_def quoted_def)
  obtain q where q: "a_upload (zb_client b) k body ?o s = (s', q)"
    and r: "r = (case q of Inl e \<Rightarrow> Inl e
      | Inr None \<Rightarrow> Inl \<lparr>az_kind = AzDataConversion, az_text = ''Missing etag writing '' @ k\<rparr>
      | Inr (Some etag) \<Rightarrow> Inr (normalize_etag etag))"
    using assms by (auto simp: upload_versioned_object_def split: prod.splits sum.splits option.splits)
  have "is_ok r \<Longrightarrow> is_ok q" "\<And>u. r = Inr u \<Longrightarrow> \<exists>tag. q = Inr (Some tag) \<and> u = normalize_etag tag"
    by (auto simp: r is_ok_iff split: sum.splits option.splits)
  with az_upload [OF q] cond show ?thesis by metis
qed

lemma download_cases:
  assumes "download_object b k dl s = (s', r)"
  shows "moved s s'" and "r = Inr (tag, body) \<Longrightarrow> a_download (zb_client b) k dl s = (s', Inr (tag, Inr body))"
    and "r = Inl e \<Longrightarrow> a_download (zb_client b) k dl s = (s', Inl e) \<or> (\<exists>tag. a_download (zb_client b) k dl s = (s', Inr (tag, Inl e)))"
  using assms az_download_moves by (fastforce simp: download_object_def split: prod.splits sum.splits)+

lemma changed_cases:
  assumes "download_changed_object b k dl s = (s', r)"
  shows "\<exists>q. download_object b k dl s = (s', q) \<and> (\<forall>o1. r = Inr o1 \<longrightarrow>
      (\<exists>tag body. q = Inr (Some tag, body) \<and> o1 = Some (normalize_etag tag, body))) \<and>
    (\<forall>e. r = Inl e \<longrightarrow> q = Inl e \<or> az_kind e = AzDataConversion)"
  using assms
  by (auto simp: download_changed_object_def download_versioned_object_def split: prod.splits sum.splits option.splits)

end

sublocale azure_service \<subseteq> requests: provider_requests azure_provider_error "zb_hindrance b"
  "\<lambda>k body cond. upload_versioned_object b k body (build_upload_options b cond)"
  "read_version b" snd
  "\<lambda>k v. download_changed_object b k (build_download_options None (Some (build_version_condition v)))"
  "\<lambda>req. a_next_page (zb_client b) (az_listing_of req)" az_page_of stored moved
proof unfold_locales
  show "moved s s'" if "read_version b k v s = (s', r)" for k v s s' r
    using download_cases(1) that by (simp add: read_version_def)
  show "\<exists>u. stored s' k = Some (u, snd r) \<and> (real_version v \<longrightarrow> u = v)" if "read_version b k v s = (s', Inr r)" for k v s s' r
  proof -
    obtain tag body where r: "r = (tag, body)" by fastforce
    from download_cases(2) [OF that [unfolded read_version_def r] refl]
    have "a_download (zb_client b) k (build_download_options (Some (build_version_condition v)) None) s = (s', Inr (tag, Inr body))" .
    from az_download [OF this] show ?thesis
      by (auto simp: r az_condition_def build_download_options_def build_version_condition_def quoted_def)
  qed
  let ?dl = "\<lambda>v. build_download_options None (Some (build_version_condition v))"
  show "moved s s'" if "download_changed_object b k (?dl v) s = (s', r)" for k v s s' r
    using changed_cases [OF that] download_cases(1) by blast
  show "\<exists>v' body. o1 = Some (v', body) \<and> stored s' k = Some (v', body)"
    if "download_changed_object b k (?dl v) s = (s', Inr o1)" for k v s s' o1
  proof -
    note changed = changed_cases [OF that]
    then obtain tag body where t: "download_object b k (?dl v) s = (s', Inr (Some tag, body))" "o1 = Some (normalize_etag tag, body)"
      by auto
    from az_download [OF download_cases(2) [OF t(1) refl]] t(2) show ?thesis by auto
  qed
  show "\<exists>body. stored s' k = Some (v, body)"
    if "download_changed_object b k (?dl v) s = (s', Inl e)" "is_not_modified azure_provider_error e" for k v s s' e
  proof -
    have e: "azure_is_not_modified e" using that(2) by (simp add: azure_provider_error_def)
    then have "az_kind e \<noteq> AzDataConversion" by (auto simp: azure_is_not_modified_def)
    then have "download_object b k (?dl v) s = (s', Inl e)" using changed_cases [OF that(1)] by auto
    from download_cases(3) [OF this refl] az_body_late e have "a_download (zb_client b) k (?dl v) s = (s', Inl e)" by blast
    from az_not_modified [OF this e] show ?thesis
      by (auto simp: build_download_options_def build_version_condition_def quoted_def)
  qed
  show "moved s s'" if "a_next_page (zb_client b) (az_listing_of req) s = (s', r)" for req s s' r
    by (rule az_list_moves [OF that])
  show "case lp_objects (az_page_of out) of
       [] \<Rightarrow> \<forall>k. prefix p k \<longrightarrow> stored s' k = None
     | o1 # _ \<Rightarrow> prefix p (lo_key o1) \<and> stored s' (lo_key o1) \<noteq> None \<and>
         (\<forall>v. lo_version o1 = Some v \<longrightarrow> (\<exists>body. stored s' (lo_key o1) = Some (v, body))) \<and>
         (\<forall>k. prefix p k \<and> stored s' k \<noteq> None \<longrightarrow> lo_key o1 \<le> k)"
    if "a_next_page (zb_client b)
      (az_listing_of \<lparr>lr_prefix = p, lr_start_key = None, lr_page_size = 1, lr_cursor = None\<rparr>) s = (s', Inr out)" for p s s' out
    using az_list_first [of p s s' out] that
    by (cases out; cases "ag_blob_items (the out)") (auto simp: az_listing_of_def az_page_of_def map_filter_simps)
qed (fact moved_refl, rule upload_cases)

context azure_service
begin

lemma get_cases:
  assumes "azure_get_object b k v s = (s', r)"
  shows "\<exists>q. send_over azure_provider_error ExpectSuccess (zb_hindrance b) (read_version b k v) s = (s', q) \<and>
    (\<forall>body. r = Inr body \<longrightarrow> (\<exists>read. q = Inr read \<and> snd read = body))"
  using assms by (auto simp: azure_get_object_def split: prod.splits sum.splits)

lemma get_state: "azure_get_object b k v s = (s', r) \<Longrightarrow> moved s s'"
  by (drule get_cases) (elim exE conjE, erule requests.get_state)

lemma get_lands:
  assumes "azure_get_object b k v s = (s', Inr body)"
  shows "\<exists>u. stored s' k = Some (u, body) \<and> (real_version v \<longrightarrow> u = v)"
proof -
  obtain q where "send_over azure_provider_error ExpectSuccess (zb_hindrance b) (read_version b k v) s = (s', Inr q)" "snd q = body"
    using get_cases [OF assms] by blast
  with requests.get_lands show ?thesis by blast
qed

lemma list_cases:
  assumes "azure_list_objects b req s = (s', r)"
  shows "s' = s \<and> \<not> is_ok r \<or> (\<exists>q. send_over azure_provider_error ExpectSuccess (zb_hindrance b)
      (a_next_page (zb_client b) (az_listing_of req)) s = (s', q) \<and>
    (\<forall>page. r = Inr page \<longrightarrow> (\<exists>out. q = Inr out \<and> page = az_page_of out)))"
  using assms by (auto simp: azure_list_objects_def split: prod.splits sum.splits option.splits)

lemma list_state: "azure_list_objects b req s = (s', r) \<Longrightarrow> moved s s'"
  by (drule list_cases) (elim disjE exE conjE, simp add: moved_refl, erule requests.list_state)

lemma list_lands:
  assumes "azure_list_objects b \<lparr>lr_prefix = p, lr_start_key = None, lr_page_size = 1, lr_cursor = None\<rparr> s = (s', Inr page)"
  shows "case lp_objects page of
     [] \<Rightarrow> \<forall>k. prefix p k \<longrightarrow> stored s' k = None
   | o1 # _ \<Rightarrow> prefix p (lo_key o1) \<and> stored s' (lo_key o1) \<noteq> None \<and>
       (\<forall>v. lo_version o1 = Some v \<longrightarrow> (\<exists>body. stored s' (lo_key o1) = Some (v, body))) \<and>
       (\<forall>k. prefix p k \<and> stored s' k \<noteq> None \<longrightarrow> lo_key o1 \<le> k)"
proof -
  obtain out where out: "send_over azure_provider_error ExpectSuccess (zb_hindrance b)
      (a_next_page (zb_client b)
        (az_listing_of \<lparr>lr_prefix = p, lr_start_key = None, lr_page_size = 1, lr_cursor = None\<rparr>)) s = (s', Inr out)"
    and page: "page = az_page_of out"
    using list_cases [OF assms] by auto
  from requests.list_lands [OF out] show ?thesis unfolding page .
qed

lemma delete_all_state:
  assumes "azure_delete_objects b keys s = (s', r)"
  shows "(\<lambda>a c. moved a c \<or> clears stored (set keys) a c)\<^sup>*\<^sup>* s s'"
  using assms unfolding azure_delete_objects_def
  by (rule requests.delete_loop [where keys_of = "\<lambda>k. {k}", rotated 2]) (simp_all add: az_delete_object_def az_delete)

end

sublocale azure_service \<subseteq> over_azure: object_store "azure_ops b" stored moved
  by unfold_locales
    (simp_all only: azure_ops_simps azure_put_object_def azure_get_changed_object_def,
      (rule requests.put_lands requests.put_lost get_state get_lands requests.changed_state
        requests.changed_lands requests.unchanged_lands list_state list_lands delete_all_state; assumption)+)

context azure_service
begin

lemma keeps_contract: "object_store (azure_ops b) stored moved"
  by (rule over_azure.object_store_axioms)

end

section \<open>A service over a bucket\<close>

definition az_allows :: "string option \<Rightarrow> string option \<Rightarrow> (object_version \<times> object_body) option \<Rightarrow> bool" where
  "az_allows if_match if_none_match obj \<longleftrightarrow>
     (case if_match of None \<Rightarrow> True | Some h \<Rightarrow> map_option (quoted \<circ> fst) obj = Some h) \<and>
     (case if_none_match of None \<Rightarrow> True
      | Some h \<Rightarrow> if h = ANY_VERSION then obj = None else map_option (quoted \<circ> fst) obj \<noteq> Some h)"

definition refused_with :: "nat \<Rightarrow> string \<Rightarrow> azure_error" where
  "refused_with status code = \<lparr>az_kind = AzHttpResponse status (Some code), az_text = code\<rparr>"

definition bucket_azure_client :: "job_paths \<Rightarrow> bucket azure_client" where
  "bucket_azure_client p =
     \<lparr>a_upload = (\<lambda>k body options b. let b0 = bk_arrive p b in
        if az_allows (au_if_match options) (au_if_none_match options) (bk_lookup b0 k)
        then (bk_write k body b0, Inr (tag_of (show_nat (bk_counter b0 + 1))))
        else (b0, Inl (refused_with 412 ''ConditionNotMet''))),
      a_download = (\<lambda>k options b. let b0 = bk_arrive p b in
        (b0, case bk_lookup b0 k of
          None \<Rightarrow> Inl (refused_with 404 ''BlobNotFound'')
        | Some (v, body) \<Rightarrow>
            if az_allows (ad_if_match options) (ad_if_none_match options) (Some (v, body)) then Inr (tag_of v, Inr body)
            else if ad_if_none_match options = Some (quoted v) then Inl (refused_with 304 ''ConditionNotMet'')
            else Inl (refused_with 412 ''ConditionNotMet''))),
      a_unbuildable = (\<lambda>_. None),
      a_next_page = (\<lambda>l b. let b0 = bk_arrive p b;
          page = bk_list \<lparr>lr_prefix = al_prefix l, lr_start_key = al_start_from l, lr_page_size = al_maxresults l,
            lr_cursor = al_marker l\<rparr> b0 in
        (b0, Inr (Some \<lparr>ag_blob_items = map (\<lambda>o1. \<lparr>ab_name = Some (lo_key o1), ab_etag = Option.bind (lo_version o1) tag_of\<rparr>)
               (lp_objects page),
             ag_next_marker = lp_next_cursor page\<rparr>))),
      a_delete = (\<lambda>k b. let b0 = bk_arrive p b in
        if bk_lookup b0 k = None then (b0, Inl (refused_with 404 ''BlobNotFound'')) else (bk_remove [k] b0, Inr ())),
      a_exists = (\<lambda>b. (b, Inr True)),
      a_create = (\<lambda>b. (b, Inl (refused_with 409 ''ContainerAlreadyExists'')))\<rparr>"

definition bucket_azure :: "job_paths \<Rightarrow> (bucket \<Rightarrow> request_race) \<Rightarrow> bucket azure_backend" where
  "bucket_azure p h = \<lparr>zb_client = bucket_azure_client p, zb_content_type = ''application/json'', zb_list_page_size = 5000,
     zb_hindrance = h\<rparr>"

lemma quoted_inject: "quoted v = quoted u \<longleftrightarrow> v = u"
  by (simp add: quoted_def)

lemma az_allows_condition: "az_allows m n obj \<longleftrightarrow> az_condition m n obj"
  by (cases obj) (auto simp: az_allows_def az_condition_def quoted_inject split: option.splits)

interpretation azure_bucket: azure_service "bucket_azure p h" bk_lookup "bk_moved p"
proof unfold_locales
  have c: "zb_client (bucket_azure p h) = bucket_azure_client p" by (simp add: bucket_azure_def)
  show "bk_moved p s s" for s by simp
  show "\<exists>s0. bk_moved p s s0 \<and> (bk_lookup s' = bk_lookup s0 \<and> \<not> is_ok ur \<or>
      az_condition (au_if_match options) (au_if_none_match options) (bk_lookup s0 k) \<and>
      (\<exists>v. real_version v \<and> bk_lookup s' = (bk_lookup s0)(k \<mapsto> (v, body)) \<and> (\<forall>tag. ur = Inr (Some tag) \<longrightarrow> normalize_etag tag = v)))"
    if "a_upload (zb_client (bucket_azure p h)) k body options s = (s', ur)" for k body options s s' ur
  proof (cases "az_condition (au_if_match options) (au_if_none_match options) (bk_lookup (bk_arrive p s) k)")
    case True
    let ?v = "show_nat (bk_counter (bk_arrive p s) + 1)"
    have "s' = bk_write k body (bk_arrive p s)" "ur = Inr (tag_of ?v)"
      using that True unfolding c by (auto simp: bucket_azure_client_def Let_def az_allows_condition)
    then have "bk_lookup s' = (bk_lookup (bk_arrive p s))(k \<mapsto> (?v, body))" "\<forall>tag. ur = Inr (Some tag) \<longrightarrow> normalize_etag tag = ?v"
      using tag_of_Some by simp_all
    moreover have "real_version ?v" by (rule counted_real)
    ultimately show ?thesis using True arrive_moves [of p s] by blast
  next
    case False
    with that arrive_moves [of p s] show ?thesis
      unfolding c by (auto simp: bucket_azure_client_def Let_def az_allows_condition)
  qed
  show "bk_moved p s s'" if "a_download (zb_client (bucket_azure p h)) k dl s = (s', gr)" for k dl s s' gr
    using that arrive_moves [of p s] unfolding c by (auto simp: bucket_azure_client_def Let_def)
  show "\<exists>v. bk_lookup s' k = Some (v, body) \<and> az_condition (ad_if_match dl) (ad_if_none_match dl) (Some (v, body)) \<and>
      (\<forall>t. tag = Some t \<longrightarrow> normalize_etag t = v)"
    if "a_download (zb_client (bucket_azure p h)) k dl s = (s', Inr (tag, Inr body))" for k dl s s' tag body
    using that tag_of_Some unfolding c
    by (auto simp: bucket_azure_client_def Let_def az_allows_condition split: option.splits if_splits)
  show "\<exists>v body. ad_if_none_match dl = Some (quoted v) \<and> bk_lookup s' k = Some (v, body)"
    if "a_download (zb_client (bucket_azure p h)) k dl s = (s', Inl e)" "azure_is_not_modified e" for k dl s s' e
    using that unfolding c
    by (auto simp: bucket_azure_client_def Let_def refused_with_def azure_is_not_modified_def not_modified_status
        split: option.splits if_splits)
  show "\<not> azure_is_not_modified e" if "a_download (zb_client (bucket_azure p h)) k dl s = (s', Inr (tag, Inl e))" for k dl s s' tag e
    using that unfolding c by (auto simp: bucket_azure_client_def Let_def split: option.splits if_splits)
  show "bk_moved p s s'" if "a_next_page (zb_client (bucket_azure p h)) l s = (s', lr)" for l s s' lr
    using that arrive_moves [of p s] unfolding c by (auto simp: bucket_azure_client_def Let_def)
  show "case case out of None \<Rightarrow> [] | Some page \<Rightarrow> ag_blob_items page of
       [] \<Rightarrow> \<forall>k. prefix pre k \<longrightarrow> bk_lookup s' k = None
     | i # _ \<Rightarrow> \<exists>k. ab_name i = Some k \<and> prefix pre k \<and> bk_lookup s' k \<noteq> None \<and>
         (\<forall>t. ab_etag i = Some t \<longrightarrow> (\<exists>body. bk_lookup s' k = Some (normalize_etag t, body))) \<and>
         (\<forall>k'. prefix pre k' \<and> bk_lookup s' k' \<noteq> None \<longrightarrow> k \<le> k')"
    if "a_next_page (zb_client (bucket_azure p h))
      \<lparr>al_prefix = pre, al_start_from = None, al_maxresults = 1, al_marker = None\<rparr> s = (s', Inr out)" for pre s s' out
  proof -
    let ?page = "bk_list \<lparr>lr_prefix = pre, lr_start_key = None, lr_page_size = 1, lr_cursor = None\<rparr> s'"
    have out: "(case out of None \<Rightarrow> [] | Some page \<Rightarrow> ag_blob_items page) =
        map (\<lambda>o1. \<lparr>ab_name = Some (lo_key o1), ab_etag = Option.bind (lo_version o1) tag_of\<rparr>) (lp_objects ?page)"
      using that unfolding c by (auto simp: bucket_azure_client_def Let_def)
    show ?thesis
      using bk_list_first [of pre s'] tag_of_Some unfolding out
      by (cases "lp_objects ?page") (auto simp: bind_eq_Some_conv)
  qed
  show "\<exists>s0. bk_moved p s s0 \<and> clears bk_lookup {k} s0 s'"
    if "a_delete (zb_client (bucket_azure p h)) k s = (s', dr)" for k s s' dr
    using that arrive_moves [of p s] bk_remove_clears [of "[k]"] unfolding c
    by (intro exI [of _ "bk_arrive p s"]) (auto simp: bucket_azure_client_def Let_def clears_def split: if_splits)
qed

text \<open>C18. The Azure backend is an object store. Over every service that keeps what Azure Blob Storage documents of its conditional
  requests, whatever comes between a request and its answer, the backend keeps the contract the storage of
  jobs rests on, with the quotes it puts around a version in a condition and takes off the versions it is
  answered.\<close>
theorem azure_keeps_contract:
  assumes "azure_service b stored moved"
  shows "object_store (azure_ops b) stored moved"
  using assms by (rule azure_service.keeps_contract)

theorem azure_keeps_contract_witness:
  "object_store (azure_ops (bucket_azure (job_paths_new ''jobs'' Json) (\<lambda>_. LateAfter True)))
    bk_lookup (bk_moved (job_paths_new ''jobs'' Json))"
  by (rule azure_keeps_contract) (rule azure_bucket.azure_service_axioms)

end
