(* ===== verification/JM_Gcs_Client.thy ===== *)
theory JM_Gcs_Client
  imports JM_Provider_Errors JM_Paths
begin

text \<open>
  \<^verbatim>\<open>storage/gcs_client.rs\<close>: the requests of the JSON API of Google Cloud Storage, a URL, a method, headers and a
  body each. The HTTP client and the credentials are parameters, fields of the record \<open>gcs_http_client\<close>; a
  text is the list of its bytes. How the service reads a request back is \<open>read_call\<close>, and every call
  is read back as it was made.
\<close>

section \<open>Percent-encoding\<close>

definition HEX_DIGITS :: string where
  "HEX_DIGITS = ''0123456789ABCDEF''"

definition is_unreserved :: "char \<Rightarrow> bool" where
  "is_unreserved c \<longleftrightarrow>
     (let n = of_char c :: nat in (48 \<le> n \<and> n \<le> 57) \<or> (65 \<le> n \<and> n \<le> 90) \<or> (97 \<le> n \<and> n \<le> 122)) \<or>
     c \<in> {CHR ''-'', CHR ''_'', CHR ''.'', CHR ''~''}"

definition encode_byte :: "char \<Rightarrow> string" where
  "encode_byte c = (if is_unreserved c then [c]
     else [CHR ''%'', HEX_DIGITS ! (of_char c div 16), HEX_DIGITS ! (of_char c mod 16)])"

definition encode_uri_component :: "string \<Rightarrow> string" where
  "encode_uri_component component = concat (map encode_byte component)"

section \<open>The client\<close>

definition GENERATION_HEADER :: string where
  "GENERATION_HEADER = ''x-goog-generation''"

record state_object_meta =
  om_name :: string
  om_generation :: string

record listed_objects_page =
  op_items :: "state_object_meta list"
  op_next_page_token :: "string option"

datatype http_body = NoBody | Bytes string | JsonObject "(string \<times> string) list"

type_synonym header_map = "(string \<times> string) list"

record http_request =
  hq_method :: string
  hq_url :: string
  hq_headers :: header_map
  hq_body :: http_body

text \<open>The body of an answer comes after its head, and may fail to.\<close>

record http_response =
  hs_status :: nat
  hs_headers :: header_map
  hs_bytes :: "transport_error + string"

datatype cacheable_resource = NewResource header_map | NotModifiedResource

record credentials_error =
  ce_is_transient :: bool
  ce_text :: string

record 'c gcs_http_client =
  gc_http :: "http_request \<Rightarrow> ('c, transport_error, http_response) sresult"
  gc_credentials :: "'c \<Rightarrow> credentials_error + cacheable_resource"
  gc_endpoint :: string
  gc_bucket_name :: string

text \<open>
  \<open>parse_url\<close> answers what is wrong with an address, \<open>http\<close> is the client that follows no redirect, or why it cannot
  be built.
\<close>

definition gcs_client_try_new ::
  "(string \<Rightarrow> string option) \<Rightarrow> string + (http_request \<Rightarrow> ('c, transport_error, http_response) sresult) \<Rightarrow>
   string \<Rightarrow> string \<Rightarrow> ('c \<Rightarrow> credentials_error + cacheable_resource) \<Rightarrow> error + 'c gcs_http_client" where
  "gcs_client_try_new parse_url http endpoint0 bucket_name credentials =
     (let endpoint = trim_end_matches ''/'' endpoint0 in case parse_url endpoint of
        Some e \<Rightarrow> Inl (ErrOther (''gcs endpoint '' @ endpoint @ '' is not a url: '' @ e))
      | None \<Rightarrow> (case http of
          Inl e \<Rightarrow> Inl (ErrOther (''Failed to init gcs http client: '' @ e))
        | Inr h \<Rightarrow> Inr \<lparr>gc_http = h, gc_credentials = credentials, gc_endpoint = endpoint, gc_bucket_name = bucket_name\<rparr>))"

text \<open>\<^verbatim>\<open>RequestBuilder::headers\<close>, a header given twice is the later one; \<^verbatim>\<open>HeaderValue::to_str\<close>.\<close>

definition add_headers :: "header_map \<Rightarrow> header_map \<Rightarrow> header_map" where
  "add_headers hs added = filter (\<lambda>(n, _). n \<notin> fst ` set added) hs @ added"

definition authorized :: "header_map \<Rightarrow> http_request \<Rightarrow> http_request" where
  "authorized added req = req\<lparr>hq_headers := add_headers (hq_headers req) added\<rparr>"

definition header_to_str :: "string \<Rightarrow> string option" where
  "header_to_str v =
     (if list_all (\<lambda>c. (32 \<le> (of_char c :: nat) \<and> (of_char c :: nat) < 127) \<or> (of_char c :: nat) = 9) v then Some v else None)"

definition gcs_send_request ::
  "'c gcs_http_client \<Rightarrow> http_request \<Rightarrow> ('c, gcs_request_error, json_api_response) sresult" where
  "gcs_send_request client req s = (case gc_credentials client s of
      Inl e \<Rightarrow> (s, Inl (Unauthorized (''gcs credentials refused to sign a request: '' @ ce_text e) (ce_is_transient e)))
    | Inr NotModifiedResource \<Rightarrow>
        (s, Inl (Unauthorized ''gcs credentials answered 'not modified' to a request naming no entity tag'' False))
    | Inr (NewResource authorization) \<Rightarrow>
        (case gc_http client (authorized authorization req) s of
           (s', Inl e) \<Rightarrow> (s', Inl (Transport e))
         | (s', Inr response) \<Rightarrow> (case hs_bytes response of
             Inl e \<Rightarrow> (s', Inl (Transport e))
           | Inr body \<Rightarrow> (s', Inr \<lparr>ja_status = hs_status response,
               ja_generation = Option.bind (map_of (hs_headers response) GENERATION_HEADER) header_to_str,
               ja_body = body\<rparr>))))"

section \<open>The requests\<close>

definition build_object_url :: "'c gcs_http_client \<Rightarrow> string \<Rightarrow> string" where
  "build_object_url c key = gc_endpoint c @ ''/storage/v1/b/'' @ encode_uri_component (gc_bucket_name c) @ ''/o/'' @
     encode_uri_component key"

definition bare_request :: "string \<Rightarrow> string \<Rightarrow> http_request" where
  "bare_request verb url = \<lparr>hq_method = verb, hq_url = url, hq_headers = [], hq_body = NoBody\<rparr>"

definition put_object_request :: "'c gcs_http_client \<Rightarrow> string \<Rightarrow> string \<Rightarrow> string \<Rightarrow> string \<Rightarrow> http_request" where
  "put_object_request c key body content_type if_generation_match =
     \<lparr>hq_method = ''POST'',
      hq_url = gc_endpoint c @ ''/upload/storage/v1/b/'' @ encode_uri_component (gc_bucket_name c) @
        ''/o?uploadType=media&name='' @ encode_uri_component key @ ''&ifGenerationMatch='' @
        encode_uri_component if_generation_match,
      hq_headers = [(''content-type'', content_type)], hq_body = Bytes body\<rparr>"

definition gcs_client_put_object ::
  "'c gcs_http_client \<Rightarrow> string \<Rightarrow> string \<Rightarrow> string \<Rightarrow> string \<Rightarrow> ('c, gcs_request_error, json_api_response) sresult" where
  "gcs_client_put_object c key body content_type if_generation_match =
     gcs_send_request c (put_object_request c key body content_type if_generation_match)"

definition get_object_request :: "'c gcs_http_client \<Rightarrow> string \<Rightarrow> string \<Rightarrow> http_request" where
  "get_object_request c key if_generation_match =
     bare_request ''GET'' (build_object_url c key @ ''?alt=media&ifGenerationMatch='' @ encode_uri_component if_generation_match)"

definition gcs_client_get_object ::
  "'c gcs_http_client \<Rightarrow> string \<Rightarrow> string \<Rightarrow> ('c, gcs_request_error, json_api_response) sresult" where
  "gcs_client_get_object c key if_generation_match = gcs_send_request c (get_object_request c key if_generation_match)"

definition get_changed_request :: "'c gcs_http_client \<Rightarrow> string \<Rightarrow> string \<Rightarrow> http_request" where
  "get_changed_request c key if_generation_not_match =
     bare_request ''GET''
       (build_object_url c key @ ''?alt=media&ifGenerationNotMatch='' @ encode_uri_component if_generation_not_match)"

definition gcs_client_get_changed_object ::
  "'c gcs_http_client \<Rightarrow> string \<Rightarrow> string \<Rightarrow> ('c, gcs_request_error, json_api_response) sresult" where
  "gcs_client_get_changed_object c key if_generation_not_match =
     gcs_send_request c (get_changed_request c key if_generation_not_match)"

definition list_objects_request ::
  "'c gcs_http_client \<Rightarrow> string \<Rightarrow> string option \<Rightarrow> nat \<Rightarrow> string option \<Rightarrow> http_request" where
  "list_objects_request c pre start_key page_size cursor =
     bare_request ''GET''
       (gc_endpoint c @ ''/storage/v1/b/'' @ encode_uri_component (gc_bucket_name c) @ ''/o?prefix='' @
        encode_uri_component pre @ ''&maxResults='' @ show_nat page_size @
        (case start_key of None \<Rightarrow> [] | Some k \<Rightarrow> ''&startOffset='' @ encode_uri_component k) @
        (case cursor of None \<Rightarrow> [] | Some t \<Rightarrow> ''&pageToken='' @ encode_uri_component t))"

definition gcs_client_list_objects ::
  "'c gcs_http_client \<Rightarrow> string \<Rightarrow> string option \<Rightarrow> nat \<Rightarrow> string option \<Rightarrow> ('c, gcs_request_error, json_api_response) sresult" where
  "gcs_client_list_objects c pre start_key page_size cursor =
     gcs_send_request c (list_objects_request c pre start_key page_size cursor)"

definition gcs_client_delete_object :: "'c gcs_http_client \<Rightarrow> string \<Rightarrow> ('c, gcs_request_error, json_api_response) sresult" where
  "gcs_client_delete_object c key = gcs_send_request c (bare_request ''DELETE'' (build_object_url c key))"

definition find_bucket :: "'c gcs_http_client \<Rightarrow> ('c, gcs_request_error, json_api_response) sresult" where
  "find_bucket c = gcs_send_request c
     (bare_request ''GET'' (gc_endpoint c @ ''/storage/v1/b/'' @ encode_uri_component (gc_bucket_name c)))"

definition create_bucket_request :: "'c gcs_http_client \<Rightarrow> string \<Rightarrow> http_request" where
  "create_bucket_request c project_id =
     \<lparr>hq_method = ''POST'', hq_url = gc_endpoint c @ ''/storage/v1/b?project='' @ encode_uri_component project_id,
      hq_headers = [(''content-type'', ''application/json'')], hq_body = JsonObject [(''name'', gc_bucket_name c)]\<rparr>"

definition create_bucket :: "'c gcs_http_client \<Rightarrow> string \<Rightarrow> ('c, gcs_request_error, json_api_response) sresult" where
  "create_bucket c project_id = gcs_send_request c (create_bucket_request c project_id)"

section \<open>How the service reads a request\<close>

text \<open>
  The documented reading: the path below the address is split at its slashes and the query at its ampersands,
  and each part is then decoded.
\<close>

definition hex_value :: "char \<Rightarrow> nat" where
  "hex_value c = (if is_digit c then digit_value c else of_char c - 55)"

fun decode_uri_component :: "string \<Rightarrow> string" where
  "decode_uri_component [] = []"
| "decode_uri_component (c # cs) = (if c = CHR ''%''
     then (case cs of a # b # rest \<Rightarrow> char_of (16 * hex_value a + hex_value b) # decode_uri_component rest | _ \<Rightarrow> c # decode_uri_component cs)
     else c # decode_uri_component cs)"

definition cut_at :: "char \<Rightarrow> string \<Rightarrow> string \<times> string" where
  "cut_at sep s = (takeWhile (\<lambda>c. c \<noteq> sep) s, drop 1 (dropWhile (\<lambda>c. c \<noteq> sep) s))"

definition query_pairs :: "string \<Rightarrow> (string \<times> string) list" where
  "query_pairs q = map (\<lambda>p. case cut_at (CHR ''='') p of (name, v) \<Rightarrow> (name, decode_uri_component v)) (split_on (CHR ''&'') q)"

datatype read_condition = IfGeneration string | IfNotGeneration string

datatype api_call =
    CallPut string string string string
  | CallGet string read_condition
  | CallList string "string option" nat "string option"
  | CallDelete string
  | CallFindBucket
  | CallCreateBucket string

definition read_put :: "http_request \<Rightarrow> (string \<rightharpoonup> string) \<Rightarrow> api_call option" where
  "read_put req q = (case (q ''uploadType'', q ''name'', q ''ifGenerationMatch'', map_of (hq_headers req) ''content-type'', hq_body req) of
      (Some t, Some key, Some gen, Some content_type, Bytes body) \<Rightarrow> if t = ''media'' then Some (CallPut key body content_type gen) else None
    | _ \<Rightarrow> None)"

definition read_get :: "string \<Rightarrow> (string \<rightharpoonup> string) \<Rightarrow> api_call option" where
  "read_get key q = (if q ''alt'' \<noteq> Some ''media'' then None else case (q ''ifGenerationMatch'', q ''ifGenerationNotMatch'') of
      (Some gen, None) \<Rightarrow> Some (CallGet key (IfGeneration gen))
    | (None, Some gen) \<Rightarrow> Some (CallGet key (IfNotGeneration gen))
    | _ \<Rightarrow> None)"

definition read_list :: "(string \<rightharpoonup> string) \<Rightarrow> api_call option" where
  "read_list q = (case (q ''prefix'', q ''maxResults'') of
      (Some pre, Some n) \<Rightarrow>
        if list_all is_digit n then Some (CallList pre (q ''startOffset'') (decimal_value n) (q ''pageToken'')) else None
    | _ \<Rightarrow> None)"

definition read_path :: "http_request \<Rightarrow> string list \<Rightarrow> (string \<rightharpoonup> string) \<Rightarrow> (string \<times> api_call) option" where
  "read_path req segments q = (let verb = hq_method req in
     if take 4 segments = [[], ''upload'', ''storage'', ''v1''] then (case drop 4 segments of
         [b1, bucket, o1] \<Rightarrow> if b1 = ''b'' \<and> o1 = ''o'' \<and> verb = ''POST'' then map_option (Pair (decode_uri_component bucket)) (read_put req q) else None
       | _ \<Rightarrow> None)
     else if take 4 segments = [[], ''storage'', ''v1'', ''b''] then (case drop 4 segments of
         [] \<Rightarrow> (case (hq_body req, q ''project'') of
             (JsonObject [(field, bucket)], Some project_id) \<Rightarrow>
               if verb = ''POST'' \<and> field = ''name'' then Some (bucket, CallCreateBucket project_id) else None
           | _ \<Rightarrow> None)
       | [bucket] \<Rightarrow> if verb = ''GET'' then Some (decode_uri_component bucket, CallFindBucket) else None
       | [bucket, o1] \<Rightarrow>
           if o1 = ''o'' \<and> verb = ''GET'' then map_option (Pair (decode_uri_component bucket)) (read_list q) else None
       | [bucket, o1, key] \<Rightarrow>
           if o1 \<noteq> ''o'' then None
           else if verb = ''GET'' then map_option (Pair (decode_uri_component bucket)) (read_get (decode_uri_component key) q)
           else if verb = ''DELETE'' then Some (decode_uri_component bucket, CallDelete (decode_uri_component key))
           else None
       | _ \<Rightarrow> None)
     else None)"

definition read_call :: "string \<Rightarrow> http_request \<Rightarrow> (string \<times> api_call) option" where
  "read_call endpoint req = (if \<not> prefix endpoint (hq_url req) then None
     else case cut_at (CHR ''?'') (drop (length endpoint) (hq_url req)) of
       (path, query) \<Rightarrow> read_path req (split_on (CHR ''/'') path) (map_of (query_pairs query)))"

fun request_of :: "'c gcs_http_client \<Rightarrow> api_call \<Rightarrow> http_request" where
  "request_of c (CallPut key body content_type gen) = put_object_request c key body content_type gen"
| "request_of c (CallGet key (IfGeneration gen)) = get_object_request c key gen"
| "request_of c (CallGet key (IfNotGeneration gen)) = get_changed_request c key gen"
| "request_of c (CallList pre start_key n cursor) = list_objects_request c pre start_key n cursor"
| "request_of c (CallDelete key) = bare_request ''DELETE'' (build_object_url c key)"
| "request_of c CallFindBucket =
     bare_request ''GET'' (gc_endpoint c @ ''/storage/v1/b/'' @ encode_uri_component (gc_bucket_name c))"
| "request_of c (CallCreateBucket project_id) = create_bucket_request c project_id"

section \<open>A call is read back as it was made\<close>

lemma hex_digits_shape:
  "\<forall>n \<in> {..<16}. hex_value (HEX_DIGITS ! n) = n \<and> is_unreserved (HEX_DIGITS ! n)"
  by code_simp

lemma byte_parts: "(of_char c :: nat) div 16 < 16" "(of_char c :: nat) mod 16 < 16"
  using nat_of_char_less_256 [of c] by (auto simp: less_mult_imp_div_less)

lemma decode_encode_byte: "decode_uri_component (encode_byte c @ rest) = c # decode_uri_component rest"
proof (cases "is_unreserved c")
  case True
  then have "c \<noteq> CHR ''%''" by (auto simp: is_unreserved_def Let_def)
  with True show ?thesis by (simp add: encode_byte_def)
next
  case False
  have "16 * ((of_char c :: nat) div 16) + of_char c mod 16 = of_char c" by simp
  with False byte_parts [of c] hex_digits_shape show ?thesis by (simp add: encode_byte_def)
qed

lemma decode_encode [simp]: "decode_uri_component (encode_uri_component s) = s"
  by (induction s) (simp_all add: encode_uri_component_def decode_encode_byte)

lemma encoded_chars: "x \<in> set (encode_uri_component s) \<Longrightarrow> is_unreserved x \<or> x = CHR ''%''"
  using byte_parts hex_digits_shape by (auto simp: encode_uri_component_def encode_byte_def split: if_splits)

lemma encoded_no_separator [simp]:
  "CHR ''/'' \<notin> set (encode_uri_component s)" "CHR ''&'' \<notin> set (encode_uri_component s)"
  "CHR ''='' \<notin> set (encode_uri_component s)" "CHR ''?'' \<notin> set (encode_uri_component s)"
  using encoded_chars [of _ s] by (force simp: is_unreserved_def Let_def)+

lemma split_on_first: "sep \<notin> set a \<Longrightarrow> split_on sep (a @ sep # rest) = a # split_on sep rest"
  by (induction a) auto

lemma takeWhile_skip: "sep \<notin> set a \<Longrightarrow> takeWhile (\<lambda>c. c \<noteq> sep) (a @ rest) = a @ takeWhile (\<lambda>c. c \<noteq> sep) rest"
  by (induction a) auto

lemma dropWhile_skip: "sep \<notin> set a \<Longrightarrow> dropWhile (\<lambda>c. c \<noteq> sep) (a @ rest) = dropWhile (\<lambda>c. c \<noteq> sep) rest"
  by (induction a) auto

lemma show_nat_no_separator [simp]:
  "CHR ''&'' \<notin> set (show_nat n)" "CHR ''='' \<notin> set (show_nat n)" "CHR ''%'' \<notin> set (show_nat n)"
  using show_nat_digits [of n] by (auto simp: is_digit_def)

lemma decode_plain: "CHR ''%'' \<notin> set s \<Longrightarrow> decode_uri_component s = s"
  by (induction s) auto

lemmas url_reading = takeWhile_skip takeWhile_skip [where rest = "[]", unfolded append_Nil2 takeWhile.simps(1)]
  dropWhile_skip dropWhile_skip [where rest = "[]", unfolded append_Nil2 dropWhile.simps(1)]
  split_on_first split_on_plain decode_plain

lemmas request_building = put_object_request_def get_object_request_def get_changed_request_def list_objects_request_def
  create_bucket_request_def build_object_url_def bare_request_def

lemmas request_reading = read_call_def read_path_def read_put_def read_get_def read_list_def query_pairs_def cut_at_def

lemma digits_shown [simp]: "list_all is_digit (show_nat n)"
  using show_nat_digits [of n] by (simp add: list_all_iff)

lemma read_request_of: "read_call (gc_endpoint c) (request_of c call) = Some (gc_bucket_name c, call)"
proof (cases call)
  case (CallGet key cond)
  then show ?thesis by (cases cond) (simp_all add: request_building request_reading url_reading)
next
  case (CallList pre start_key n cursor)
  then show ?thesis by (cases start_key; cases cursor) (simp_all add: request_building request_reading url_reading)
qed (simp_all add: request_building request_reading url_reading)

text \<open>Headers the credentials add are read past.\<close>

lemma map_of_filter_others: "n \<notin> S \<Longrightarrow> map_of (filter (\<lambda>(k, _). k \<notin> S) hs) n = map_of hs n"
  by (induction hs) auto

lemma add_headers_keeps:
  assumes "n \<notin> fst ` set added"
  shows "map_of (add_headers hs added) n = map_of hs n"
proof -
  have "map_of added n = None" using assms by (simp add: map_of_eq_None_iff)
  with map_of_filter_others [OF assms, of hs] show ?thesis
    by (auto simp: add_headers_def map_add_def split: option.splits)
qed

lemma authorized_parts [simp]:
  "hq_method (authorized added req) = hq_method req" "hq_url (authorized added req) = hq_url req"
  "hq_body (authorized added req) = hq_body req"
  by (simp_all add: authorized_def)

lemma read_authorized:
  assumes "''content-type'' \<notin> fst ` set added"
  shows "read_call endpoint (authorized added req) = read_call endpoint req"
proof -
  have "read_put (authorized added req) = read_put req"
    using add_headers_keeps [OF assms, of "hq_headers req"] by (intro ext) (simp add: read_put_def authorized_def)
  then have "read_path (authorized added req) = read_path req"
    by (intro ext) (simp only: read_path_def authorized_parts)
  then show ?thesis by (simp add: read_call_def)
qed


definition sample_gcs_client :: "unit gcs_http_client" where
  "sample_gcs_client = \<lparr>gc_http = (\<lambda>_ s. (s, Inr \<lparr>hs_status = 200, hs_headers = [], hs_bytes = Inr []\<rparr>)),
     gc_credentials = (\<lambda>_. Inr (NewResource [])), gc_endpoint = ''http://localhost:9000'', gc_bucket_name = ''a/b''\<rparr>"


end
