(* ===== verification/JM_Gcs.thy ===== *)
theory JM_Gcs
  imports JM_Gcs_Client JM_S3
begin

text \<open>
  \<^verbatim>\<open>storage/gcs.rs\<close>: the settings of a storage on Google Cloud Storage, the check of its bucket, and the requests of
  the backend over the client of \<open>JM_Gcs_Client\<close>. The JSON parsers are parameters, fields of the backend. What the
  service documents of conditional requests, by the call it reads out of a request, is the locale
  \<open>gcs_service\<close>; over it the backend keeps the contract of an object store.
\<close>

section \<open>Settings\<close>

definition GCS_REQUEST_TIMEOUT :: duration where
  "GCS_REQUEST_TIMEOUT = secs 5"

definition GCS_LIST_PAGE_SIZE :: int where
  "GCS_LIST_PAGE_SIZE = 1000"

definition CREATE_ONLY_GENERATION :: string where
  "CREATE_ONLY_GENERATION = ''0''"

datatype gcs_credentials_source = ApplicationDefault | ServiceAccountKey string | Anonymous

datatype missing_bucket_policy = CreateUnder string | RefuseToStart

record gcs_config =
  gx_endpoint :: string
  gx_bucket_name :: string
  gx_credentials_source :: gcs_credentials_source
  gx_project_id :: "string option"
  gx_state_prefix :: string
  gx_codec :: job_state_codec_kind
  gx_request_timeout :: duration
  gx_retrier_config :: retrier_config
  gx_list_page_size :: int
  gx_creation_allowed :: bool

definition gcs_config_new :: "string \<Rightarrow> string \<Rightarrow> gcs_config" where
  "gcs_config_new endpoint bucket_name =
     \<lparr>gx_endpoint = endpoint, gx_bucket_name = bucket_name, gx_credentials_source = ApplicationDefault,
      gx_project_id = None, gx_state_prefix = DEFAULT_STATE_PREFIX, gx_codec = Json,
      gx_request_timeout = GCS_REQUEST_TIMEOUT, gx_retrier_config = retrier_config_default,
      gx_list_page_size = GCS_LIST_PAGE_SIZE, gx_creation_allowed = True\<rparr>"

definition gx_with_service_account_key :: "string \<Rightarrow> gcs_config \<Rightarrow> gcs_config" where
  "gx_with_service_account_key key cfg = cfg\<lparr>gx_credentials_source := ServiceAccountKey key\<rparr>"

definition gx_with_anonymous_access :: "gcs_config \<Rightarrow> gcs_config" where
  "gx_with_anonymous_access cfg = cfg\<lparr>gx_credentials_source := Anonymous\<rparr>"

definition gx_with_project_id :: "string \<Rightarrow> gcs_config \<Rightarrow> gcs_config" where
  "gx_with_project_id project_id cfg = cfg\<lparr>gx_project_id := Some project_id\<rparr>"

definition gx_with_state_prefix :: "string \<Rightarrow> gcs_config \<Rightarrow> gcs_config" where
  "gx_with_state_prefix state_prefix cfg = cfg\<lparr>gx_state_prefix := state_prefix\<rparr>"

definition gx_with_job_state_codec :: "job_state_codec_kind \<Rightarrow> gcs_config \<Rightarrow> gcs_config" where
  "gx_with_job_state_codec codec cfg = cfg\<lparr>gx_codec := codec\<rparr>"

definition gx_with_request_timeout :: "duration \<Rightarrow> gcs_config \<Rightarrow> gcs_config" where
  "gx_with_request_timeout timeout cfg = cfg\<lparr>gx_request_timeout := timeout\<rparr>"

definition gx_with_retrier_config :: "retrier_config \<Rightarrow> gcs_config \<Rightarrow> gcs_config" where
  "gx_with_retrier_config rc cfg = cfg\<lparr>gx_retrier_config := rc\<rparr>"

definition gx_with_list_page_size :: "int \<Rightarrow> gcs_config \<Rightarrow> error + gcs_config" where
  "gx_with_list_page_size n cfg =
     (if 1 \<le> n \<and> n \<le> GCS_LIST_PAGE_SIZE then Inr (cfg\<lparr>gx_list_page_size := n\<rparr>)
      else Inl (ErrOther ''gcs list page size must be within 1..=1000''))"

definition gx_with_container_creation :: "bool \<Rightarrow> gcs_config \<Rightarrow> gcs_config" where
  "gx_with_container_creation allowed cfg = cfg\<lparr>gx_creation_allowed := allowed\<rparr>"

definition build_missing_bucket_policy :: "gcs_config \<Rightarrow> error + missing_bucket_policy" where
  "build_missing_bucket_policy cfg =
     (if \<not> gx_creation_allowed cfg then Inr RefuseToStart
      else case gx_project_id cfg of
          Some project_id \<Rightarrow> Inr (CreateUnder project_id)
        | None \<Rightarrow> Inl (ErrOther (''gcs bucket '' @ gx_bucket_name cfg @ '' may be created but no project id was named: '' @
            ''call with_project_id or with_container_creation(false)'')))"

text \<open>What the credentials crate answers for each source; a key is parsed before it is loaded.\<close>

record ('c, 'k) credentials_crate =
  cc_default :: "string + ('c \<Rightarrow> credentials_error + cacheable_resource)"
  cc_parse_key :: "string \<Rightarrow> string + 'k"
  cc_service_account :: "'k \<Rightarrow> string + ('c \<Rightarrow> credentials_error + cacheable_resource)"
  cc_anonymous :: "'c \<Rightarrow> credentials_error + cacheable_resource"

fun build_credentials ::
  "('c, 'k) credentials_crate \<Rightarrow> gcs_credentials_source \<Rightarrow> error + ('c \<Rightarrow> credentials_error + cacheable_resource)" where
  "build_credentials crate ApplicationDefault =
     map_err (\<lambda>e. ErrOther (''Failed to load gcs application default credentials: '' @ e)) (cc_default crate)"
| "build_credentials crate (ServiceAccountKey key) =
     bindR (map_err (\<lambda>e. ErrOther (''gcs service account key is not json: '' @ e)) (cc_parse_key crate key))
       (\<lambda>parsed. map_err (\<lambda>e. ErrOther (''Failed to build gcs service account credentials: '' @ e)) (cc_service_account crate parsed))"
| "build_credentials crate Anonymous = Inr (cc_anonymous crate)"

section \<open>The check of the bucket\<close>

definition send_bucket_request ::
  "('c \<Rightarrow> request_race) \<Rightarrow> ('c, gcs_request_error, json_api_response) sresult \<Rightarrow> ('c, storage_error, json_api_response) sresult" where
  "send_bucket_request hindrance req s = (case timed hindrance req s of
      (s', Some (Inr response)) \<Rightarrow> (s', Inr response)
    | (s', Some (Inl e)) \<Rightarrow> (s', Inl (map_request_error e))
    | (s', None) \<Rightarrow> (s', Inl Timeout))"

definition create_missing_bucket ::
  "('c \<Rightarrow> request_race) \<Rightarrow> 'c gcs_http_client \<Rightarrow> string \<Rightarrow> string \<Rightarrow> ('c, storage_error, (unit, storage_error) retry_step) sresult" where
  "create_missing_bucket hindrance client bucket_name project_id s =
     (case send_bucket_request hindrance (create_bucket client project_id) s of
        (s', Inl refusal) \<Rightarrow> (s', into_retry_step refusal)
      | (s', Inr answer) \<Rightarrow>
          if is_successful (ja_status answer) \<or> gcs_lost_creation_race (ja_status answer) then (s', Inr (Done ()))
          else (s', into_retry_step (map_response_status (ja_status answer) (describe_refusal ''POST'' bucket_name answer))))"

definition gcs_bucket_attempt ::
  "('c \<Rightarrow> request_race) \<Rightarrow> 'c gcs_http_client \<Rightarrow> string \<Rightarrow> missing_bucket_policy \<Rightarrow>
   ('c, storage_error, (unit, storage_error) retry_step) sresult" where
  "gcs_bucket_attempt hindrance client bucket_name policy s =
     (case send_bucket_request hindrance (find_bucket client) s of
        (s1, Inl refusal) \<Rightarrow> (s1, into_retry_step refusal)
      | (s1, Inr answer) \<Rightarrow>
          if is_successful (ja_status answer) then (s1, Inr (Done ()))
          else if \<not> is_absent_status (ja_status answer)
          then (s1, into_retry_step (map_response_status (ja_status answer) (describe_refusal ''GET'' bucket_name answer)))
          else (case policy of
              RefuseToStart \<Rightarrow>
                (s1, Inl (Backend (''bucket '' @ bucket_name @ '' does not exist and container creation is turned off'')))
            | CreateUnder project_id \<Rightarrow> create_missing_bucket hindrance client bucket_name project_id s1))"

definition reach_bucket ::
  "('c \<Rightarrow> request_race) \<Rightarrow> 'c gcs_http_client \<Rightarrow> string \<Rightarrow> missing_bucket_policy \<Rightarrow> retrier_config \<Rightarrow> ('c, error, unit) sresult" where
  "reach_bucket hindrance client bucket_name policy rc s =
     (case retry storage_retry_error rc not_cancelled (gcs_bucket_attempt hindrance client bucket_name policy) s of
        (s', Inl e) \<Rightarrow> (s', Inl (ErrOther ''Failed to init bucket'')) | (s', Inr _) \<Rightarrow> (s', Inr ()))"

section \<open>The backend\<close>

record 'c gcs_backend =
  gb_client :: "'c gcs_http_client"
  gb_content_type :: string
  gb_list_page_size :: nat
  gb_hindrance :: "'c \<Rightarrow> request_race"
  gb_parse_meta :: "string \<Rightarrow> string + state_object_meta"
  gb_parse_page :: "string \<Rightarrow> string + listed_objects_page"

definition gcs_build ::
  "('c \<Rightarrow> request_race) \<Rightarrow> (string \<Rightarrow> string option) \<Rightarrow> string + (http_request \<Rightarrow> ('c, transport_error, http_response) sresult) \<Rightarrow>
   ('c, 'k) credentials_crate \<Rightarrow> (string \<Rightarrow> string + state_object_meta) \<Rightarrow> (string \<Rightarrow> string + listed_objects_page) \<Rightarrow>
   gcs_config \<Rightarrow> ('c, error, 'c gcs_backend \<times> job_paths) sresult" where
  "gcs_build hindrance parse_url http crate parse_meta parse_page cfg s =
     (case bindR (build_missing_bucket_policy cfg) (\<lambda>policy. bindR (build_credentials crate (gx_credentials_source cfg))
        (\<lambda>credentials. bindR (gcs_client_try_new parse_url http (gx_endpoint cfg) (gx_bucket_name cfg) credentials)
          (\<lambda>client. Inr (policy, client)))) of
        Inl e \<Rightarrow> (s, Inl e)
      | Inr (policy, client) \<Rightarrow>
         (case reach_bucket hindrance client (gx_bucket_name cfg) policy (gx_retrier_config cfg) s of
            (s', Inl e) \<Rightarrow> (s', Inl e)
          | (s', Inr _) \<Rightarrow> (s', Inr (\<lparr>gb_client = client, gb_content_type = content_type_of (gx_codec cfg),
                gb_list_page_size = nat (gx_list_page_size cfg), gb_hindrance = hindrance,
                gb_parse_meta = parse_meta, gb_parse_page = parse_page\<rparr>,
              job_paths_new (gx_state_prefix cfg) (gx_codec cfg)))))"

definition answered_request ::
  "string \<Rightarrow> string \<Rightarrow> ('c, gcs_request_error, json_api_response) sresult \<Rightarrow> (json_api_response \<Rightarrow> storage_error + 'a) \<Rightarrow>
   ('c, gcs_failure, 'a) sresult" where
  "answered_request operation key req answer_reader s = (case req s of
      (s', Inl e) \<Rightarrow> (s', Inl (GcsUnanswered e))
    | (s', Inr response) \<Rightarrow>
        if \<not> is_successful (ja_status response)
        then (s', Inl (GcsRefused (ja_status response) (describe_refusal operation key response)))
        else (s', map_err GcsUnusable (answer_reader response)))"

definition send_object_request ::
  "'c gcs_backend \<Rightarrow> string \<Rightarrow> string \<Rightarrow> ('c, gcs_request_error, json_api_response) sresult \<Rightarrow> 'a expected_answer \<Rightarrow>
   (json_api_response \<Rightarrow> storage_error + 'a) \<Rightarrow> ('c, storage_error, 'a) sresult" where
  "send_object_request b operation key req accepted answer_reader =
     send_over gcs_provider_error accepted (gb_hindrance b) (answered_request operation key req answer_reader)"

definition if_generation_match_of :: "put_condition \<Rightarrow> string" where
  "if_generation_match_of cond = (case cond of CreateOnly \<Rightarrow> CREATE_ONLY_GENERATION | MatchVersion v \<Rightarrow> v)"

definition read_metadata :: "'c gcs_backend \<Rightarrow> object_key \<Rightarrow> json_api_response \<Rightarrow> storage_error + state_object_meta" where
  "read_metadata b k response =
     map_err (\<lambda>e. Backend (''gcs answered a write of '' @ k @ '' with metadata that does not parse: '' @ e))
       (gb_parse_meta b (ja_body response))"

definition gcs_put_object ::
  "'c gcs_backend \<Rightarrow> object_key \<Rightarrow> object_body \<Rightarrow> put_condition \<Rightarrow> ('c, storage_error, object_version) sresult" where
  "gcs_put_object b k body cond s =
     (case send_object_request b ''PUT'' k
        (gcs_client_put_object (gb_client b) k body (gb_content_type b) (if_generation_match_of cond))
        ExpectSuccess (read_metadata b k) s of
        (s', Inl e) \<Rightarrow> (s', Inl e) | (s', Inr stored_object) \<Rightarrow> (s', Inr (om_generation stored_object)))"

definition gcs_get_object :: "'c gcs_backend \<Rightarrow> object_key \<Rightarrow> object_version \<Rightarrow> ('c, storage_error, object_body) sresult" where
  "gcs_get_object b k v =
     send_object_request b ''GET'' k (gcs_client_get_object (gb_client b) k v) ExpectSuccess (\<lambda>response. Inr (ja_body response))"

definition read_versioned :: "object_key \<Rightarrow> json_api_response \<Rightarrow> storage_error + (object_version \<times> object_body) option" where
  "read_versioned k response = (case ja_generation response of
      None \<Rightarrow> Inl (Backend (''Missing generation reading '' @ k))
    | Some generation \<Rightarrow> Inr (Some (generation, ja_body response)))"

definition gcs_get_changed_object ::
  "'c gcs_backend \<Rightarrow> object_key \<Rightarrow> object_version \<Rightarrow> ('c, storage_error, (object_version \<times> object_body) option) sresult" where
  "gcs_get_changed_object b k v =
     send_object_request b ''GET'' k (gcs_client_get_changed_object (gb_client b) k v) (ExpectNotModified None) (read_versioned k)"

definition gcs_page_of :: "listed_objects_page \<Rightarrow> listed_page" where
  "gcs_page_of page =
     \<lparr>lp_objects = map (\<lambda>item. \<lparr>lo_key = om_name item, lo_version = Some (om_generation item)\<rparr>) (op_items page),
      lp_next_cursor = (case op_next_page_token page of None \<Rightarrow> None | Some t \<Rightarrow> if t = [] then None else Some t)\<rparr>"

definition read_page :: "'c gcs_backend \<Rightarrow> string \<Rightarrow> json_api_response \<Rightarrow> storage_error + listed_page" where
  "read_page b pre response =
     bindR (map_err (\<lambda>e. Backend (''gcs answered a listing of '' @ pre @ '' with a page that does not parse: '' @ e))
       (gb_parse_page b (ja_body response))) (\<lambda>page. Inr (gcs_page_of page))"

definition gcs_list_objects :: "'c gcs_backend \<Rightarrow> listing_request \<Rightarrow> ('c, storage_error, listed_page) sresult" where
  "gcs_list_objects b req =
     send_object_request b ''LIST'' (lr_prefix req)
       (gcs_client_list_objects (gb_client b) (lr_prefix req) (lr_start_key req) (lr_page_size req) (lr_cursor req))
       ExpectSuccess (read_page b (lr_prefix req))"

definition gcs_delete_objects :: "'c gcs_backend \<Rightarrow> object_key list \<Rightarrow> ('c, storage_error, unit) sresult" where
  "gcs_delete_objects b =
     forS (\<lambda>k. send_object_request b ''DELETE'' k (gcs_client_delete_object (gb_client b) k) (ExpectObjectGone ()) (\<lambda>_. Inr ()))"

definition gcs_ops :: "'c gcs_backend \<Rightarrow> 'c backend" where
  "gcs_ops b =
     \<lparr>be_listing_start_bound = Inclusive, be_list_page_size = gb_list_page_size b, be_put_object = gcs_put_object b,
      be_get_object = gcs_get_object b, be_get_changed_object = gcs_get_changed_object b,
      be_list_objects = gcs_list_objects b, be_delete_objects = gcs_delete_objects b\<rparr>"

lemma gcs_ops_simps:
  "be_put_object (gcs_ops b) = gcs_put_object b" "be_get_object (gcs_ops b) = gcs_get_object b"
  "be_get_changed_object (gcs_ops b) = gcs_get_changed_object b" "be_list_objects (gcs_ops b) = gcs_list_objects b"
  "be_delete_objects (gcs_ops b) = gcs_delete_objects b"
  by (simp_all add: gcs_ops_def)

lemma map_err_Inl_iff: "map_err g m = Inl e \<longleftrightarrow> (\<exists>e0. m = Inl e0 \<and> e = g e0)"
  by (cases m) auto

text \<open>The generation of a write is taken off the metadata after the request has landed.\<close>

definition gcs_write :: "'c gcs_backend \<Rightarrow> object_key \<Rightarrow> object_body \<Rightarrow> put_condition \<Rightarrow> ('c, gcs_failure, object_version) sresult" where
  "gcs_write b k body cond s = (case answered_request ''PUT'' k
      (gcs_client_put_object (gb_client b) k body (gb_content_type b) (if_generation_match_of cond)) (read_metadata b k) s of
      (s', Inl e) \<Rightarrow> (s', Inl e) | (s', Inr meta) \<Rightarrow> (s', Inr (om_generation meta)))"

lemma put_as_write: "gcs_put_object b k body cond = send_over gcs_provider_error ExpectSuccess (gb_hindrance b) (gcs_write b k body cond)"
  by (rule ext) (auto simp: gcs_put_object_def send_object_request_def send_over_def gcs_write_def send_request_def
      split: request_race.splits prod.splits sum.splits)

section \<open>What the service documents\<close>

text \<open>
  By the call the service reads out of a request. A generation of zero stands for no object, and no object has it.
  An answer to a write carries the metadata of what was written, one to a read names the generation in a
  header; a write is atomic, and one whose answer is lost may have been made.
\<close>

definition generation_is :: "string \<Rightarrow> (object_version \<times> object_body) option \<Rightarrow> bool" where
  "generation_is gen obj \<longleftrightarrow> (if gen = CREATE_ONLY_GENERATION then obj = None else map_option fst obj = Some gen)"

definition generation_of :: "http_response \<Rightarrow> string option" where
  "generation_of response = Option.bind (map_of (hs_headers response) GENERATION_HEADER) header_to_str"

definition accepted_answer :: "transport_error + http_response \<Rightarrow> bool" where
  "accepted_answer r = (case r of Inr response \<Rightarrow> is_successful (hs_status response) | Inl _ \<Rightarrow> False)"

definition gcs_answers ::
  "'c gcs_http_client \<Rightarrow> api_call \<Rightarrow> 'c \<Rightarrow> 'c \<Rightarrow> transport_error + http_response \<Rightarrow> bool" where
  "gcs_answers c call s s' r \<longleftrightarrow>
     (\<exists>req. read_call (gc_endpoint c) req = Some (gc_bucket_name c, call) \<and> gc_http c req s = (s', r))"

locale gcs_service =
  fixes b :: "'c gcs_backend"
    and stored :: "'c \<Rightarrow> object_key \<Rightarrow> (object_version \<times> object_body) option"
    and moved :: "'c \<Rightarrow> 'c \<Rightarrow> bool"
  assumes moved_refl: "moved s s"
    and g_authorization: "gc_credentials (gb_client b) s = Inr (NewResource added) \<Longrightarrow> ''content-type'' \<notin> fst ` set added"
    and g_put: "gcs_answers (gb_client b) (CallPut k body content_type gen) s s' r \<Longrightarrow>
      \<exists>s0. moved s s0 \<and> (stored s' = stored s0 \<and> \<not> accepted_answer r \<or>
        generation_is gen (stored s0 k) \<and> (\<exists>v. real_version v \<and> stored s' = (stored s0)(k \<mapsto> (v, body)) \<and>
          (\<forall>response bytes meta. r = Inr response \<and> is_successful (hs_status response) \<and> hs_bytes response = Inr bytes \<and>
             gb_parse_meta b bytes = Inr meta \<longrightarrow> om_generation meta = v)))"
    and g_get_moves: "gcs_answers (gb_client b) (CallGet k rc) s s' r \<Longrightarrow> moved s s'"
    and g_get: "gcs_answers (gb_client b) (CallGet k rc) s s' (Inr response) \<Longrightarrow> is_successful (hs_status response) \<Longrightarrow>
      hs_bytes response = Inr body \<Longrightarrow>
      \<exists>v. stored s' k = Some (v, body) \<and> (\<forall>gen. rc = IfGeneration gen \<longrightarrow> generation_is gen (Some (v, body))) \<and>
        (\<forall>gen. generation_of response = Some gen \<longrightarrow> gen = v)"
    and g_unchanged: "gcs_answers (gb_client b) (CallGet k rc) s s' (Inr response) \<Longrightarrow> hs_status response = 304 \<Longrightarrow>
      \<exists>v body. rc = IfNotGeneration v \<and> stored s' k = Some (v, body)"
    and g_list_moves: "gcs_answers (gb_client b) (CallList p start_key n cursor) s s' r \<Longrightarrow> moved s s'"
    and g_list_first: "gcs_answers (gb_client b) (CallList p None 1 None) s s' (Inr response) \<Longrightarrow>
      is_successful (hs_status response) \<Longrightarrow> hs_bytes response = Inr body \<Longrightarrow> gb_parse_page b body = Inr page \<Longrightarrow>
      (case op_items page of
         [] \<Rightarrow> \<forall>k. prefix p k \<longrightarrow> stored s' k = None
       | i # _ \<Rightarrow> prefix p (om_name i) \<and> map_option fst (stored s' (om_name i)) = Some (om_generation i) \<and>
           (\<forall>k. prefix p k \<and> stored s' k \<noteq> None \<longrightarrow> om_name i \<le> k))"
    and g_delete: "gcs_answers (gb_client b) (CallDelete k) s s' r \<Longrightarrow> \<exists>s0. moved s s0 \<and> clears stored {k} s0 s'"
begin

abbreviation "sent call \<equiv> gcs_send_request (gb_client b) (request_of (gb_client b) call)"

lemma answered_cases:
  assumes "answered_request operation key (sent call) reader s = (s', r)"
  shows "(s' = s \<and> (\<exists>e. r = Inl (GcsUnanswered e))) \<or> (\<exists>q. gcs_answers (gb_client b) call s s' q \<and>
    (\<forall>a. r = Inr a \<longrightarrow> (\<exists>h response. q = Inr h \<and> is_successful (hs_status h) \<and> hs_bytes h = Inr (ja_body response) \<and>
       ja_generation response = generation_of h \<and> reader response = Inr a)) \<and>
    (\<forall>status d. r = Inl (GcsRefused status d) \<longrightarrow> (\<exists>h. q = Inr h \<and> hs_status h = status)))"
proof (cases "\<exists>added. gc_credentials (gb_client b) s = Inr (NewResource added)")
  case True
  then obtain added where added: "gc_credentials (gb_client b) s = Inr (NewResource added)" by blast
  obtain q where q: "gc_http (gb_client b) (authorized added (request_of (gb_client b) call)) s = (s', q)"
    using assms added
    by (auto simp: answered_request_def gcs_send_request_def split: prod.splits sum.splits if_splits)
  have "read_call (gc_endpoint (gb_client b)) (authorized added (request_of (gb_client b) call)) =
      Some (gc_bucket_name (gb_client b), call)"
    using read_request_of read_authorized g_authorization [OF added] by metis
  with q have "gcs_answers (gb_client b) call s s' q" by (auto simp: gcs_answers_def)
  moreover have "r = (case q of Inl e \<Rightarrow> Inl (GcsUnanswered (Transport e)) | Inr h \<Rightarrow> (case hs_bytes h of
      Inl e \<Rightarrow> Inl (GcsUnanswered (Transport e))
    | Inr body \<Rightarrow> let response = \<lparr>ja_status = hs_status h, ja_generation = generation_of h, ja_body = body\<rparr> in
        if \<not> is_successful (hs_status h) then Inl (GcsRefused (hs_status h) (describe_refusal operation key response))
        else map_err GcsUnusable (reader response)))"
    using assms added q
    by (auto simp: answered_request_def gcs_send_request_def generation_of_def Let_def split: sum.splits)
  ultimately show ?thesis
    by (intro disjI2 exI [of _ q] conjI) (auto simp: Let_def map_err_Inl_iff split: sum.splits if_splits, force)
next
  case False
  then show ?thesis
    using assms
    by (auto simp: answered_request_def gcs_send_request_def split: sum.splits cacheable_resource.splits)
qed

text \<open>The requests of the backend.\<close>

lemma write_cases:
  assumes "gcs_write b k body cond s = (s', r)"
  shows "\<exists>s0. moved s s0 \<and> (stored s' = stored s0 \<and> \<not> is_ok r \<or> condition_met cond (stored s0 k) \<and>
    (\<exists>v. real_version v \<and> stored s' = (stored s0)(k \<mapsto> (v, body)) \<and> (\<forall>u. r = Inr u \<longrightarrow> u = v)))"
proof -
  have cond: "generation_is (if_generation_match_of cond) obj \<Longrightarrow> condition_met cond obj" for obj
    by (cases cond) (auto simp: condition_met_def generation_is_def if_generation_match_of_def CREATE_ONLY_GENERATION_def real_version_def)
  obtain q where q: "answered_request ''PUT'' k (sent (CallPut k body (gb_content_type b) (if_generation_match_of cond)))
      (read_metadata b k) s = (s', q)" "\<forall>u. r = Inr u \<longrightarrow> (\<exists>meta. q = Inr meta \<and> u = om_generation meta)"
    using assms by (auto simp: gcs_write_def gcs_client_put_object_def split: prod.splits sum.splits)
  from answered_cases [OF q(1)] show ?thesis
  proof (elim disjE exE conjE)
    fix a assume "gcs_answers (gb_client b) (CallPut k body (gb_content_type b) (if_generation_match_of cond)) s s' a"
      and a: "\<forall>meta. q = Inr meta \<longrightarrow> (\<exists>h response. a = Inr h \<and> is_successful (hs_status h) \<and> hs_bytes h = Inr (ja_body response) \<and>
        ja_generation response = generation_of h \<and> read_metadata b k response = Inr meta)"
    from g_put [OF this(1)] obtain s0 where s0: "moved s s0" and
      cases: "stored s' = stored s0 \<and> \<not> accepted_answer a \<or>
        generation_is (if_generation_match_of cond) (stored s0 k) \<and> (\<exists>v. real_version v \<and> stored s' = (stored s0)(k \<mapsto> (v, body)) \<and>
          (\<forall>response bytes meta. a = Inr response \<and> is_successful (hs_status response) \<and> hs_bytes response = Inr bytes \<and>
             gb_parse_meta b bytes = Inr meta \<longrightarrow> om_generation meta = v))"
      by blast
    from q(2) a have r: "\<exists>h bytes meta. a = Inr h \<and> is_successful (hs_status h) \<and> hs_bytes h = Inr bytes \<and>
        gb_parse_meta b bytes = Inr meta \<and> u = om_generation meta" if "r = Inr u" for u
      using that by (fastforce simp: read_metadata_def)
    then have "accepted_answer a" if "is_ok r" using that by (auto simp: is_ok_iff accepted_answer_def)
    with cases r cond s0 show ?thesis by metis
  next
    fix e assume "s' = s" "q = Inl (GcsUnanswered e)"
    with q(2) have "\<not> is_ok r" by (auto simp: is_ok_iff)
    with \<open>s' = s\<close> show ?thesis using moved_refl by blast
  qed
qed

lemma answered_moves:
  assumes "answered_request operation key (sent call) reader s = (s', r)"
    and "\<And>q. gcs_answers (gb_client b) call s s' q \<Longrightarrow> moved s s'"
  shows "moved s s'"
  using answered_cases [OF assms(1)] assms(2) moved_refl [of s] by metis

lemma answered_Inr:
  assumes "answered_request operation key (sent call) reader s = (s', Inr a)"
  obtains h response where "gcs_answers (gb_client b) call s s' (Inr h)" "is_successful (hs_status h)"
    "hs_bytes h = Inr (ja_body response)" "ja_generation response = generation_of h" "reader response = Inr a"
  using answered_cases [OF assms] by auto

lemma answered_refusal:
  assumes "answered_request operation key (sent call) reader s = (s', Inl (GcsRefused status d))"
  obtains h where "gcs_answers (gb_client b) call s s' (Inr h)" "hs_status h = status"
  using answered_cases [OF assms] by auto

end

sublocale gcs_service \<subseteq> requests: provider_requests gcs_provider_error "gb_hindrance b" "gcs_write b"
  "\<lambda>k v. answered_request ''GET'' k (gcs_client_get_object (gb_client b) k v) (\<lambda>response. Inr (ja_body response))" "\<lambda>body. body"
  "\<lambda>k v. answered_request ''GET'' k (gcs_client_get_changed_object (gb_client b) k v) (read_versioned k)"
  "\<lambda>req. answered_request ''LIST'' (lr_prefix req)
     (gcs_client_list_objects (gb_client b) (lr_prefix req) (lr_start_key req) (lr_page_size req) (lr_cursor req)) (read_page b (lr_prefix req))"
  "\<lambda>page. page" stored moved
proof unfold_locales
  have get: "gcs_client_get_object (gb_client b) k v = sent (CallGet k (IfGeneration v))" for k v
    by (simp add: gcs_client_get_object_def)
  have changed: "gcs_client_get_changed_object (gb_client b) k v = sent (CallGet k (IfNotGeneration v))" for k v
    by (simp add: gcs_client_get_changed_object_def)
  have listed: "gcs_client_list_objects (gb_client b) p start_key n cursor = sent (CallList p start_key n cursor)" for p start_key n cursor
    by (simp add: gcs_client_list_objects_def)
  show "moved s s'" if "answered_request ''GET'' k (gcs_client_get_object (gb_client b) k v) (\<lambda>response. Inr (ja_body response)) s = (s', r)"
    for k v s s' r
    using that unfolding get by (rule answered_moves) (rule g_get_moves)
  show "\<exists>u. stored s' k = Some (u, body) \<and> (real_version v \<longrightarrow> u = v)"
    if "answered_request ''GET'' k (gcs_client_get_object (gb_client b) k v) (\<lambda>response. Inr (ja_body response)) s = (s', Inr body)"
    for k v s s' body
  proof -
    from that obtain h and response :: json_api_response where "gcs_answers (gb_client b) (CallGet k (IfGeneration v)) s s' (Inr h)"
      "is_successful (hs_status h)" "hs_bytes h = Inr (ja_body response)" "Inr (ja_body response) = (Inr body :: storage_error + object_body)"
      unfolding get by (elim answered_Inr) blast
    from g_get [OF this(1-3)] this(4) show ?thesis
      by (auto simp: generation_is_def CREATE_ONLY_GENERATION_def real_version_def)
  qed
  show "moved s s'" if "answered_request ''GET'' k (gcs_client_get_changed_object (gb_client b) k v) (read_versioned k) s = (s', r)"
    for k v s s' r
    using that unfolding changed by (rule answered_moves) (rule g_get_moves)
  show "\<exists>v' body. o1 = Some (v', body) \<and> stored s' k = Some (v', body)"
    if "answered_request ''GET'' k (gcs_client_get_changed_object (gb_client b) k v) (read_versioned k) s = (s', Inr o1)"
    for k v s s' o1
  proof -
    from that obtain h and response :: json_api_response where "gcs_answers (gb_client b) (CallGet k (IfNotGeneration v)) s s' (Inr h)"
      "is_successful (hs_status h)" "hs_bytes h = Inr (ja_body response)" "ja_generation response = generation_of h"
      "read_versioned k response = Inr o1"
      unfolding changed by (elim answered_Inr) blast
    from g_get [OF this(1-3)] this(4,5) show ?thesis by (auto simp: read_versioned_def split: option.splits) metis
  qed
  show "\<exists>body. stored s' k = Some (v, body)"
    if "answered_request ''GET'' k (gcs_client_get_changed_object (gb_client b) k v) (read_versioned k) s = (s', Inl e)"
      and "is_not_modified gcs_provider_error e" for k v s s' e
  proof -
    note refused = that
    obtain status d where e: "e = GcsRefused status d" "status = 304"
      using refused(2) by (cases e) (auto simp: gcs_provider_error_def gcs_is_not_modified_def not_modified_status)
    obtain h where "gcs_answers (gb_client b) (CallGet k (IfNotGeneration v)) s s' (Inr h)" "hs_status h = 304"
      using answered_refusal [OF refused(1) [unfolded changed e(1)]] e(2) by metis
    from g_unchanged [OF this] show ?thesis by auto
  qed
  show "moved s s'" if "answered_request ''LIST'' (lr_prefix req)
     (gcs_client_list_objects (gb_client b) (lr_prefix req) (lr_start_key req) (lr_page_size req) (lr_cursor req)) (read_page b (lr_prefix req)) s =
     (s', r)" for req s s' r
    using that unfolding listed by (rule answered_moves) (rule g_list_moves)
  show "case lp_objects page of
       [] \<Rightarrow> \<forall>k. prefix p k \<longrightarrow> stored s' k = None
     | o1 # _ \<Rightarrow> prefix p (lo_key o1) \<and> stored s' (lo_key o1) \<noteq> None \<and>
         (\<forall>v. lo_version o1 = Some v \<longrightarrow> (\<exists>body. stored s' (lo_key o1) = Some (v, body))) \<and>
         (\<forall>k. prefix p k \<and> stored s' k \<noteq> None \<longrightarrow> lo_key o1 \<le> k)"
    if "answered_request ''LIST'' (lr_prefix \<lparr>lr_prefix = p, lr_start_key = None, lr_page_size = 1, lr_cursor = None\<rparr>)
     (gcs_client_list_objects (gb_client b) (lr_prefix \<lparr>lr_prefix = p, lr_start_key = None, lr_page_size = 1, lr_cursor = None\<rparr>)
       (lr_start_key \<lparr>lr_prefix = p, lr_start_key = None, lr_page_size = 1, lr_cursor = None\<rparr>)
       (lr_page_size \<lparr>lr_prefix = p, lr_start_key = None, lr_page_size = 1, lr_cursor = None\<rparr>)
       (lr_cursor \<lparr>lr_prefix = p, lr_start_key = None, lr_page_size = 1, lr_cursor = None\<rparr>))
     (read_page b (lr_prefix \<lparr>lr_prefix = p, lr_start_key = None, lr_page_size = 1, lr_cursor = None\<rparr>)) s = (s', Inr page)" for p s s' page
  proof -
    from that obtain h and response :: json_api_response and listed_page where "gcs_answers (gb_client b) (CallList p None 1 None) s s' (Inr h)"
      "is_successful (hs_status h)" "hs_bytes h = Inr (ja_body response)" "gb_parse_page b (ja_body response) = Inr listed_page"
      and page: "page = gcs_page_of listed_page"
      unfolding listed listing_request.simps by (elim answered_Inr) (auto simp: read_page_def)
    from g_list_first [OF this(1-4)] show ?thesis
      by (cases "op_items listed_page") (auto simp: page gcs_page_of_def)
  qed
qed (fact moved_refl, rule write_cases)

context gcs_service
begin

lemma delete_all_state:
  assumes "gcs_delete_objects b keys s = (s', r)"
  shows "(\<lambda>a c. moved a c \<or> clears stored (set keys) a c)\<^sup>*\<^sup>* s s'"
proof (rule requests.delete_loop [where keys_of = "\<lambda>k. {k}"])
  show "forS (\<lambda>k. send_over gcs_provider_error (ExpectObjectGone ()) (gb_hindrance b)
      (answered_request ''DELETE'' k (sent (CallDelete k)) (\<lambda>_. Inr ()))) keys s = (s', r)"
    using assms by (simp add: gcs_delete_objects_def send_object_request_def gcs_client_delete_object_def)
  show "\<exists>s0. moved t s0 \<and> clears stored {k} s0 t'"
    if "answered_request ''DELETE'' k (sent (CallDelete k)) (\<lambda>_. Inr ()) t = (t', q)" for k t t' q
    using answered_cases [OF that] g_delete moved_refl [of t] by (fastforce simp: clears_def)
qed simp

end

sublocale gcs_service \<subseteq> over_gcs: object_store "gcs_ops b" stored moved
  by unfold_locales
    (simp_all only: gcs_ops_simps put_as_write gcs_get_object_def gcs_get_changed_object_def gcs_list_objects_def send_object_request_def,
      (rule requests.put_lands requests.put_lost requests.get_state requests.get_lands requests.changed_state
        requests.changed_lands requests.unchanged_lands requests.list_state requests.list_lands delete_all_state; assumption)+)

context gcs_service
begin

lemma keeps_contract: "object_store (gcs_ops b) stored moved"
  by (rule over_gcs.object_store_axioms)

end

section \<open>A service over a bucket\<close>

text \<open>A format for metadata and pages: escaped fields between separators.\<close>

definition meta_bytes :: "state_object_meta \<Rightarrow> string" where
  "meta_bytes meta = encode_uri_component (om_name meta) @ ''='' @ encode_uri_component (om_generation meta)"

definition parse_meta_bytes :: "string \<Rightarrow> state_object_meta" where
  "parse_meta_bytes bytes = (case cut_at (CHR ''='') bytes of
     (name, gen) \<Rightarrow> \<lparr>om_name = decode_uri_component name, om_generation = decode_uri_component gen\<rparr>)"

definition page_bytes :: "listed_objects_page \<Rightarrow> string" where
  "page_bytes page = concat (map (\<lambda>meta. meta_bytes meta @ ''&'') (op_items page)) @
     (case op_next_page_token page of None \<Rightarrow> [] | Some t \<Rightarrow> encode_uri_component t)"

definition parse_page_bytes :: "string \<Rightarrow> listed_objects_page" where
  "parse_page_bytes bytes = (let parts = split_on (CHR ''&'') bytes in
     \<lparr>op_items = map parse_meta_bytes (butlast parts),
      op_next_page_token = (if last parts = [] then None else Some (decode_uri_component (last parts)))\<rparr>)"

lemma parse_meta_bytes [simp]: "parse_meta_bytes (meta_bytes meta) = meta"
  by (simp add: parse_meta_bytes_def meta_bytes_def cut_at_def url_reading)

lemma split_page: "CHR ''&'' \<notin> set t \<Longrightarrow>
  split_on (CHR ''&'') (concat (map (\<lambda>meta. meta_bytes meta @ ''&'') metas) @ t) = map meta_bytes metas @ [t]"
proof (induction metas)
  case (Cons meta metas)
  have "CHR ''&'' \<notin> set (meta_bytes meta)" by (simp add: meta_bytes_def)
  from split_on_first [OF this] Cons show ?case by simp
qed (simp add: split_on_plain)

lemma parse_page_items: "op_items (parse_page_bytes (page_bytes page)) = op_items page"
proof -
  have "CHR ''&'' \<notin> set (case op_next_page_token page of None \<Rightarrow> [] | Some t \<Rightarrow> encode_uri_component t)"
    by (simp split: option.splits)
  from split_page [OF this] show ?thesis by (simp add: parse_page_bytes_def page_bytes_def Let_def comp_def)
qed

definition page_from :: "listed_page \<Rightarrow> listed_objects_page" where
  "page_from page =
     \<lparr>op_items = map (\<lambda>o1. \<lparr>om_name = lo_key o1, om_generation = unwrap_or [] (lo_version o1)\<rparr>) (lp_objects page),
      op_next_page_token = lp_next_cursor page\<rparr>"

definition http_answer :: "nat \<Rightarrow> header_map \<Rightarrow> string \<Rightarrow> transport_error + http_response" where
  "http_answer status headers bytes = Inr \<lparr>hs_status = status, hs_headers = headers, hs_bytes = Inr bytes\<rparr>"

fun serve_call :: "job_paths \<Rightarrow> api_call \<Rightarrow> bucket \<Rightarrow> bucket \<times> (transport_error + http_response)" where
  "serve_call p (CallPut k body content_type gen) s = (let b0 = bk_arrive p s in
     if generation_is gen (bk_lookup b0 k)
     then (bk_write k body b0, http_answer 200 [] (meta_bytes \<lparr>om_name = k, om_generation = show_nat (bk_counter b0 + 1)\<rparr>))
     else (b0, http_answer 412 [] []))"
| "serve_call p (CallGet k rc) s = (let b0 = bk_arrive p s in
     (b0, case bk_lookup b0 k of
        None \<Rightarrow> http_answer 404 [] []
      | Some (v, body) \<Rightarrow> (case rc of
          IfGeneration gen \<Rightarrow>
            if generation_is gen (Some (v, body)) then http_answer 200 [(GENERATION_HEADER, v)] body else http_answer 412 [] []
        | IfNotGeneration gen \<Rightarrow> if gen = v then http_answer 304 [] [] else http_answer 200 [(GENERATION_HEADER, v)] body)))"
| "serve_call p (CallList pre start_key n cursor) s = (let b0 = bk_arrive p s in
     (b0, http_answer 200 [] (page_bytes (page_from
        (bk_list \<lparr>lr_prefix = pre, lr_start_key = start_key, lr_page_size = n, lr_cursor = cursor\<rparr> b0)))))"
| "serve_call p (CallDelete k) s = (let b0 = bk_arrive p s in
     if bk_lookup b0 k = None then (b0, http_answer 404 [] []) else (bk_remove [k] b0, http_answer 204 [] []))"
| "serve_call p CallFindBucket s = (s, http_answer 200 [] [])"
| "serve_call p (CallCreateBucket project_id) s = (s, http_answer 409 [] [])"

definition bucket_gcs_client :: "job_paths \<Rightarrow> bucket gcs_http_client" where
  "bucket_gcs_client p =
     \<lparr>gc_http = (\<lambda>req s. case read_call ''http://localhost:9000'' req of
        None \<Rightarrow> (s, http_answer 400 [] [])
      | Some (bucket, call) \<Rightarrow> if bucket = ''jobs'' then serve_call p call s else (s, http_answer 404 [] [])),
      gc_credentials = (\<lambda>_. Inr (NewResource [(''authorization'', ''Bearer token'')])),
      gc_endpoint = ''http://localhost:9000'', gc_bucket_name = ''jobs''\<rparr>"

definition bucket_gcs :: "job_paths \<Rightarrow> (bucket \<Rightarrow> request_race) \<Rightarrow> bucket gcs_backend" where
  "bucket_gcs p h = \<lparr>gb_client = bucket_gcs_client p, gb_content_type = ''application/json'', gb_list_page_size = 1000,
     gb_hindrance = h, gb_parse_meta = (\<lambda>bytes. Inr (parse_meta_bytes bytes)), gb_parse_page = (\<lambda>bytes. Inr (parse_page_bytes bytes))\<rparr>"

lemma bucket_gcs_answers: "gcs_answers (gb_client (bucket_gcs p h)) call s s' r \<Longrightarrow> serve_call p call s = (s', r)"
  by (auto simp: gcs_answers_def bucket_gcs_def bucket_gcs_client_def split: option.splits)

lemma success_statuses [simp]: "is_successful 200" "is_successful 204" "\<not> is_successful 304" "\<not> is_successful 404" "\<not> is_successful 412"
  by (simp_all add: is_successful_def)

lemmas bucket_answering = http_answer_def accepted_answer_def Let_def

lemma served_first:
  assumes "serve_call p (CallList pre None 1 None) s = (s', Inr h)" and "hs_bytes h = Inr bytes"
  shows "case op_items (parse_page_bytes bytes) of
     [] \<Rightarrow> \<forall>k. prefix pre k \<longrightarrow> bk_lookup s' k = None
   | i # _ \<Rightarrow> prefix pre (om_name i) \<and> map_option fst (bk_lookup s' (om_name i)) = Some (om_generation i) \<and>
       (\<forall>k. prefix pre k \<and> bk_lookup s' k \<noteq> None \<longrightarrow> om_name i \<le> k)"
proof -
  let ?page = "bk_list \<lparr>lr_prefix = pre, lr_start_key = None, lr_page_size = 1, lr_cursor = None\<rparr> s'"
  have items: "op_items (parse_page_bytes bytes) = op_items (page_from ?page)"
    using assms by (auto simp: bucket_answering parse_page_items)
  have named: "lo_version o1 = map_option fst (bk_lookup s' (lo_key o1))" if "o1 \<in> set (lp_objects ?page)" for o1
    using that by (auto simp: bk_list_def Let_def)
  show ?thesis
    using bk_list_first [of pre s'] named unfolding items
    by (cases "lp_objects ?page") (auto simp: page_from_def unwrap_or_def split: option.splits)
qed

interpretation gcs_bucket: gcs_service "bucket_gcs p h" bk_lookup "bk_moved p"
proof unfold_locales
  show "bk_moved p s s" for s by simp
  show "''content-type'' \<notin> fst ` set added" if "gc_credentials (gb_client (bucket_gcs p h)) s = Inr (NewResource added)" for s added
    using that by (auto simp: bucket_gcs_def bucket_gcs_client_def)
  show "\<exists>s0. bk_moved p s s0 \<and> (bk_lookup s' = bk_lookup s0 \<and> \<not> accepted_answer r \<or>
      generation_is gen (bk_lookup s0 k) \<and> (\<exists>v. real_version v \<and> bk_lookup s' = (bk_lookup s0)(k \<mapsto> (v, body)) \<and>
        (\<forall>response bytes meta. r = Inr response \<and> is_successful (hs_status response) \<and> hs_bytes response = Inr bytes \<and>
           gb_parse_meta (bucket_gcs p h) bytes = Inr meta \<longrightarrow> om_generation meta = v)))"
    if "gcs_answers (gb_client (bucket_gcs p h)) (CallPut k body content_type gen) s s' r" for k body content_type gen s s' r
    using bucket_gcs_answers [OF that] arrive_moves [of p s] counted_real [of "bk_counter (bk_arrive p s)"]
    by (intro exI [of _ "bk_arrive p s"]) (auto simp: bucket_answering bucket_gcs_def split: if_splits)
  show "bk_moved p s s'" if "gcs_answers (gb_client (bucket_gcs p h)) (CallGet k rc) s s' r" for k rc s s' r
    using bucket_gcs_answers [OF that] arrive_moves [of p s] by (auto simp: Let_def)
  show "\<exists>v. bk_lookup s' k = Some (v, body) \<and> (\<forall>gen. rc = IfGeneration gen \<longrightarrow> generation_is gen (Some (v, body))) \<and>
      (\<forall>gen. generation_of response = Some gen \<longrightarrow> gen = v)"
    if "gcs_answers (gb_client (bucket_gcs p h)) (CallGet k rc) s s' (Inr response)" and "is_successful (hs_status response)"
      and "hs_bytes response = Inr body" for k rc s s' response body
    using bucket_gcs_answers [OF that(1)] that(2,3)
    by (auto simp: bucket_answering generation_of_def header_to_str_def split: option.splits read_condition.splits if_splits)
  show "\<exists>v body. rc = IfNotGeneration v \<and> bk_lookup s' k = Some (v, body)"
    if "gcs_answers (gb_client (bucket_gcs p h)) (CallGet k rc) s s' (Inr response)" and "hs_status response = 304" for k rc s s' response
    using bucket_gcs_answers [OF that(1)] that(2)
    by (auto simp: bucket_answering split: option.splits read_condition.splits if_splits)
  show "bk_moved p s s'" if "gcs_answers (gb_client (bucket_gcs p h)) (CallList pre start_key n cursor) s s' r"
    for pre start_key n cursor s s' r
    using bucket_gcs_answers [OF that] arrive_moves [of p s] by (auto simp: Let_def)
  show "case op_items page of
       [] \<Rightarrow> \<forall>k. prefix pre k \<longrightarrow> bk_lookup s' k = None
     | i # _ \<Rightarrow> prefix pre (om_name i) \<and> map_option fst (bk_lookup s' (om_name i)) = Some (om_generation i) \<and>
         (\<forall>k. prefix pre k \<and> bk_lookup s' k \<noteq> None \<longrightarrow> om_name i \<le> k)"
    if "gcs_answers (gb_client (bucket_gcs p h)) (CallList pre None 1 None) s s' (Inr response)"
      and "hs_bytes response = Inr body" and "gb_parse_page (bucket_gcs p h) body = Inr page" for pre s s' response body page
    using served_first [OF bucket_gcs_answers [OF that(1)] that(2)] that(3) by (simp add: bucket_gcs_def)
  show "\<exists>s0. bk_moved p s s0 \<and> clears bk_lookup {k} s0 s'"
    if "gcs_answers (gb_client (bucket_gcs p h)) (CallDelete k) s s' r" for k s s' r
    using bucket_gcs_answers [OF that] arrive_moves [of p s] bk_remove_clears [of "[k]"]
    by (intro exI [of _ "bk_arrive p s"]) (auto simp: Let_def clears_def split: if_splits)
qed

text \<open>C19. The backend of Google Cloud Storage is an object store. Over every service that keeps what the JSON API documents of the
  calls it reads, whatever comes between a request and its answer, the backend keeps the contract the
  storage of jobs rests on: the generation it names in the URL is the condition the service holds the write
  to, zero for an object that must not exist, and the one it hands back is the one stored.\<close>
theorem gcs_keeps_contract:
  assumes "gcs_service b stored moved"
  shows "object_store (gcs_ops b) stored moved"
  using assms by (rule gcs_service.keeps_contract)

theorem gcs_keeps_contract_witness:
  "object_store (gcs_ops (bucket_gcs (job_paths_new ''jobs'' Json) (\<lambda>_. LateAfter True)))
    bk_lookup (bk_moved (job_paths_new ''jobs'' Json))"
  by (rule gcs_keeps_contract) (rule gcs_bucket.gcs_service_axioms)

end
