(* ===== verification/JM_Worker_Metrics.thy ===== *)
theory JM_Worker_Metrics
  imports JM_Worker_Props JM_Cached
begin

text \<open>
  What is measured: a task counts as processed exactly when its result reached the storage, an iteration
  when the write that closed it did, and a read of the cache as one hit or one miss.
\<close>

section \<open>Measurements of a save\<close>

fun measures_task :: "measurement \<Rightarrow> bool" where
  "measures_task (TaskProcessed jc tc r d) \<longleftrightarrow> True"
| "measures_task m \<longleftrightarrow> False"

fun measures_iteration :: "measurement \<Rightarrow> bool" where
  "measures_iteration (JobIterationComplete jc verdict d) \<longleftrightarrow> True"
| "measures_iteration m \<longleftrightarrow> False"

text \<open>A handler of conflicts that measures conflicts only.\<close>

definition conflicts_only :: "(job \<Rightarrow> job \<Rightarrow> ('s, merge_decision) worker_op) \<Rightarrow> bool" where
  "conflicts_only handler \<longleftrightarrow> (\<forall>current saved_job w. \<exists>ms. w_measured (fst (handler current saved_job w)) = w_measured w @ ms \<and>
     (\<forall>m \<in> set ms. \<not> measures_task m \<and> \<not> measures_iteration m))"

definition adds_conflicts :: "'s world \<Rightarrow> 's world \<Rightarrow> bool" where
  "adds_conflicts w w' \<longleftrightarrow> (\<exists>ms. w_measured w' = w_measured w @ ms \<and> (\<forall>m \<in> set ms. \<not> measures_task m \<and> \<not> measures_iteration m))"

lemma adds_conflicts_refl [simp]: "w_measured w' = w_measured w \<Longrightarrow> adds_conflicts w w'"
  by (simp add: adds_conflicts_def)

lemma adds_conflicts_trans: "adds_conflicts a b \<Longrightarrow> adds_conflicts b c \<Longrightarrow> adds_conflicts a c"
  unfolding adds_conflicts_def by (metis append.assoc set_append Un_iff)

lemma adds_conflicts_filters:
  assumes "adds_conflicts w w'"
  shows "filter measures_task (w_measured w') = filter measures_task (w_measured w)"
    and "filter measures_iteration (w_measured w') = filter measures_iteration (w_measured w)"
  using assms by (auto simp: adds_conflicts_def filter_empty_conv)

lemma conflicts_stolen: "conflicts_only stolen_handler"
  by (simp add: conflicts_only_def stolen_handler_def)

lemma conflicts_picked: "conflicts_only (picked_handler W inp i jc tc)"
  by (auto simp: conflicts_only_def picked_handler_def split: prod.splits sum.splits job_error.splits)

lemma conflicts_processed: "conflicts_only (processed_handler W inp i jc tc save_reason)"
  by (auto simp: conflicts_only_def processed_handler_def split: prod.splits sum.splits job_error.splits)

lemma attempt_conflicts:
  assumes "conflicts_only handler" and "save_attempt W code handler (w, held) = ((w', held'), r)"
  shows "adds_conflicts w w'"
proof (cases held)
  case (Some current)
  obtain s c' q where s: "st_save_job (wk_storage W) current (w_store w) = (s, c', q)" by (metis prod_cases3)
  obtain s2 g where g: "st_get_job (wk_storage W) code s = (s2, g)" by fastforce
  obtain w1 d where d: "handler c' (projr g) (w\<lparr>w_store := s2\<rparr>) = (w1, d)" by fastforce
  have "adds_conflicts w w1"
    using assms(1) d unfolding conflicts_only_def adds_conflicts_def by (metis fst_conv world.select_convs(4) world.update_convs(1) world.surjective)
  with assms(2) Some s g d show ?thesis
    by (cases q; cases g) (auto simp: save_attempt_def split: if_splits sum.splits merge_decision.splits)
qed (use assms(2) in \<open>simp add: save_attempt_def\<close>)

lemma save_conflicts:
  assumes "conflicts_only handler" and "save_job_state W inp handler j w = (w', Inr (j', outcome))"
  shows "adds_conflicts w w'"
proof -
  let ?h = "save_attempt W (job_code j) handler"
  from assms(2) have run: "retry_from internal_retry_error (wk_retrier W) (in_race inp (w_ticks w)) ?h 0 (tick w, Some j) =
      ((w', Some j'), Inr outcome)"
    by (auto simp: save_job_state_def retry_def split: prod.splits sum.splits option.splits)
  have "\<exists>s0. adds_conflicts w (fst s0) \<and> ?h s0 = ((w', Some j'), Inr (Done outcome))"
  proof (rule retry_invariant [OF _ _ run])
    show "adds_conflicts w (fst (tick w, Some j))" by simp
    fix s s' cause assume a: "adds_conflicts w (fst s)" "?h s = (s', Inr (Retry cause))"
    then show "adds_conflicts w (fst s')"
      using attempt_conflicts [OF assms(1), of W "job_code j" "fst s" "snd s" "fst s'" "snd s'"] adds_conflicts_trans by fastforce
  qed
  then obtain w0 held where s0: "adds_conflicts w w0" "?h (w0, held) = ((w', Some j'), Inr (Done outcome))" by auto
  from adds_conflicts_trans [OF s0(1) attempt_conflicts [OF assms(1) s0(2)]] show ?thesis .
qed

section \<open>A task counts once its result is stored\<close>

definition processed_duration :: "externs \<Rightarrow> task \<Rightarrow> duration" where
  "processed_duration x t = (case (task_completed_at t, task_started_at t) of
     (Some completed, Some started) \<Rightarrow> span_between x started completed | _ \<Rightarrow> 0)"

context worker_storage
begin

lemma result_measured:
  assumes W: "wk_storage W = st" and ok: "ok (w_store w)" and j: "keys_ok j"
    and t: "task_at j i = Some t" "processing_by_worker t = Some (wk_id W)" "resolution t = Some q"
    and r: "save_processed_task W inp i (processed_handler W inp i jc tc save_reason) j w = (w', Inr (j', outcome))"
  shows "filter measures_task (w_measured w') = filter measures_task (w_measured w) @
    (if outcome = Saved then [TaskProcessed (job_code j') (task_code t) q (processed_duration (in_externs inp) t)] else [])"
proof -
  obtain w1 where sv: "save_job_state W inp (processed_handler W inp i jc tc save_reason) j w = (w1, Inr (j', outcome))"
    and w': "w' = (if outcome = Saved then record_task_processed (in_externs inp) i j' w1 else w1)"
    by (rule save_processed_cases [OF r])
  note f = adds_conflicts_filters(1) [OF save_conflicts [OF conflicts_processed sv]]
  show ?thesis
  proof (cases "outcome = Saved")
    case True
    have "is_resolved t" using t(3) by (simp add: is_resolved_def)
    from result_written [OF W ok j t(1,2) this] r True have "task_at j' i = Some t" by blast
    with True t(3) f w' show ?thesis
      by (simp add: record_task_processed_def get_task_arc_def processed_duration_def)
  qed (use w' f in simp)
qed

end

text \<open>C7. Measured once it is stored. However often the save of a result is merged onto another worker's
  write, the task is counted as processed exactly once, under its own code and the resolution its
  worker recorded, when the save is accepted, and not at all when the task or the iteration was lost to
  another worker.\<close>
theorem result_measured_once:
  assumes "wk_storage W = shared_storage x" and "memory_ok (sm_memory (w_store w))" and "keys_ok j"
    and "task_at j i = Some t" and "processing_by_worker t = Some (wk_id W)" and "resolution t = Some q"
    and "save_processed_task W inp i (processed_handler W inp i jc tc save_reason) j w = (w', Inr (j', outcome))"
  shows "filter measures_task (w_measured w') = filter measures_task (w_measured w) @
    (if outcome = Saved then [TaskProcessed (job_code j') (task_code t) q (processed_duration (in_externs inp) t)] else [])"
  by (rule shared.result_measured [OF assms(1) _ assms(3-7)]) (fact assms(2))

section \<open>An iteration counts once the write that closed it is stored\<close>

lemma settled_measured:
  "filter measures_iteration (w_measured (job_iteration_settled x j w)) = filter measures_iteration (w_measured w) @
    (case iteration_verdict j of None \<Rightarrow> [] | Some verdict \<Rightarrow> [JobIterationComplete (job_code j) verdict
      (case completed_at j of None \<Rightarrow> 0 | Some completed \<Rightarrow> span_between x (started_at j) completed)])"
  by (simp add: job_iteration_settled_def record_job_iteration_def report_finished_iteration_def split: option.split)

lemma processed_filters: "filter measures_iteration (w_measured (record_task_processed x i j w)) = filter measures_iteration (w_measured w)"
  by (simp add: record_task_processed_def split: sum.split option.split)

text \<open>The write of a result closes at most one iteration, and measures it when it does.\<close>

lemma iteration_measured:
  assumes "save_task W inp i r j w = (w', Inr ended)"
  shows "\<exists>ms. filter measures_iteration (w_measured w') = filter measures_iteration (w_measured w) @ ms \<and> length ms \<le> 1 \<and>
    (\<forall>status. ended = EeIterationClosed status \<longrightarrow> length ms = 1)"
proof -
  from assms obtain t :: task where t: "find_task i j = Inr t" by (auto simp: save_task_def split: sum.splits)
  let ?save = "save_processed_task W inp i (processed_handler W inp i (job_code j) (task_code t) (save_reason_of r))
    (fst (try_settle_iteration (in_externs inp) (in_clock inp (w_ticks w)) (wk_id W) j)) (tick w)"
  obtain w1 q where run: "?save = (w1, q)" by fastforce
  from assms t run obtain j1 outcome where q: "q = Inr (j1, outcome)" by (cases q) (auto simp: save_task_def bindS_def)
  have s: "?save = (w1, Inr (j1, outcome))" using run q by simp
  have w': "w' = tick (if outcome = Saved then job_iteration_settled (in_externs inp) j1 w1 else w1)"
    using assms t s by (simp add: save_task_def bindS_def Let_def)
  have e: "outcome = Saved \<and> iteration_verdict j1 \<noteq> None" if "ended = EeIterationClosed status" for status
    using assms t s that
    by (simp add: save_task_def bindS_def Let_def find_iteration_status_def is_processed_def split: if_splits)
  obtain w2 where sv: "save_job_state W inp (processed_handler W inp i (job_code j) (task_code t) (save_reason_of r))
      (fst (try_settle_iteration (in_externs inp) (in_clock inp (w_ticks w)) (wk_id W) j)) (tick w) = (w2, Inr (j1, outcome))"
    and w1: "w1 = (if outcome = Saved then record_task_processed (in_externs inp) i j1 w2 else w2)"
    by (rule save_processed_cases [OF s])
  have "filter measures_iteration (w_measured w1) = filter measures_iteration (w_measured w)"
    using adds_conflicts_filters(2) [OF save_conflicts [OF conflicts_processed sv]] by (simp add: w1 processed_filters)
  with e show ?thesis
    by (cases "iteration_verdict j1") (auto simp: w' settled_measured)
qed

section \<open>A read of the cache is a hit or a miss\<close>

lemma inner_measured: "inner f s = (s', r) \<Longrightarrow> ca_measured s' = ca_measured s"
  by (auto simp: inner_def split: prod.splits)

lemma fetch_measured: "ca_measured (fst (fetch_job ch n c m s)) = ca_measured s"
proof (induction n arbitrary: m s)
  case 0
  then show ?case by simp
next
  case (Suc n)
  obtain s1 q where g: "inner (st_get_job_by_meta (ch_inner ch) m) s = (s1, q)" by fastforce
  obtain s2 f where h: "inner (st_find_job_meta (ch_inner ch) c) s1 = (s2, f)" by fastforce
  from inner_measured [OF g] inner_measured [OF h] g h Suc show ?case
    by (cases q; cases f) (simp_all add: bindS_def)
qed

lemma cached_read_measured:
  assumes "\<And>n s. ca_measured (ch_pool ch n s) = ca_measured s" and "cached_get_job ch c s = (s', Inr j)"
  shows "\<exists>m \<in> {CacheHit ''get_job'', CacheMiss ''get_job''}. ca_measured s' = ca_measured s @ [m]"
proof -
  have pool: "ca_measured (let_pool_run ch s) = ca_measured s" for s by (simp add: let_pool_run_def assms(1))
  have cold: "\<exists>m \<in> {CacheHit ''get_job'', CacheMiss ''get_job''}. ca_measured t' = ca_measured t @ [m]"
    if "cold_read ch c t = (t', Inr i)" for t t' i
  proof -
    from that obtain m t1 where f: "inner (st_find_job_meta (ch_inner ch) c) t = (t1, Inr m)"
      and rest: "t' = measure_read (CacheHit ''get_job'') (let_pool_run ch t1) \<or> (\<exists>t2. t' = replace_job i c t2 \<and>
        fetch_job ch 2 c m (measure_read (CacheMiss ''get_job'') (let_pool_run ch t1)) = (t2, Inr i))"
      by (auto simp: cold_read_def bindS_Inr_iff Let_def split: option.splits if_splits)
    have t1: "ca_measured t1 = ca_measured t" using f by (rule inner_measured)
    from rest show ?thesis
    proof (elim disjE exE conjE)
      fix t2 assume "t' = replace_job i c t2" "fetch_job ch 2 c m (measure_read (CacheMiss ''get_job'') (let_pool_run ch t1)) = (t2, Inr i)"
      with fetch_measured [of ch 2 c m "measure_read (CacheMiss ''get_job'') (let_pool_run ch t1)"] pool t1 show ?thesis
        by (simp add: replace_job_def measure_read_def)
    qed (use pool t1 in \<open>simp add: measure_read_def\<close>)
  qed
  have check: "\<exists>m \<in> {CacheHit ''get_job'', CacheMiss ''get_job''}. ca_measured t' = ca_measured t @ [m]"
    if "check_cached ch c cached t = (t', Inr i)" for cached t t' i
  proof -
    obtain t1 q where g: "inner (st_get_changed_job (ch_inner ch) (meta_of cached)) (let_pool_run ch t) = (t1, q)" by fastforce
    from inner_measured [OF this] have t1: "ca_measured t1 = ca_measured t" using pool by simp
    from that g have "cold_read ch c t1 = (t', Inr i) \<or> t' = measure_read (CacheHit ''get_job'') t1 \<or>
        (\<exists>t2. t2 = let_pool_run ch (measure_read (CacheMiss ''get_job'') t1) \<and> (t' = t2 \<or> t' = replace_job i c t2))"
      by (auto simp: check_cached_def Let_def split: sum.splits option.splits storage_error.splits if_splits)
    with cold [of t1 t' i] pool t1 show ?thesis by (auto simp: measure_read_def replace_job_def)
  qed
  from assms(2) have "cold_read ch c (s\<lparr>ca_steps := Suc (ca_steps s)\<rparr>) = (s', Inr j) \<or>
      (\<exists>cached. check_cached ch c cached (s\<lparr>ca_steps := Suc (ca_steps s)\<rparr>) = (s', Inr j))"
    by (auto simp: cached_get_job_def unless_stopped_def split: if_splits option.splits)
  then show ?thesis using cold check by fastforce
qed

section \<open>A worker on a shared storage\<close>

theorem result_measured_once_witness:
  "\<exists>w' j'. save_processed_task sample_worker sample_inputs 10
      (processed_handler sample_worker sample_inputs 10 ''job'' ''task'' ''save_failed_task'') sample_result sample_world = (w', Inr (j', Saved)) \<and>
    length (filter measures_task (w_measured w')) = 1"
proof -
  obtain w' j' where r: "save_processed_task sample_worker sample_inputs 10
      (processed_handler sample_worker sample_inputs 10 ''job'' ''task'' ''save_failed_task'') sample_result sample_world = (w', Inr (j', Saved))"
    using sample_saves [OF sample_result_meta refl] by (rule save_processed_Saved)
  have q: "\<exists>q. resolution (sample_failed\<lparr>task_id := 10\<rparr>) = Some q" using sample_result_task(3) by (simp add: is_resolved_def)
  then obtain q where q: "resolution (sample_failed\<lparr>task_id := 10\<rparr>) = Some q" ..
  have "w_measured sample_world = []" by (simp add: sample_world_def)
  with result_measured_once [OF sample_worker_storage sample_memory_ok sample_result_keys sample_result_task(1,2) q r] r
  show ?thesis by auto
qed

end
