(* ===== verification/JM_Life.thy ===== *)
theory JM_Life
  imports JM_Worker_Props
begin

text \<open>
  The life of a job as a state machine: it is created from an accepted description, its tasks are picked,
  started, executed by whatever an executor does through its handle, resolved, settled, stored and read
  back by whichever worker comes next, and its iterations follow one another. Every state on the way satisfies
  the invariant of \<^verbatim>\<open>JM_Job_Wf\<close>. This is the life of one copy; a merge of two keeps the tasks keyed and each in an allowed state.
\<close>

section \<open>The steps\<close>

text \<open>A job nobody executes a task of, one whose copy a worker executes a task on, and one whose execution was recorded.\<close>

datatype life = Idle job | Running uuid uuid job | Ended job

fun life_job :: "life \<Rightarrow> job" where
  "life_job (Idle j) = j"
| "life_job (Running p w j) = j"
| "life_job (Ended j) = j"

inductive job_life :: "externs \<Rightarrow> life \<Rightarrow> bool" for x where
  created: "definition_wf jd \<Longrightarrow> inj_on fresh {..<length (initial_tasks jd)} \<Longrightarrow>
    job_new x now new_id fresh jd meta w = Inr j \<Longrightarrow> job_life x (Idle j)"
| picked: "job_life x (Idle j) \<Longrightarrow> pick_task_to_execute x c w j = (j', r) \<Longrightarrow> job_life x (Idle j')"
| started: "job_life x (Idle j) \<Longrightarrow> start_task x now i w j = (j', Inr ()) \<Longrightarrow> job_life x (Running i w j')"
| executed: "job_life x (Running p w j) \<Longrightarrow> inj (\<lambda>n. call_id (ci n)) \<Longrightarrow> \<forall>n. task_at j (call_id (ci n)) = None \<Longrightarrow>
    run_program prog x ci \<lparr>h_worker_id = w, h_task_id = p\<rparr> 0 (handle_state_new j) = (hs, returned) \<Longrightarrow>
    apply_executor_outcome now later_now w p returned (hs_job (close_handle hs)) = (j', Inr q) \<Longrightarrow> job_life x (Ended j')"
| settled: "job_life x (Ended j) \<Longrightarrow> try_settle_iteration x c w j = (j', b) \<Longrightarrow> job_life x (Ended j')"
| reread: "job_life x l \<Longrightarrow> job_life x (Idle (copy_persisted_state x (update_version v (life_job l))))"
| advanced: "job_life x (Idle j) \<Longrightarrow> definition_wf jd \<Longrightarrow> inj_on fresh {..<length (initial_tasks jd)} \<Longrightarrow>
    next_iteration x c new_id fresh jd w j = (j', Inr ()) \<Longrightarrow> job_life x (Idle j')"

section \<open>The invariant\<close>

text \<open>No task is attributed to a running execution.\<close>

definition unattributed :: "job \<Rightarrow> bool" where
  "unattributed j \<longleftrightarrow> job_wf j \<and> (\<forall>i t. task_at j i = Some t \<longrightarrow> created_by_task t = None)"

interpretation unattributed: kept_by_transitions unattributed
proof unfold_locales
  show "unattributed (put_task i t' j)" if "unattributed j" "task_at j i = Some t" "keeps f" "f t = Inr t'" for j i t f t'
    using that wf.put [of j i t f t'] by (auto simp: unattributed_def keeps_def)
  show "unattributed j'" if "unattributed j" "tasks_by_id j' = tasks_by_id j" "job_code j' = job_code j" for j j'
    using that wf.only_tasks [of j j'] by (simp add: unattributed_def)
qed

lemma unattributed_new:
  assumes "definition_wf jd" and "inj_on fresh {..<length (initial_tasks jd)}" and "job_new x now new_id fresh jd meta w = Inr j"
  shows "unattributed j"
proof -
  from job_new_wf [OF assms(1,2), of x now new_id meta w] assms(3) have "job_wf j"
    and at: "\<And>i t. task_at j i = Some t \<Longrightarrow> \<exists>p. t = initial_task x w fresh (initial_tasks jd) p" by auto
  moreover have "created_by_task (initial_task x w fresh (initial_tasks jd) p) = None" for p
    by (simp add: initial_task_def task_new_def)
  ultimately show ?thesis unfolding unattributed_def by metis
qed

lemma unattributed_next:
  assumes "definition_wf jd" and "inj_on fresh {..<length (initial_tasks jd)}"
    and "next_iteration x c new_id fresh jd w j = (j', Inr ())"
  shows "unattributed j'"
proof -
  from assms(3) obtain n where n: "job_new x (read c 1) new_id fresh jd (metadata j) w = Inr n"
    and j': "j' = n\<lparr>job_id := job_id j, iter_num := iter_num j + 1, started_at := read c 2\<rparr>"
    by (auto simp: next_iteration_def split: if_splits sum.splits)
  show ?thesis by (rule unattributed.only_tasks [OF unattributed_new [OF assms(1,2) n]]) (simp_all add: j')
qed

lemma unattributed_reread:
  assumes "job_wf j"
  shows "unattributed (copy_persisted_state x (update_version v j))"
proof -
  have wf: "job_wf (update_version v j)" using assms by (simp add: update_version_def)
  have "created_by_task t = None" if "task_at (copy_persisted_state x (update_version v j)) i = Some t" for i t
    using that by (auto simp: task_at_copy [OF job_wf_keys [OF wf]] persisted_task_def)
  with job_wf_copy [OF wf] show ?thesis by (simp add: unattributed_def)
qed

lemma executing_started:
  assumes "unattributed j" and "start_task x now i w j = (j', Inr ())"
  shows "executing i w j'"
proof -
  have "unattributed j'" using unattributed.kept_start_task [OF assms(1), of x now i w] assms(2) by simp
  with start_task_at [OF assms(2)] show ?thesis
    by (fastforce simp: executing_def execution_of_def unattributed_def)
qed

fun life_ok :: "life \<Rightarrow> bool" where
  "life_ok (Idle j) \<longleftrightarrow> unattributed j"
| "life_ok (Running p w j) \<longleftrightarrow> executing p w j"
| "life_ok (Ended j) \<longleftrightarrow> job_wf j"

lemma life_ok_wf: "life_ok l \<Longrightarrow> job_wf (life_job l)"
  by (cases l) (auto simp: unattributed_def executing_def)

lemma job_life_ok: "job_life x l \<Longrightarrow> life_ok l"
proof (induction rule: job_life.induct)
  case (executed p w j ci prog hs returned now later_now j' q)
  have open_hs: "hs_job (handle_state_new j) = j" "is_open (handle_state_new j)" by (simp_all add: handle_state_new_def)
  have "executing p w (hs_job hs) \<and> only_own_resolved w (hs_job (handle_state_new j)) (hs_job hs)"
    by (rule run_step [OF _ open_hs(2) executed.hyps(2) _ executed.hyps(4)]) (use executed open_hs(1) in auto)
  then have "executing p w (hs_job (close_handle hs))" by (simp add: close_handle_def)
  from outcome_resolves [OF this, of now later_now returned] executed.hyps(5) have "executing p w j'" by auto
  then show ?case by (simp add: executing_def)
next
  case (created jd fresh now new_id meta w j)
  then show ?case by (simp add: unattributed_new)
next
  case (picked j c w j' r)
  then show ?case using unattributed.kept_pick_task_to_execute [of j x c w] by simp
next
  case (started j now i w j')
  then show ?case using executing_started by simp
next
  case (settled j c w j' b)
  then show ?case using wf.kept_try_settle_iteration [of j x c w] by simp
next
  case (reread l v)
  then show ?case by (simp add: unattributed_reread life_ok_wf)
next
  case (advanced j jd fresh c new_id w j')
  then show ?case by (simp add: unattributed_next)
qed

text \<open>C6. The invariant of a job. Whatever a job goes through, created from an accepted description, picked from, its
  tasks started and executed by an executor that may do anything its handle offers and return,
  fail or panic, settled, stored and read back by any worker at any of these moments, and followed by its next
  iteration: the map of its tasks is keyed by their identifiers without doubles, every task is in a state
  its status allows, and the dependencies stay within the job and are free of cycles. The two merges after a lost race,
  which bring two such states together, are not among these steps; they keep the first two of the three.\<close>
theorem job_life_wf:
  assumes "job_life x l"
  shows "distinct (map fst (tasks_by_id (life_job l))) \<and>
    (\<forall>i t. task_at (life_job l) i = Some t \<longrightarrow> task_id t = i \<and> task_wf t) \<and>
    ranked (dependency_edges (life_job l)) (dom (task_at (life_job l)))"
  using life_ok_wf [OF job_life_ok [OF assms]] by (simp add: job_wf_def)

section \<open>Merges\<close>

text \<open>
  A merge brings a worker's copy and the stored state together, so it keeps what holds of each task by itself: the
  tasks stay keyed by their identifiers and in states their statuses allow.
\<close>

definition tasks_ok :: "job \<Rightarrow> bool" where
  "tasks_ok j \<longleftrightarrow> keys_ok j \<and> (\<forall>i t. task_at j i = Some t \<longrightarrow> task_wf t)"

interpretation tasks: kept_by_transitions tasks_ok
proof unfold_locales
  show "tasks_ok (put_task i t' j)" if "tasks_ok j" "task_at j i = Some t" "keeps f" "f t = Inr t'" for j i t f t'
    using that keys.put [of j i t f t'] by (auto simp: tasks_ok_def keeps_def)
  show "tasks_ok j'" if "tasks_ok j" "tasks_by_id j' = tasks_by_id j" "job_code j' = job_code j" for j j'
    using that keys.only_tasks [of j j'] by (simp add: tasks_ok_def)
qed

lemma tasks_ok_put: "tasks_ok j \<Longrightarrow> task_id t = i \<Longrightarrow> task_wf t \<Longrightarrow> tasks_ok (put_task i t j)"
  by (simp add: tasks_ok_def keys_ok_put)

lemma tasks_ok_at: "tasks_ok j \<Longrightarrow> task_at j i = Some t \<Longrightarrow> task_id t = i \<and> task_wf t"
  by (simp add: tasks_ok_def keys_ok_def)

lemma merge_tasks_ok:
  assumes "tasks_ok wj" and "tasks_ok j"
  shows "tasks_ok (merge_tasks wj w j)"
proof -
  have "tasks_ok (fold (\<lambda>(i, t) j. if merges_over j w i t then put_task i t j else j) xs j)"
    if "\<And>i t. (i, t) \<in> set xs \<Longrightarrow> task_id t = i \<and> task_wf t" for xs
    using assms(2) that
  proof (induction xs arbitrary: j)
    case (Cons p xs)
    obtain i t where p: "p = (i, t)" by fastforce
    from Cons.prems(2) [of i t] Cons.prems(1) have "tasks_ok (if merges_over j w i t then put_task i t j else j)"
      by (simp add: p tasks_ok_put)
    from Cons.IH [OF this Cons.prems(2)] show ?case by (simp add: p)
  qed simp
  moreover have "task_id t = i \<and> task_wf t" if "(i, t) \<in> set (tasks_by_id wj)" for i t
  proof -
    from assms(1) have "distinct (map fst (tasks_by_id wj))" by (simp add: tasks_ok_def keys_ok_def)
    from tasks_ok_at [OF assms(1) map_of_is_SomeI [OF this that]] show ?thesis .
  qed
  ultimately show ?thesis by (simp add: merge_tasks_def)
qed

lemma merge_processed_tasks_ok:
  assumes "tasks_ok wj" and "tasks_ok j"
  shows "tasks_ok (fst (merge_with_processed_task x c wj w i j))"
proof -
  have "tasks_ok ((merge_tasks wj w j)\<lparr>updated_by_worker_id := w\<rparr>)"
    by (rule tasks.only_tasks [OF merge_tasks_ok [OF assms]]) simp_all
  then have "tasks_ok (fst (bindS (ensure_running (read c 0) w) (\<lambda>_.
      bindS (modifyS (\<lambda>j. j\<lparr>
          running_at := (case running_at wj of Some r \<Rightarrow> Some r | None \<Rightarrow> running_at j),
          next_start_at := (case next_start_at wj of Some n \<Rightarrow> Some n | None \<Rightarrow> next_start_at j)\<rparr>)) (\<lambda>_.
      bindS (try_settle_iteration x (later 1 c) w) (\<lambda>_. returnS ())))
        ((merge_tasks wj w j)\<lparr>updated_by_worker_id := w\<rparr>)))"
    by (intro tasks.kept_bindS tasks.kept_ensure_running tasks.kept_modifyS tasks.kept_try_settle_iteration)
      (auto simp: returnS_def)
  with assms(2) show ?thesis by (auto simp: merge_with_processed_task_def split: sum.splits)
qed

lemma merge_picked_tasks_ok:
  assumes "tasks_ok wj" and "tasks_ok j"
  shows "tasks_ok (fst (merge_with_picked_task x c wj w i j))"
proof -
  have "tasks_ok (fst (bindS (fail_tasks_by_lifetime x c) (\<lambda>_. bindS (skip_unreachable_tasks x c (read c 1)) (\<lambda>_.
      modifyS (\<lambda>j. (put_task i t j)\<lparr>updated_by_worker_id := w,
        running_at := (if running_at j = None then running_at wj else running_at j)\<rparr>))) (j\<lparr>job_status := s\<rparr>)))"
    if "task_at wj i = Some t" for t s
  proof (intro tasks.kept_bindS tasks.kept_fail_tasks_by_lifetime tasks.kept_skip_unreachable_tasks)
    fix k assume "tasks_ok k"
    with tasks_ok_at [OF assms(1) that] have "tasks_ok (put_task i t k)" by (simp add: tasks_ok_put)
    then show "tasks_ok (fst (modifyS (\<lambda>j. (put_task i t j)\<lparr>updated_by_worker_id := w,
        running_at := (if running_at j = None then running_at wj else running_at j)\<rparr>) k))"
      unfolding modifyS_def fst_conv by (rule tasks.only_tasks) simp_all
  qed (use assms(2) tasks.only_tasks [of j "j\<lparr>job_status := s\<rparr>"] in simp_all)
  with assms(2) show ?thesis
    by (auto simp: merge_with_picked_task_def get_task_arc_def split: if_splits sum.splits option.splits)
qed

lemma sample_lives: "job_life std_externs (Running 10 7 sample_start_saved)"
proof -
  have "job_life std_externs (Idle sample_job)"
    by (rule job_life.created [OF sample_definition_wf sample_inj sample_job_new])
  from job_life.reread [OF this, of "''1''"] have "job_life std_externs (Idle sample_reread)" by (simp add: sample_reread_def)
  from job_life.started [OF job_life.picked [OF this sample_picked_run(1)] sample_start_run(1)] show ?thesis .
qed

theorem job_life_wf_witness:
  "job_life std_externs (Running 10 7 sample_start_saved) \<and> distinct (map fst (tasks_by_id sample_start_saved))"
  using job_life_wf [OF sample_lives] sample_lives by simp

end
