(* ===== verification/JM_Quota.thy ===== *)
theory JM_Quota
  imports JM_Object JM_Metrics
begin

text \<open>
  What an operation of the object storage (\<^verbatim>\<open>storage/object_storage.rs\<close>) costs: a provider that
  counts its requests shows how many one call makes at most, however they are refused, repeated or cut off, and
  that counting them changes nothing else.
\<close>

section \<open>A provider that counts\<close>

definition counted_backend :: "'b backend \<Rightarrow> ('b \<times> nat) backend" where
  "counted_backend be =
     \<lparr>be_listing_start_bound = be_listing_start_bound be, be_list_page_size = be_list_page_size be,
      be_put_object = (\<lambda>k body cond. counting (be_put_object be k body cond)),
      be_get_object = (\<lambda>k v. counting (be_get_object be k v)),
      be_get_changed_object = (\<lambda>k v. counting (be_get_changed_object be k v)),
      be_list_objects = (\<lambda>req. counting (be_list_objects be req)),
      be_delete_objects = (\<lambda>ks. counting (be_delete_objects be ks))\<rparr>"

definition counted_storage :: "'b object_storage \<Rightarrow> ('b \<times> nat) object_storage" where
  "counted_storage os =
     \<lparr>os_store = counted_backend (os_store os), os_keys = os_keys os, os_codec = os_codec os, os_registry = os_registry os,
      os_retrier = os_retrier os, os_externs = os_externs os, os_cancelled = os_cancelled os, os_race = os_race os,
      os_pages = os_pages os\<rparr>"

definition spent :: "('b \<times> nat) object_state \<Rightarrow> nat" where
  "spent s = snd (ob_backend s)"

text \<open>The state without the count, and an operation that is another one with a count.\<close>

definition uncounted :: "('b \<times> nat) object_state \<Rightarrow> 'b object_state" where
  "uncounted s = \<lparr>ob_backend = fst (ob_backend s), ob_steps = ob_steps s\<rparr>"

definition mirrors :: "('b \<times> nat, 'a) object_op \<Rightarrow> ('b, 'a) object_op \<Rightarrow> bool" where
  "mirrors f g \<longleftrightarrow> (\<forall>s. g (uncounted s) = (uncounted (fst (f s)), snd (f s)))"

lemma counted_fields [simp]:
  "os_keys (counted_storage os) = os_keys os" "os_codec (counted_storage os) = os_codec os"
  "os_registry (counted_storage os) = os_registry os" "os_retrier (counted_storage os) = os_retrier os"
  "os_externs (counted_storage os) = os_externs os" "os_cancelled (counted_storage os) = os_cancelled os"
  "os_race (counted_storage os) = os_race os" "os_pages (counted_storage os) = os_pages os"
  "be_put_object (os_store (counted_storage os)) k body cond = counting (be_put_object (os_store os) k body cond)"
  "be_get_object (os_store (counted_storage os)) k v = counting (be_get_object (os_store os) k v)"
  "be_get_changed_object (os_store (counted_storage os)) k v = counting (be_get_changed_object (os_store os) k v)"
  "be_list_objects (os_store (counted_storage os)) req = counting (be_list_objects (os_store os) req)"
  "be_delete_objects (os_store (counted_storage os)) ks = counting (be_delete_objects (os_store os) ks)"
  "be_listing_start_bound (os_store (counted_storage os)) = be_listing_start_bound (os_store os)"
  "be_list_page_size (os_store (counted_storage os)) = be_list_page_size (os_store os)"
  by (simp_all add: counted_storage_def counted_backend_def)

lemma counted_helpers [simp]:
  "serialize_job (counted_storage os) = serialize_job os" "deserialize_job (counted_storage os) = deserialize_job os"
  "newest_of (counted_storage os) = newest_of os" "newest_request (counted_storage os) = newest_request os"
  "outdated_in (counted_storage os) = outdated_in os" "build_listing_start_key (counted_storage os) = build_listing_start_key os"
  by (simp_all add: fun_eq_iff serialize_job_def deserialize_job_def newest_of_def newest_request_def outdated_in_def
      build_listing_start_key_def split: list.split option.split listing_start_bound.split)

lemma uncounted_fields [simp]:
  "ob_steps (uncounted s) = ob_steps s" "ob_backend (uncounted s) = fst (ob_backend s)"
  "uncounted (s\<lparr>ob_steps := n\<rparr>) = (uncounted s)\<lparr>ob_steps := n\<rparr>" "spent (s\<lparr>ob_steps := n\<rparr>) = spent s"
  by (simp_all add: uncounted_def spent_def)

section \<open>Counting changes nothing else\<close>

named_theorems mirrored

lemma mirrorsD: "mirrors f g \<Longrightarrow> f s = (s', r) \<Longrightarrow> g (uncounted s) = (uncounted s', r)"
  by (simp add: mirrors_def)

lemma mirrors_pure [mirrored]: "mirrors (\<lambda>s. (s, r)) (\<lambda>s. (s, r))"
  by (simp add: mirrors_def)

lemma mirrors_request [mirrored]: "mirrors (request (counting f)) (request f)"
  by (auto simp: mirrors_def request_def counting_def uncounted_def split: prod.splits)

lemma mirrors_unless [mirrored]: "mirrors f g \<Longrightarrow> mirrors (unless_cancelled (counted_storage os) f) (unless_cancelled os g)"
  by (auto simp: mirrors_def unless_cancelled_def) (metis uncounted_fields(3))+

lemma mirrors_bindS [mirrored]:
  assumes "mirrors f g" and "\<And>a. mirrors (f' a) (g' a)"
  shows "mirrors (bindS f f') (bindS g g')"
  unfolding mirrors_def
proof
  fix s
  obtain s1 r where f: "f s = (s1, r)" by fastforce
  from mirrorsD [OF assms(1) this] f assms(2) show "bindS g g' (uncounted s) = (uncounted (fst (bindS f f' s)), snd (bindS f f' s))"
    by (cases r) (simp_all add: bindS_def mirrors_def)
qed

lemma mirrors_retry_from:
  assumes "mirrors h k"
  shows "retry_from re cfg (race_against r k) k tries (uncounted s) =
    (uncounted (fst (retry_from re cfg (race_against r h) h tries s)), snd (retry_from re cfg (race_against r h) h tries s))"
proof (induction "max_attempts_cfg cfg - tries" arbitrary: tries s rule: less_induct)
  case less
  obtain s' q where h: "h s = (s', q)" by fastforce
  note k = mirrorsD [OF assms h]
  show ?case
  proof (cases "\<exists>cause. q = Inr (Retry cause) \<and> tries + 1 < max_attempts_cfg cfg \<and>
      \<not> race_call r tries \<and> \<not> race_sleep r (tries + 1)")
    case True
    then have "retry_from re cfg (race_against r h) h tries s = retry_from re cfg (race_against r h) h (tries + 1) s'"
      "retry_from re cfg (race_against r k) k tries (uncounted s) = retry_from re cfg (race_against r k) k (tries + 1) (uncounted s')"
      by (subst retry_from.simps, auto simp: h k race_against_def)+
    moreover have "max_attempts_cfg cfg - (tries + 1) < max_attempts_cfg cfg - tries" using True by linarith
    ultimately show ?thesis using less [of "tries + 1" s'] by simp
  next
    case False
    then show ?thesis
      by (subst (1 2 3) retry_from.simps) (auto simp: h k race_against_def split: sum.splits retry_step.splits)
  qed
qed

lemma mirrors_retried [mirrored]: "mirrors h k \<Longrightarrow> mirrors (retried (counted_storage os) h) (retried os k)"
  unfolding mirrors_def [of "retried (counted_storage os) h"]
  using mirrors_retry_from [of h k storage_retry_error "os_retrier os" _ 0 "s\<lparr>ob_steps := n\<rparr>" for s n]
  by (simp add: retried_def retry_def)

lemma mirrors_find [mirrored]: "mirrors (obj_find_job_meta (counted_storage os) c) (obj_find_job_meta os c)"
  unfolding obj_find_job_meta_def by (simp, intro mirrored)

lemma mirrors_by_meta [mirrored]: "mirrors (obj_get_job_by_meta (counted_storage os) m) (obj_get_job_by_meta os m)"
  unfolding obj_get_job_by_meta_def by (simp, intro mirrored)

lemma mirrors_changed [mirrored]: "mirrors (obj_get_changed_job (counted_storage os) m) (obj_get_changed_job os m)"
  unfolding obj_get_changed_job_def counted_helpers counted_fields by (intro mirrored)

lemma mirrors_read_attempt [mirrored]: "mirrors (read_attempt (counted_storage os) c) (read_attempt os c)"
  unfolding mirrors_def
proof
  fix s
  obtain s1 r where f: "obj_find_job_meta (counted_storage os) c s = (s1, r)" by fastforce
  obtain s2 q where g: "obj_get_job_by_meta (counted_storage os) (projr r) s1 = (s2, q)" by fastforce
  from mirrorsD [OF mirrors_find f] mirrorsD [OF mirrors_by_meta g] f g
  show "read_attempt os c (uncounted s) = (uncounted (fst (read_attempt (counted_storage os) c s)), snd (read_attempt (counted_storage os) c s))"
    by (cases r; cases q) (auto simp: read_attempt_def)
qed

lemma mirrors_get [mirrored]: "mirrors (obj_get_job (counted_storage os) c) (obj_get_job os c)"
  unfolding obj_get_job_def by (intro mirrored)

lemma mirrors_write_attempt [mirrored]: "mirrors (write_attempt (counted_storage os) k body cond) (write_attempt os k body cond)"
  unfolding mirrors_def
proof
  fix s
  obtain s1 r where f: "request (counting (be_put_object (os_store os) k body cond)) s = (s1, r)" by fastforce
  from mirrorsD [OF mirrors_request f] f
  show "write_attempt os k body cond (uncounted s) =
      (uncounted (fst (write_attempt (counted_storage os) k body cond s)), snd (write_attempt (counted_storage os) k body cond s))"
    by (cases r) (auto simp: write_attempt_def)
qed

section \<open>What a call costs\<close>

definition within :: "nat \<Rightarrow> ('b \<times> nat, 'a) object_op \<Rightarrow> bool" where
  "within d f \<longleftrightarrow> (\<forall>s. spent (fst (f s)) \<le> spent s + d)"

named_theorems costs

lemma within_pure [costs]: "within 0 (\<lambda>s. (s, r))"
  by (simp add: within_def)

lemma within_request [costs]: "within 1 (request (counting f))"
  by (auto simp: within_def request_def counting_def spent_def split: prod.splits)

lemma within_unless [costs]: "within d f \<Longrightarrow> within d (unless_cancelled os f)"
  unfolding within_def unless_cancelled_def by (auto, metis uncounted_fields(4))

lemma within_bindS [costs]:
  assumes "within d f" and "\<And>a. within e (g a)"
  shows "within (d + e) (bindS f g)"
  unfolding within_def
proof
  fix s
  obtain s1 r where f: "f s = (s1, r)" by fastforce
  with assms(1) have s1: "spent s1 \<le> spent s + d" by (metis within_def fst_conv)
  have "spent (fst (g a s1)) \<le> spent s + (d + e)" for a
  proof -
    have "spent (fst (g a s1)) \<le> spent s1 + e" using assms(2) by (simp add: within_def)
    with s1 show ?thesis by simp
  qed
  with s1 show "spent (fst (bindS f g s)) \<le> spent s + (d + e)"
    using f by (cases r) (auto simp: bindS_def)
qed

lemma within_answer: "within 1 (bindS (request (counting f)) (\<lambda>a s. (s, g a)))"
proof -
  have "within (1 + 0) (bindS (request (counting f)) (\<lambda>a s. (s, g a)))" by (intro within_bindS within_request within_pure)
  then show ?thesis by simp
qed

lemma within_retried [costs]:
  assumes "within d h"
  shows "within (d * max 1 (max_attempts_cfg (os_retrier os))) (retried os h)"
  using retry_cost [of spent h d storage_retry_error "os_retrier os" _ 0] assms
  by (auto simp: within_def retried_def retry_def) (metis uncounted_fields(4))

lemma cost_find [costs]: "within 1 (obj_find_job_meta (counted_storage os) c)"
  unfolding obj_find_job_meta_def counted_fields
  by (intro within_unless within_answer)

lemma cost_by_meta [costs]: "within 1 (obj_get_job_by_meta (counted_storage os) m)"
  unfolding obj_get_job_by_meta_def counted_fields
  by (intro within_unless within_answer)

lemma cost_changed: "within 1 (obj_get_changed_job (counted_storage os) m)"
  unfolding obj_get_changed_job_def counted_fields
  by (intro within_unless within_answer)

lemma cost_read_attempt [costs]: "within 2 (read_attempt (counted_storage os) c)"
  unfolding within_def
proof
  fix s
  obtain s1 r where f: "obj_find_job_meta (counted_storage os) c s = (s1, r)" by fastforce
  obtain s2 q where g: "obj_get_job_by_meta (counted_storage os) (projr r) s1 = (s2, q)" by fastforce
  have "spent s1 \<le> spent s + 1" "spent s2 \<le> spent s1 + 1"
    using cost_find [of os c] cost_by_meta [of os "projr r"] f g unfolding within_def by (metis fst_conv)+
  with f g show "spent (fst (read_attempt (counted_storage os) c s)) \<le> spent s + 2"
    by (cases r; cases q) (auto simp: read_attempt_def)
qed

lemma cost_get: "within (2 * max 1 (max_attempts_cfg (os_retrier os))) (obj_get_job (counted_storage os) c)"
  unfolding obj_get_job_def using within_unless [OF within_retried [OF cost_read_attempt, of "counted_storage os"]] by simp

lemma cost_write_attempt: "within 1 (write_attempt (counted_storage os) k body cond)"
  unfolding within_def
proof
  fix s
  obtain s1 r where f: "request (counting (be_put_object (os_store os) k body cond)) s = (s1, r)" by fastforce
  with within_request [of "be_put_object (os_store os) k body cond"] have "spent s1 \<le> spent s + 1"
    unfolding within_def by (metis fst_conv)
  with f show "spent (fst (write_attempt (counted_storage os) k body cond s)) \<le> spent s + 1"
    by (cases r) (auto simp: write_attempt_def)
qed

lemma cost_save:
  assumes "obj_save_job (counted_storage os) j s = (s', j', r)"
  shows "spent s' \<le> spent s + max 1 (max_attempts_cfg (os_retrier os))"
proof -
  let ?k = "build_job_iteration_path (os_keys os) (job_code j) (iter_num j)"
  let ?f = "unless_cancelled (counted_storage os) (\<lambda>s. case serialize_job os j of Inl e \<Rightarrow> (s, Inl e)
    | Inr body \<Rightarrow> retried (counted_storage os) (write_attempt (counted_storage os) ?k body (write_condition j)) s)"
  have w: "within (max 1 (max_attempts_cfg (os_retrier os))) ?f"
  proof (cases "serialize_job os j")
    case (Inr body)
    from within_unless [OF within_retried [OF cost_write_attempt, of "counted_storage os"]] Inr show ?thesis by simp
  qed (simp add: within_def unless_cancelled_def)
  obtain t q where f: "?f s = (t, q)" by fastforce
  have t: "t = s'"
    using assms unfolding obj_save_job_def counted_fields counted_helpers f by (cases q) simp_all
  from w have "spent (fst (?f s)) \<le> spent s + max 1 (max_attempts_cfg (os_retrier os))"
    unfolding within_def by (rule spec)
  then show ?thesis unfolding f t by (simp only: fst_conv)
qed

lemma mirrors_save:
  assumes "obj_save_job (counted_storage os) j s = (s', j', r)"
  shows "obj_save_job os j (uncounted s) = (uncounted s', j', r)"
proof -
  let ?k = "build_job_iteration_path (os_keys os) (job_code j) (iter_num j)"
  let ?f = "\<lambda>os. unless_cancelled os (\<lambda>s. case serialize_job os j of Inl e \<Rightarrow> (s, Inl e)
    | Inr body \<Rightarrow> retried os (write_attempt os ?k body (write_condition j)) s)"
  have "mirrors (?f (counted_storage os)) (?f os)"
    by (cases "serialize_job os j") (simp_all add: mirrored)
  moreover obtain t q where f: "?f (counted_storage os) s = (t, q)" by fastforce
  ultimately have g: "?f os (uncounted s) = (uncounted t, q)" by (rule mirrorsD)
  show ?thesis
    using assms unfolding obj_save_job_def counted_fields f g by (cases q) simp_all
qed

lemma cost_delete: "within 1 (obj_delete_job_iterations (counted_storage os) c ns)"
  unfolding obj_delete_job_iterations_def counted_fields
  using within_request by (intro within_unless) (auto simp: within_def)

lemma cost_pages: "within pages (list_pages (counted_storage os) pages p start_key boundary found cursor)"
proof (induction pages arbitrary: found cursor)
  case 0
  have "list_pages (counted_storage os) 0 p start_key boundary found cursor =
      (\<lambda>s. (s, Inl (StorageOther ''listing is followed over no more pages'')))" by (simp add: fun_eq_iff)
  then show ?case by (simp only: costs)
next
  case (Suc pages)
  have "within pages (\<lambda>s. let found' = found @ outdated_in os boundary (lp_objects page) in case lp_next_cursor page of
      None \<Rightarrow> (s, Inr found') | Some next_cursor \<Rightarrow>
        list_pages (counted_storage os) pages p start_key boundary found' (Some next_cursor) s)" for page
    using Suc by (cases "lp_next_cursor page") (auto simp: within_def Let_def)
  from within_unless [OF within_bindS [OF within_request this]] show ?case
    by (simp add: within_def)
qed

lemma cost_list: "within (os_pages os) (obj_list_job_outdated_iterations (counted_storage os) c boundary)"
  unfolding obj_list_job_outdated_iterations_def
  using cost_pages [of "os_pages os" os "build_job_prefix (os_keys os) c" _ boundary "[]" None]
  by (intro within_unless) (simp add: within_def split: sum.split)

section \<open>What a request is recorded as\<close>

text \<open>The last step of \<^verbatim>\<open>send_request\<close>: the request is recorded under its operation and the status it amounts to.\<close>

definition record_request :: "string \<Rightarrow> duration \<Rightarrow> string option \<Rightarrow> measurement list" where
  "record_request operation elapsed status = (case status of
      None \<Rightarrow> [] | Some label \<Rightarrow> [StorageOperation operation label elapsed])"

text \<open>A request that left the process is recorded exactly once, one that did not is not recorded.\<close>

definition left_process :: "'e provider_error \<Rightarrow> 'a expected_answer \<Rightarrow> bool \<Rightarrow> ('a, 'e) flight \<Rightarrow> bool" where
  "left_process pe accepted cancelled f \<longleftrightarrow> \<not> cancelled \<and> (case f of
      Landed (Inl e) \<Rightarrow> recorded_status pe e \<noteq> RequestNotSent \<or> ((\<exists>a. accepted = ExpectObjectGone a) \<and> is_object_gone pe e)
    | _ \<Rightarrow> True)"

lemma into_label_None: "into_label status = None \<longleftrightarrow> status = RequestNotSent"
  by (cases status) simp_all

lemma request_recorded_once:
  "length (record_request operation elapsed (fst (send_request pe accepted cancelled f))) =
     (if left_process pe accepted cancelled f then 1 else 0)"
proof -
  have "record_request operation elapsed (fst (send_request pe accepted cancelled f)) = [] \<longleftrightarrow> \<not> left_process pe accepted cancelled f"
    by (cases "(cancelled, f)" rule: send_request_internal.cases; cases accepted)
      (auto simp: send_request_def left_process_def record_request_def into_label_None split: option.splits)
  moreover have "length (record_request operation elapsed status) \<le> 1" for status
    by (simp add: record_request_def split: option.split)
  ultimately show ?thesis by (auto simp: le_Suc_eq)
qed

section \<open>The bounds\<close>


end
