(* ===== verification/JM_Cached_Worker.thy ===== *)
theory JM_Cached_Worker
  imports JM_Cached JM_Worker_Props
begin

text \<open>
  A worker behind the cache (\<^verbatim>\<open>storage/cached.rs\<close>): a cache around a storage a worker may use is
  one itself, whatever the other workers of the pool do to the cache meanwhile, as long as they file jobs
  under their own codes.
\<close>

section \<open>What the cache keeps true of itself\<close>

definition labelled_job :: "job_code \<Rightarrow> job \<Rightarrow> bool" where
  "labelled_job c j \<longleftrightarrow> job_code j = c \<and> keys_ok j"

definition cache_labelled :: "('s \<Rightarrow> bool) \<Rightarrow> 's cached_state \<Rightarrow> bool" where
  "cache_labelled ok s \<longleftrightarrow> ok (ca_inner s) \<and> (\<forall>c j. ca_cache s c = Some j \<longrightarrow> labelled_job c j)"

lemma cache_labelled_steps [simp]: "cache_labelled ok (s\<lparr>ca_steps := n\<rparr>) = cache_labelled ok s"
  by (simp add: cache_labelled_def)

lemma cache_labelled_measure [simp]: "cache_labelled ok (measure_read m s) = cache_labelled ok s"
  by (simp add: cache_labelled_def)

lemma cache_labelled_replace: "cache_labelled ok s \<Longrightarrow> labelled_job c j \<Longrightarrow> cache_labelled ok (replace_job j c s)"
  by (simp add: cache_labelled_def replace_job_def)

lemma cache_labelled_forget: "cache_labelled ok s \<Longrightarrow> cache_labelled ok (forget_job c s)"
  by (simp add: cache_labelled_def forget_job_def)

lemma cache_labelled_inner: "cache_labelled ok s \<Longrightarrow> ok i \<Longrightarrow> cache_labelled ok (s\<lparr>ca_inner := i\<rparr>)"
  by (simp add: cache_labelled_def)

lemma cache_labelledD: "cache_labelled ok s \<Longrightarrow> ok (ca_inner s)"
  "cache_labelled ok s \<Longrightarrow> ca_cache s c = Some j \<Longrightarrow> labelled_job c j"
  by (simp_all add: cache_labelled_def)

locale cached_worker_storage = cacheable_storage "ch_inner ch" holds ok
  for ch :: "'s cached_storage" and holds :: "'s \<Rightarrow> job \<Rightarrow> bool" and ok :: "'s \<Rightarrow> bool" +
  assumes pool: "cache_labelled ok s \<Longrightarrow> cache_labelled ok (ch_pool ch n s)"
begin

text \<open>An answer of the cache: the state is kept, and a job that is handed over is the one asked for.\<close>

definition answers :: "job_code \<Rightarrow> 's cached_state \<times> (storage_error + job) \<Rightarrow> bool" where
  "answers c p \<longleftrightarrow> cache_labelled ok (fst p) \<and> (\<forall>j. snd p = Inr j \<longrightarrow> labelled_job c j)"

lemma pool_runs: "cache_labelled ok s \<Longrightarrow> cache_labelled ok (let_pool_run ch s)"
  by (simp add: let_pool_run_def pool)

lemma inner_find:
  assumes "cache_labelled ok s" and "inner (st_find_job_meta (ch_inner ch) c) s = (s', r)"
  shows "cache_labelled ok s'" and "r = Inr m \<Longrightarrow> jm_code m = c"
  using assms find_keeps [of "ca_inner s" c] find_code [of "ca_inner s" c]
  by (auto simp: inner_def cache_labelled_inner cache_labelledD split: prod.splits)

lemma inner_by_meta:
  assumes "cache_labelled ok s"
  shows "answers (jm_code m) (inner (st_get_job_by_meta (ch_inner ch) m) s)"
  using assms by_meta_keeps [of "ca_inner s" m] by_meta_sound [of "ca_inner s" m]
  by (auto simp: answers_def inner_def cache_labelled_inner cache_labelledD labelled_job_def split: prod.splits)

lemma fetch_answers:
  assumes "cache_labelled ok s" and "jm_code m = c"
  shows "answers c (fetch_job ch n c m s)"
  using assms
proof (induction n arbitrary: m s)
  case 0
  then show ?case by (simp add: answers_def)
next
  case (Suc n)
  obtain s1 r where r: "inner (st_get_job_by_meta (ch_inner ch) m) s = (s1, r)" by fastforce
  with inner_by_meta [OF Suc.prems(1), of m] Suc.prems(2) have a: "answers c (s1, r)" by simp
  then have s1: "cache_labelled ok s1" by (simp add: answers_def)
  obtain s2 f where f: "inner (st_find_job_meta (ch_inner ch) c) s1 = (s2, f)" by fastforce
  have "answers c (bindS (inner (st_find_job_meta (ch_inner ch) c)) (\<lambda>m'. fetch_job ch n c m') s1)"
    using inner_find [OF s1 f] Suc.IH [of s2] f by (cases f) (auto simp: bindS_def answers_def)
  with a r show ?case by (cases r) (auto simp: answers_def)
qed

lemma refetch_answers:
  assumes "cache_labelled ok s" and "jm_code m = c"
  shows "answers c (bindS (fetch_job ch n c m) (\<lambda>j s. (replace_job j c s, Inr j)) s)"
proof -
  obtain s1 r where "fetch_job ch n c m s = (s1, r)" by fastforce
  with fetch_answers [OF assms, of n] show ?thesis
    by (cases r) (auto simp: answers_def bindS_def cache_labelled_replace)
qed

lemma cold_answers:
  assumes "cache_labelled ok s"
  shows "answers c (cold_read ch c s)"
proof -
  obtain s1 r where f: "inner (st_find_job_meta (ch_inner ch) c) s = (s1, r)" by fastforce
  show ?thesis
  proof (cases r)
    case (Inr m)
    have s: "cache_labelled ok (let_pool_run ch s1)" using inner_find(1) [OF assms f] by (rule pool_runs)
    have s': "cache_labelled ok (measure_read (CacheMiss ''get_job'') (let_pool_run ch s1))" using s by simp
    have "answers c (measure_read (CacheHit ''get_job'') (let_pool_run ch s1), Inr j)" if "ca_cache (let_pool_run ch s1) c = Some j" for j
      using s cache_labelledD(2) [OF s that] by (simp add: answers_def)
    with refetch_answers [OF s' inner_find(2) [OF assms f Inr]] f Inr show ?thesis
      by (auto simp: cold_read_def bindS_def [of "inner (st_find_job_meta (ch_inner ch) c)"] Let_def split: option.splits)
  qed (use inner_find(1) [OF assms f] f in \<open>auto simp: cold_read_def bindS_def answers_def\<close>)
qed

lemma check_answers:
  assumes "cache_labelled ok s" and "labelled_job c cached"
  shows "answers c (check_cached ch c cached s)"
proof -
  let ?s = "let_pool_run ch s"
  have s: "cache_labelled ok ?s" by (rule pool_runs [OF assms(1)])
  obtain i r where g: "st_get_changed_job (ch_inner ch) (meta_of cached) (ca_inner ?s) = (i, r)" by fastforce
  have i: "cache_labelled ok (?s\<lparr>ca_inner := i\<rparr>)" using s changed_keeps [OF _ g] by (simp add: cache_labelled_def)
  have "labelled_job c j" if "r = Inr (Some j)" for j
    using changed_sound [of "ca_inner ?s" "meta_of cached" i j] g that cache_labelledD(1) [OF s] assms(2)
    by (simp add: labelled_job_def meta_of_def)
  moreover have m: "cache_labelled ok (measure_read (CacheMiss ''get_job'') (?s\<lparr>ca_inner := i\<rparr>))" using i by simp
  ultimately show ?thesis
    using g i assms(2) pool_runs [OF m] cold_answers [OF i] cache_labelled_replace [OF pool_runs [OF m]]
    by (cases r) (auto simp: check_cached_def inner_def answers_def Let_def split: storage_error.splits option.splits)
qed

lemma get_answers:
  assumes "cache_labelled ok s"
  shows "answers c (cached_get_job ch c s)"
proof -
  let ?s = "s\<lparr>ca_steps := Suc (ca_steps s)\<rparr>"
  have s: "cache_labelled ok ?s" using assms by simp
  then have "answers c (?s, Inl StorageCancelled)" by (simp add: answers_def)
  with cold_answers [OF s] check_answers [OF s] cache_labelledD(2) [OF s] show ?thesis
    by (auto simp: cached_get_job_def unless_stopped_def split: option.splits)
qed

lemma save_cases:
  assumes "cached_save_job ch j s = (s', j', r)"
  obtains (stopped) "s' = s\<lparr>ca_steps := Suc (ca_steps s)\<rparr>" "j' = j" "r = Inl StorageCancelled"
  | (saved) s1 i where "st_save_job (ch_inner ch) j (ca_inner s1) = (i, j', Inr ())" "r = Inr ()"
      "s1 = let_pool_run ch (s\<lparr>ca_steps := Suc (ca_steps s)\<rparr>)" "s' = replace_job j' (job_code j) (s1\<lparr>ca_inner := i\<rparr>)"
  | (refused) s1 i e where "st_save_job (ch_inner ch) j (ca_inner s1) = (i, j', Inl e)" "r = Inl e"
      "s1 = let_pool_run ch (s\<lparr>ca_steps := Suc (ca_steps s)\<rparr>)"
      "s' = s1\<lparr>ca_inner := i\<rparr> \<or> s' = forget_job (job_code j) (s1\<lparr>ca_inner := i\<rparr>)"
proof -
  let ?s1 = "let_pool_run ch (s\<lparr>ca_steps := Suc (ca_steps s)\<rparr>)"
  obtain i j1 q where v: "st_save_job (ch_inner ch) j (ca_inner ?s1) = (i, j1, q)" by (metis prod_cases3)
  show thesis
  proof (cases "ch_cancelled ch (ca_steps s)")
    case True
    with assms show thesis by (intro stopped) (simp_all add: cached_save_job_def Let_def)
  next
    case go: False
    show thesis
    proof (cases q)
      case (Inl e)
      with assms go v show thesis
        by (intro refused [of ?s1 i e]) (auto simp: cached_save_job_def Let_def split: if_splits)
    next
      case (Inr u)
      with assms go v show thesis by (intro saved [of ?s1 i]) (auto simp: cached_save_job_def Let_def)
    qed
  qed
qed

end

text \<open>The contract of a worker's storage, for the cache around any storage a cache may wrap.\<close>

sublocale cached_worker_storage \<subseteq> behind_cache: worker_storage "cached_storage_ops ch" "\<lambda>s. holds (ca_inner s)" "cache_labelled ok"
proof unfold_locales
  show "cache_labelled ok s'" if "cache_labelled ok s" "st_get_job (cached_storage_ops ch) c s = (s', r)" for s c s' r
    using get_answers [OF that(1), of c] that(2) by (simp add: cached_storage_ops_def answers_def)
  show "job_code j = c \<and> keys_ok j" if "cache_labelled ok s" "st_get_job (cached_storage_ops ch) c s = (s', Inr j)" for s c s' j
    using get_answers [OF that(1), of c] that(2) by (simp add: cached_storage_ops_def answers_def labelled_job_def)
  fix s j s' j'
  assume s: "cache_labelled ok s"
  let ?s1 = "let_pool_run ch (s\<lparr>ca_steps := Suc (ca_steps s)\<rparr>)"
  have s1: "cache_labelled ok ?s1" by (rule pool_runs) (simp add: s)
  show "cache_labelled ok s'" if k: "keys_ok j" and r: "st_save_job (cached_storage_ops ch) j s = (s', j', q)" for q
  proof -
    from r have "cached_save_job ch j s = (s', j', q)" by (simp add: cached_storage_ops_def)
    then show ?thesis
    proof (cases rule: save_cases)
      case (saved s2 i)
      have "cache_labelled ok (?s1\<lparr>ca_inner := i\<rparr>)"
        using save_keeps [OF cache_labelledD(1) [OF s1] k] saved s1 by (simp add: cache_labelled_inner)
      moreover have j': "j' = update_version (version j') j"
        using save_ok [OF cache_labelledD(1) [OF s1]] saved by blast
      have "labelled_job (job_code j) j'"
        unfolding labelled_job_def using k by (subst (1 2) j') simp
      ultimately show ?thesis using saved by (simp add: cache_labelled_replace)
    next
      case (refused s2 i e)
      have "cache_labelled ok (?s1\<lparr>ca_inner := i\<rparr>)"
        using save_keeps [OF cache_labelledD(1) [OF s1] k] refused s1 by (simp add: cache_labelled_inner)
      with refused show ?thesis by (auto simp: cache_labelled_forget)
    qed (use s in simp)
  qed
  show "holds (ca_inner s') j' \<and> j' = update_version (version j') j"
    if "st_save_job (cached_storage_ops ch) j s = (s', j', Inr ())"
  proof -
    from that have "cached_save_job ch j s = (s', j', Inr ())" by (simp add: cached_storage_ops_def)
    then show ?thesis
      by (cases rule: save_cases) (use save_ok [OF cache_labelledD(1) [OF s1]] in \<open>auto simp: replace_job_def\<close>)
  qed
  show "j' = j" if "st_save_job (cached_storage_ops ch) j s = (s', j', Inl e)" for e
  proof -
    from that have "cached_save_job ch j s = (s', j', Inl e)" by (simp add: cached_storage_ops_def)
    then show ?thesis
      by (cases rule: save_cases) (use save_error [OF cache_labelledD(1) [OF s1]] in auto)
  qed
qed

context cached_worker_storage
begin

lemma as_storage: "worker_storage (cached_storage_ops ch) (\<lambda>s. holds (ca_inner s)) (cache_labelled ok)"
  by (rule behind_cache.worker_storage_axioms)

end

end
