(* ===== verification/JM_Worker_Objects.thy ===== *)
theory JM_Worker_Objects
  imports JM_Cached_Worker JM_Bucket
begin

text \<open>
  The object storage (\<^verbatim>\<open>storage/object_storage.rs\<close>) as the storage of a worker, with or without the
  cache between them: what it promises over every provider that keeps the contract of \<^verbatim>\<open>JM_Backend\<close>
  and every codec that reads back what it wrote.
\<close>

section \<open>What the objects say of themselves\<close>

text \<open>A state that was encoded is the state that is decoded.\<close>

definition codec_ok :: "job_state_codec \<Rightarrow> bool" where
  "codec_ok cd \<longleftrightarrow> (\<forall>sj body. cd_serialize cd sj = Inr body \<longrightarrow> cd_deserialize cd body = Inr sj)"

text \<open>Which the codecs of the crate keep when the libraries read back what they wrote.\<close>

definition serde_ok :: "serde \<Rightarrow> bool" where
  "serde_ok sd \<longleftrightarrow> (\<forall>sj data. json_to_vec_pretty sd sj = Inr data \<longrightarrow> json_from_slice sd data = Inr sj) \<and>
     (\<forall>sj data. cbor_into_writer sd sj = Inr data \<longrightarrow> cbor_from_reader sd data = Inr sj)"

lemma build_codec_ok: "serde_ok sd \<Longrightarrow> codec_ok (build_codec sd kind)"
  by (cases kind) (auto simp: codec_ok_def serde_ok_def build_codec_def split: sum.splits)

text \<open>An object under the path of a job decodes, if it does, to a state of that job.\<close>

definition labelled :: "'b object_storage \<Rightarrow> (object_key \<Rightarrow> (object_version \<times> object_body) option) \<Rightarrow> bool" where
  "labelled os objs \<longleftrightarrow> (\<forall>c n v body sj. objs (build_job_iteration_path (os_keys os) c n) = Some (v, body) \<longrightarrow>
     cd_deserialize (os_codec os) body = Inr sj \<longrightarrow> sj_code sj = c)"

text \<open>The state of a job is stored under its path and its version.\<close>

definition objects_hold :: "'b object_storage \<Rightarrow> ('b \<Rightarrow> object_key \<Rightarrow> (object_version \<times> object_body) option) \<Rightarrow>
    'b object_state \<Rightarrow> job \<Rightarrow> bool" where
  "objects_hold os objects s j \<longleftrightarrow> (\<exists>body.
     objects (ob_backend s) (build_job_iteration_path (os_keys os) (job_code j) (iter_num j)) = Some (version j, body) \<and>
     cd_deserialize (os_codec os) body = Inr (from_job (os_externs os) j))"

lemma labelled_put:
  assumes "labelled os objs" and "codec_ok (os_codec os)" and "serialize_job os j = Inr body"
  shows "labelled os (objs(build_job_iteration_path (os_keys os) (job_code j) (iter_num j) \<mapsto> (v, body)))"
proof -
  have "cd_deserialize (os_codec os) body = Inr (from_job (os_externs os) j)"
    using assms(2,3) by (simp add: codec_ok_def serialize_job_def)
  moreover have "sj_code (from_job (os_externs os) j) = job_code j" by (simp add: from_job_def)
  ultimately show ?thesis using assms(1) by (auto simp: labelled_def)
qed

lemma into_job_keys: "keys_ok (into_job x a b l v sj)"
  unfolding keys_ok_def into_job_def restore_def
  by (simp, rule fold_update_keys) simp_all

lemma decoded_job:
  assumes "labelled os objs" and "objs (build_job_iteration_path (os_keys os) c n) = Some (u, body)"
    and "deserialize_job os body v = Inr j"
  shows "labelled_job c j"
proof -
  from assms(3) obtain sj and jd :: job_definition where "cd_deserialize (os_codec os) body = Inr sj"
    and j: "j = into_job (os_externs os) (jd_max_iterations jd) (jd_iteration_interval jd) (jd_task_limits jd) v sj"
    by (auto simp: deserialize_job_def bindR_Inr_iff)
  with assms(1,2) have "sj_code sj = c" by (simp add: labelled_def)
  then have "job_code j = c" by (simp add: j into_job_def restore_def)
  with into_job_keys show ?thesis by (simp add: labelled_job_def j)
qed

section \<open>The storage of a worker\<close>

locale job_objects = object_store "os_store os" objects moved
  for os :: "'b object_storage" and objects :: "'b \<Rightarrow> object_key \<Rightarrow> (object_version \<times> object_body) option"
    and moved :: "'b \<Rightarrow> 'b \<Rightarrow> bool" +
  assumes codec: "codec_ok (os_codec os)"
    and label_rely: "moved s s' \<Longrightarrow> labelled os (objects s) \<Longrightarrow> labelled os (objects s')"
begin

definition lab :: "'b object_state \<Rightarrow> bool" where
  "lab s \<longleftrightarrow> labelled os (objects (ob_backend s))"

definition relab :: "'b object_state \<Rightarrow> 'b object_state \<Rightarrow> bool" where
  "relab s s' \<longleftrightarrow> (lab s \<longrightarrow> lab s')"

lemma lab_steps [simp]: "lab (s\<lparr>ob_steps := n\<rparr>) = lab s"
  by (simp add: lab_def)

lemma relab_rel: "reflp relab" "transp relab"
  by (auto simp: relab_def reflp_def transp_def)

lemma unless_cancelled_relab:
  assumes "\<And>s. relab s (fst (f s))"
  shows "relab s (fst (unless_cancelled os f s))"
  using assms [of "s\<lparr>ob_steps := Suc (ob_steps s)\<rparr>"] by (simp add: unless_cancelled_def relab_def)

lemma request_relab:
  assumes "\<And>b b' r. f b = (b', r) \<Longrightarrow> moved b b'"
  shows "relab s (fst (request f s))"
proof (cases "f (ob_backend s)")
  case (Pair b r)
  from label_rely [OF assms [OF this]] Pair show ?thesis by (simp add: request_def relab_def lab_def)
qed

lemma bindS_relab:
  assumes "\<And>s. relab s (fst (f s))" and "\<And>a s. relab s (fst (g a s))"
  shows "relab s (fst (bindS f g s))"
  using assms(1) [of s] assms(2) [of "fst (f s)"] by (auto simp: bindS_def relab_def split: prod.splits sum.splits)

lemma retried_relab:
  assumes "\<And>s. relab s (fst (h s))"
  shows "relab s (fst (retried os h s))"
  using retry_related [OF relab_rel assms, of "s\<lparr>ob_steps := Suc (ob_steps s)\<rparr>"]
  by (simp add: retried_def retry_def relab_def)

lemma reads_relab:
  "relab s (fst (obj_find_job_meta os c s))" "relab s (fst (obj_get_job_by_meta os m s))" "relab s (fst (obj_get_changed_job os m s))"
  unfolding obj_find_job_meta_def obj_get_job_by_meta_def obj_get_changed_job_def
  by (intro unless_cancelled_relab bindS_relab request_relab; auto simp: relab_def dest: get_moved changed_moved list_moved)+

lemma read_attempt_relab: "relab s (fst (read_attempt os c s))"
proof -
  obtain s1 r where f: "obj_find_job_meta os c s = (s1, r)" by fastforce
  have "relab s1 (fst (obj_get_job_by_meta os m s1))" for m by (rule reads_relab)
  with reads_relab(1) [of s c] f show ?thesis
    by (cases r; cases "obj_get_job_by_meta os (projr r) s1") (auto simp: read_attempt_def relab_def split: sum.splits, (metis fst_conv)+)
qed

lemma get_relab: "relab s (fst (obj_get_job os c s))"
  unfolding obj_get_job_def by (intro unless_cancelled_relab retried_relab read_attempt_relab)

lemma write_relab:
  assumes "serialize_job os j = Inr body"
  shows "relab s (fst (write_attempt os (build_job_iteration_path (os_keys os) (job_code j) (iter_num j)) body cond s))"
proof -
  let ?k = "build_job_iteration_path (os_keys os) (job_code j) (iter_num j)"
  obtain b r where p: "be_put_object (os_store os) ?k body cond (ob_backend s) = (b, r)" by fastforce
  have "\<exists>s0. moved (ob_backend s) s0 \<and> (objects b = objects s0 \<or> (\<exists>v. objects b = (objects s0)(?k \<mapsto> (v, body))))"
    using put_ok [of ?k body cond "ob_backend s" b] put_failed [of ?k body cond "ob_backend s" b] p by (cases r) blast+
  then have "labelled os (objects b)" if "lab s"
    using that label_rely labelled_put [OF _ codec assms] by (fastforce simp: lab_def)
  with p show ?thesis by (auto simp: write_attempt_def request_def relab_def lab_def split: sum.splits)
qed

lemma save_relab:
  assumes "obj_save_job os j s = (s', j', r)"
  shows "relab s s'"
proof -
  let ?h = "\<lambda>s. case serialize_job os j of Inl e \<Rightarrow> (s, Inl e) | Inr body \<Rightarrow>
    retried os (write_attempt os (build_job_iteration_path (os_keys os) (job_code j) (iter_num j)) body (write_condition j)) s"
  have "relab s (fst (unless_cancelled os ?h s))"
    by (rule unless_cancelled_relab) (auto simp: relab_rel reflpD intro!: retried_relab write_relab split: sum.splits)
  moreover have "fst (unless_cancelled os ?h s) = s'"
    using assms by (auto simp: obj_save_job_def split: prod.splits sum.splits)
  ultimately show ?thesis by simp
qed

lemma by_meta_decoded:
  assumes "lab s" and "obj_get_job_by_meta os m s = (s', Inr j)"
  shows "labelled_job (jm_code m) j"
proof -
  let ?k = "build_job_iteration_path (os_keys os) (jm_code m) (jm_iter_num m)"
  obtain body where g: "be_get_object (os_store os) ?k (jm_version m) (ob_backend s) = (ob_backend s', Inr body)"
    and d: "deserialize_job os body (jm_version m) = Inr j"
    using assms(2) by (auto simp: obj_get_job_by_meta_def unless_cancelled_def bindS_Inr_iff request_def split: if_splits prod.splits)
  have "labelled os (objects (ob_backend s'))"
    using label_rely [OF get_moved [OF g]] assms(1) by (simp add: lab_def)
  with get_ok [OF g] d show ?thesis by (auto intro: decoded_job)
qed

lemma changed_decoded:
  assumes "lab s" and "obj_get_changed_job os m s = (s', Inr (Some j))"
  shows "labelled_job (jm_code m) j"
proof -
  let ?k = "build_job_iteration_path (os_keys os) (jm_code m) (jm_iter_num m)"
  obtain v body where g: "be_get_changed_object (os_store os) ?k (jm_version m) (ob_backend s) = (ob_backend s', Inr (Some (v, body)))"
    and d: "deserialize_job os body v = Inr j"
    using assms(2)
    by (auto simp: obj_get_changed_job_def unless_cancelled_def bindS_Inr_iff bindR_Inr_iff request_def
        split: if_splits prod.splits option.splits)
  have "labelled os (objects (ob_backend s'))"
    using label_rely [OF changed_moved [OF g]] assms(1) by (simp add: lab_def)
  from decoded_job [OF this changed_some [OF g] d] show ?thesis .
qed

lemma find_meta_code: "obj_find_job_meta os c s = (s', Inr m) \<Longrightarrow> jm_code m = c"
  by (auto simp: obj_find_job_meta_def unless_cancelled_def bindS_def newest_of_def bindR_Inr_iff
      split: if_splits list.splits option.splits prod.splits sum.splits)

lemma get_decoded:
  assumes "lab s" and "obj_get_job os c s = (s', Inr j)"
  shows "labelled_job c j"
proof -
  from assms(2) have "retry_from storage_retry_error (os_retrier os) (race_against (os_race os (Suc (ob_steps s))) (read_attempt os c))
      (read_attempt os c) 0 (s\<lparr>ob_steps := Suc (Suc (ob_steps s))\<rparr>) = (s', Inr j)"
    by (auto simp: obj_get_job_def unless_cancelled_def retried_def retry_def split: if_splits)
  then have "\<exists>s0. lab s0 \<and> read_attempt os c s0 = (s', Inr (Done j))"
    by (rule retry_invariant [rotated 2])
      (use assms(1) read_attempt_relab [of _ c] in \<open>auto simp: relab_def, metis fst_conv\<close>)
  then obtain s0 where s0: "lab s0" "read_attempt os c s0 = (s', Inr (Done j))" by blast
  then obtain s1 m where f: "obj_find_job_meta os c s0 = (s1, Inr m)" and g: "obj_get_job_by_meta os m s1 = (s', Inr j)"
    by (auto simp: read_attempt_def split: prod.splits sum.splits if_splits)
  have "lab s1" using reads_relab(1) [of s0 c] f s0(1) by (simp add: relab_def)
  from by_meta_decoded [OF this g] find_meta_code [OF f] show ?thesis by simp
qed

lemma save_held:
  assumes "obj_save_job os j s = (s', j', Inr ())"
  shows "objects_hold os objects s' j' \<and> j' = update_version (version j') j"
proof -
  let ?k = "build_job_iteration_path (os_keys os) (job_code j) (iter_num j)"
  obtain s1 body v where body: "serialize_job os j = Inr body"
    and run: "retried os (write_attempt os ?k body (write_condition j)) s1 = (s', Inr v)" and j': "j' = update_version v j"
    using assms by (auto simp: obj_save_job_def unless_cancelled_def split: prod.splits sum.splits if_splits)
  have "\<exists>s0. True \<and> write_attempt os ?k body (write_condition j) s0 = (s', Inr (Done v))"
    by (rule retry_invariant [OF _ _ run [unfolded retried_def retry_def]]) auto
  then obtain s0 where "write_attempt os ?k body (write_condition j) s0 = (s', Inr (Done v))" by blast
  from put_ok [OF write_attempt_done [OF this]] have "objects (ob_backend s') ?k = Some (v, body)" by auto
  moreover have "cd_deserialize (os_codec os) body = Inr (from_job (os_externs os) j)"
    using codec body by (simp add: codec_ok_def serialize_job_def)
  ultimately show ?thesis
    by (simp add: objects_hold_def j' update_version_def from_job_def tasks_as_iter_def)
qed

lemma save_refused: "obj_save_job os j s = (s', j', Inl e) \<Longrightarrow> j' = j"
  by (auto simp: obj_save_job_def split: prod.splits sum.splits)

end

lemma object_ops_simps:
  "st_get_job (object_storage_ops os) = obj_get_job os"
  "st_get_job_by_meta (object_storage_ops os) = obj_get_job_by_meta os"
  "st_find_job_meta (object_storage_ops os) = obj_find_job_meta os"
  "st_get_changed_job (object_storage_ops os) = obj_get_changed_job os"
  "st_save_job (object_storage_ops os) = obj_save_job os"
  by (simp_all add: object_storage_ops_def)

sublocale job_objects \<subseteq> over_objects: cacheable_storage "object_storage_ops os" "objects_hold os objects" lab
proof (unfold_locales, unfold object_ops_simps)
  show "lab s'" if "lab s" "obj_get_job os c s = (s', r)" for s c s' r
    using get_relab [of s c] that by (simp add: relab_def)
  show "lab s'" if "lab s" "obj_save_job os j s = (s', j', q)" for s j s' j' q
    using save_relab [OF that(2)] that(1) by (simp add: relab_def)
  show "job_code j = c \<and> keys_ok j" if "lab s" "obj_get_job os c s = (s', Inr j)" for s c s' j
    using get_decoded [OF that] by (simp add: labelled_job_def)
  show "lab s'" if "lab s" "obj_find_job_meta os c s = (s', r)" for s c s' r
    using reads_relab(1) [of s c] that by (simp add: relab_def)
  show "lab s'" if "lab s" "obj_get_job_by_meta os m s = (s', r)" for s m s' r
    using reads_relab(2) [of s m] that by (simp add: relab_def)
  show "lab s'" if "lab s" "obj_get_changed_job os m s = (s', r)" for s m s' r
    using reads_relab(3) [of s m] that by (simp add: relab_def)
  show "job_code j = jm_code m \<and> keys_ok j" if "lab s" "obj_get_job_by_meta os m s = (s', Inr j)" for s m s' j
    using by_meta_decoded [OF that] by (simp add: labelled_job_def)
  show "job_code j = jm_code m \<and> keys_ok j" if "lab s" "obj_get_changed_job os m s = (s', Inr (Some j))" for s m s' j
    using changed_decoded [OF that] by (simp add: labelled_job_def)
qed (rule find_meta_code save_held save_refused; assumption)+

context job_objects
begin

lemma as_cacheable: "cacheable_storage (object_storage_ops os) (objects_hold os objects) (\<lambda>s. labelled os (objects (ob_backend s)))"
  using over_objects.cacheable_storage_axioms unfolding lab_def [abs_def] .

end

end
