(* ===== verification/JM_Stack.thy ===== *)
theory JM_Stack
  imports JM_Worker_Objects JM_Azure JM_Gcs
begin

text \<open>
  The whole stack: a worker, the cache of its pool, the object storage under it, the backend of one of the
  three providers under that, and a service that answers the backend's requests as it documents. What a
  worker is told was written is what the service holds.
\<close>

section \<open>A provider the storage runs on\<close>

definition provider_store ::
  "'c backend \<Rightarrow> ('c \<Rightarrow> object_key \<Rightarrow> (object_version \<times> object_body) option) \<Rightarrow> ('c \<Rightarrow> 'c \<Rightarrow> bool) \<Rightarrow> bool" where
  "provider_store be stored moved \<longleftrightarrow>
     (\<exists>b. be = s3_ops b \<and> s3_service b stored moved) \<or>
     (\<exists>b. be = azure_ops b \<and> azure_service b stored moved) \<or>
     (\<exists>b. be = gcs_ops b \<and> gcs_service b stored moved)"

lemma provider_contract: "provider_store be stored moved \<Longrightarrow> object_store be stored moved"
  unfolding provider_store_def
  using s3_service.keeps_contract azure_service.keeps_contract gcs_service.keeps_contract by blast

text \<open>The objects and the cache file every job under its own code.\<close>

definition stack_labelled ::
  "'b object_storage \<Rightarrow> ('b \<Rightarrow> object_key \<Rightarrow> (object_version \<times> object_body) option) \<Rightarrow> 'b object_state cached_state \<Rightarrow> bool" where
  "stack_labelled os stored = cache_labelled (\<lambda>s. labelled os (stored (ob_backend s)))"

lemma stack_storage:
  assumes "provider_store (os_store os) stored moved" and "codec_ok (os_codec os)"
    and "\<And>b b'. moved b b' \<Longrightarrow> labelled os (stored b) \<Longrightarrow> labelled os (stored b')"
    and "ch_inner ch = object_storage_ops os"
    and "\<And>n s. stack_labelled os stored s \<Longrightarrow> stack_labelled os stored (ch_pool ch n s)"
  shows "worker_storage (cached_storage_ops ch) (\<lambda>s. objects_hold os stored (ca_inner s)) (stack_labelled os stored)"
proof -
  have o: "job_objects os stored moved"
    using provider_contract [OF assms(1)] assms(2,3) by (simp add: job_objects_def job_objects_axioms_def)
  have "cacheable_storage (ch_inner ch) (objects_hold os stored) (\<lambda>s. labelled os (stored (ob_backend s)))"
    using job_objects.as_cacheable [OF o] unfolding assms(4) .
  then have "cached_worker_storage ch (objects_hold os stored) (\<lambda>s. labelled os (stored (ob_backend s)))"
    by (rule cached_worker_storage.intro) (unfold_locales, use assms(5) in \<open>simp add: stack_labelled_def\<close>)
  from cached_worker_storage.as_storage [OF this] show ?thesis by (simp add: stack_labelled_def)
qed

text \<open>C4. A reported start reached the service. A worker runs over the cache of its pool, over the object storage, over
  the S3, the Azure or the GCS backend, and a service that keeps what it documents. Whatever the other
  instances write, as long as they file a state under the path of its job, however requests are
  cut off, repeated and answered late, and whatever the pool does to the cache meanwhile: when the worker reports that it started
  a task, the service holds at that moment, under the path of the iteration and the version the worker
  carries, an object that decodes to exactly the state it reports, and in it the task is running and held
  by this worker.\<close>
theorem stack_start_written:
  assumes "provider_store (os_store os) stored moved" and "os_codec os = build_codec sd kind" and "serde_ok sd"
    and "\<And>b b'. moved b b' \<Longrightarrow> labelled os (stored b) \<Longrightarrow> labelled os (stored b')"
    and "ch_inner ch = object_storage_ops os"
    and "\<And>n s. stack_labelled os stored s \<Longrightarrow> stack_labelled os stored (ch_pool ch n s)"
    and "wk_storage W = cached_storage_ops ch" and "stack_labelled os stored (w_store w)"
    and "worker_start_task W inp code w = (w', TsStarted s left)"
  shows "(\<exists>t. task_at (started_job s) (started_task_id s) = Some t \<and> task_status t = Started \<and>
      processing_by_worker t = Some (wk_id W)) \<and>
    (\<exists>body. stored (ob_backend (ca_inner (w_store w')))
        (build_job_iteration_path (os_keys os) (job_code (started_job s)) (iter_num (started_job s))) =
        Some (version (started_job s), body) \<and>
      cd_deserialize (os_codec os) body = Inr (from_job (os_externs os) (started_job s)))"
proof -
  have st: "worker_storage (cached_storage_ops ch) (\<lambda>s. objects_hold os stored (ca_inner s)) (stack_labelled os stored)"
    by (rule stack_storage [OF assms(1)]) (use assms(2-6) build_codec_ok in auto)
  from worker_storage.start_written [OF st assms(7-9)] show ?thesis by (simp add: objects_hold_def)
qed

text \<open>C5. A saved result reached the service. In the same stack, however often the save of a result runs into
  another instance's write and is merged onto it: once it is reported as saved, the service holds an
  object, under the version the worker carries, that decodes to the worker's state, and in it the task has exactly the
  result this worker recorded.\<close>
theorem stack_result_written:
  assumes "provider_store (os_store os) stored moved" and "os_codec os = build_codec sd kind" and "serde_ok sd"
    and "\<And>b b'. moved b b' \<Longrightarrow> labelled os (stored b) \<Longrightarrow> labelled os (stored b')"
    and "ch_inner ch = object_storage_ops os"
    and "\<And>n s. stack_labelled os stored s \<Longrightarrow> stack_labelled os stored (ch_pool ch n s)"
    and "wk_storage W = cached_storage_ops ch" and "stack_labelled os stored (w_store w)" and "keys_ok j"
    and "task_at j i = Some t" and "processing_by_worker t = Some (wk_id W)" and "is_resolved t"
    and "save_processed_task W inp i (processed_handler W inp i jc tc save_reason) j w = (w', Inr (j', Saved))"
  shows "task_at j' i = Some t \<and>
    (\<exists>body. stored (ob_backend (ca_inner (w_store w'))) (build_job_iteration_path (os_keys os) (job_code j') (iter_num j')) =
        Some (version j', body) \<and>
      cd_deserialize (os_codec os) body = Inr (from_job (os_externs os) j'))"
proof -
  have st: "worker_storage (cached_storage_ops ch) (\<lambda>s. objects_hold os stored (ca_inner s)) (stack_labelled os stored)"
    by (rule stack_storage [OF assms(1)]) (use assms(2-6) build_codec_ok in auto)
  from worker_storage.result_written [OF st assms(7-13)] show ?thesis by (simp add: objects_hold_def)
qed

section \<open>A stack over a bucket\<close>

text \<open>Libraries that know three states, and the same encoding for both formats.\<close>

definition stack_encode :: "stored_job \<Rightarrow> string + object_body" where
  "stack_encode sj =
     (if sj = from_job std_externs sample_start_saved then Inr ''job@started''
      else if sj = from_job std_externs sample_result then Inr ''job@result''
      else Inl ''unknown state'')"

definition stack_decode :: "object_body \<Rightarrow> string + stored_job" where
  "stack_decode body =
     (if body = ''job@initial'' then Inr (from_job std_externs sample_job)
      else if body = ''job@started'' then Inr (from_job std_externs sample_start_saved)
      else if body = ''job@result'' then Inr (from_job std_externs sample_result)
      else Inl ''unreadable'')"

definition stack_serde :: serde where
  "stack_serde = \<lparr>json_to_vec_pretty = stack_encode, json_from_slice = stack_decode,
     cbor_into_writer = stack_encode, cbor_from_reader = stack_decode\<rparr>"

definition stack_codec :: job_state_codec where
  "stack_codec = build_codec stack_serde Json"

lemma stack_codec_fields:
  "cd_serialize stack_codec sj = map_err Serialization (stack_encode sj)"
  "cd_deserialize stack_codec body = map_err Serialization (stack_decode body)"
  by (simp_all add: stack_codec_def build_codec_def stack_serde_def)

lemma stack_serde_ok: "serde_ok stack_serde"
  by (simp add: serde_ok_def stack_serde_def stack_encode_def stack_decode_def)

definition stack_objects :: "bucket object_storage" where
  "stack_objects = bucket_storage\<lparr>os_store := s3_ops (bucket_s3 sample_paths (\<lambda>_. Unhindered)), os_codec := stack_codec\<rparr>"

definition stack_cache :: "bucket object_state cached_storage" where
  "stack_cache = cached_storage_new (object_storage_ops stack_objects) (\<lambda>_. False) (\<lambda>_ s. s)"

definition stack_worker :: "bucket object_state cached_state worker" where
  "stack_worker = \<lparr>wk_id = 7, wk_registry = \<lparr>reg_jobs = [(''job'', sample_jd)], reg_executors = [(''job:task'', 7)]\<rparr>,
     wk_storage = cached_storage_ops stack_cache, wk_retrier = \<lparr>max_attempts_cfg = 3, rand_delay = 0, delays = []\<rparr>,
     wk_notifier = None\<rparr>"

definition stack_inputs :: "bucket object_state cached_state inputs" where
  "stack_inputs = \<lparr>in_externs = std_externs, in_clock = (\<lambda>_. sample_clock),
     in_mint = (\<lambda>n k. 1000 * n + k), in_race = (\<lambda>_. not_cancelled)\<rparr>"

definition stack_bucket :: bucket where
  "stack_bucket = \<lparr>bk_objects = [(build_job_iteration_path sample_paths ''job'' 1, ''1'', ''job@initial'')], bk_counter = 1, bk_others = []\<rparr>"

definition stack_world :: "bucket object_state cached_state world" where
  "stack_world = \<lparr>w_store = \<lparr>ca_inner = \<lparr>ob_backend = stack_bucket, ob_steps = 0\<rparr>, ca_cache = (\<lambda>_. None), ca_measured = [], ca_steps = 0\<rparr>,
     w_finished = [], w_channel = [], w_measured = [], w_ticks = 0\<rparr>"

lemma stack_objects_fields [simp]:
  "os_store stack_objects = s3_ops (bucket_s3 sample_paths (\<lambda>_. Unhindered))" "os_keys stack_objects = sample_paths"
  "os_codec stack_objects = stack_codec" "os_retrier stack_objects = retrier_config_default" "os_cancelled stack_objects n = False"
  "os_race stack_objects n = no_race" "os_externs stack_objects = std_externs"
  "os_registry stack_objects = \<lparr>reg_jobs = [(''job'', sample_jd)], reg_executors = []\<rparr>"
  by (simp_all add: stack_objects_def bucket_storage_def)

lemma stack_codec_ok: "codec_ok (os_codec stack_objects)"
  using build_codec_ok [OF stack_serde_ok, of Json] by (simp add: stack_codec_def)

lemma stack_codec_built: "os_codec stack_objects = build_codec stack_serde Json"
  by (simp add: stack_codec_def)

lemma stack_codes: "job_code sample_job = ''job''" "job_code sample_start_saved = ''job''" "job_code sample_result = ''job''"
  using sample_start_run(4) sample_result_meta(3) by (simp_all add: sample_job_def)

text \<open>A state that can be read names its job, so what the other instances of the bucket write is filed under its code.\<close>

lemma stack_decodes: "cd_deserialize stack_codec body = Inr sj \<Longrightarrow> sj_code sj = ''job'' \<and> names_job ''job'' body"
  by (auto simp: stack_codec_fields stack_decode_def names_job_def from_job_def stack_codes split: if_splits)

lemma stack_rely:
  assumes "bk_moved sample_paths b b'" and "labelled stack_objects (bk_lookup b)"
  shows "labelled stack_objects (bk_lookup b')"
  unfolding labelled_def
proof (intro allI impI)
  fix c n v body sj
  assume o: "bk_lookup b' (build_job_iteration_path (os_keys stack_objects) c n) = Some (v, body)"
    and d: "cd_deserialize (os_codec stack_objects) body = Inr sj"
  from assms(1) o consider "bk_lookup b (build_job_iteration_path sample_paths c n) = Some (v, body)" | "names_job c body"
    unfolding bk_moved_def by fastforce
  then show "sj_code sj = c"
  proof cases
    case 1
    with assms(2) d show ?thesis by (simp add: labelled_def)
  next
    case 2
    with stack_decodes [of body sj] d show ?thesis by (simp add: names_job_def)
  qed
qed

lemma stack_provider: "provider_store (os_store stack_objects) bk_lookup (bk_moved sample_paths)"
  unfolding provider_store_def using s3_bucket.s3_service_axioms by auto

lemma stack_pool: "stack_labelled stack_objects bk_lookup s \<Longrightarrow> stack_labelled stack_objects bk_lookup (ch_pool stack_cache n s)"
  by (simp add: stack_cache_def cached_storage_new_def)

lemma stack_inner: "ch_inner stack_cache = object_storage_ops stack_objects"
  by (simp add: stack_cache_def cached_storage_new_def)

lemma stack_start: "stack_labelled stack_objects bk_lookup (w_store stack_world)"
  by (auto simp: stack_labelled_def cache_labelled_def labelled_def stack_world_def stack_bucket_def bk_lookup_def
      dest: stack_decodes split: if_splits)

interpretation stack_storage: job_objects stack_objects bk_lookup "bk_moved sample_paths"
  by (rule job_objects.intro [OF provider_contract [OF stack_provider]], unfold_locales)
    (rule stack_codec_ok stack_rely; assumption?)+

interpretation stack_pooled: cached_worker_storage stack_cache "objects_hold stack_objects bk_lookup" "stack_storage.lab"
  by (rule cached_worker_storage.intro, unfold stack_inner, rule stack_storage.over_objects.cacheable_storage_axioms, unfold_locales)
    (simp add: stack_cache_def cached_storage_new_def)

text \<open>The requests of the stack, answered by the bucket.\<close>

lemmas s3_evaluates = s3_ops_simps s3_list_objects_def s3_get_object_def s3_put_object_def send_over_def send_request_def
  bucket_s3_def bucket_s3_client_def Let_def

lemma tag_of_1: "tag_of ''1'' = Some (quoted ''1'')" "normalize_etag (quoted ''1'') = ''1''"
proof -
  show "normalize_etag (quoted ''1'') = ''1''" by (rule normalize_quoted) (simp add: is_digit_def)
  then show "tag_of ''1'' = Some (quoted ''1'')" by (simp add: tag_of_def)
qed

lemma tag_of_2: "tag_of (show_nat 2) = Some (quoted (show_nat 2))" "normalize_etag (quoted (show_nat 2)) = show_nat 2"
proof -
  have "show_nat 2 = ''2''" by code_simp
  moreover have "normalize_etag (quoted ''2'') = ''2''" by (rule normalize_quoted) (simp add: is_digit_def)
  ultimately show "normalize_etag (quoted (show_nat 2)) = show_nat 2" by simp
  then show "tag_of (show_nat 2) = Some (quoted (show_nat 2))" by (simp add: tag_of_def)
qed

lemma stack_arrive [simp]: "bk_arrive sample_paths stack_bucket = stack_bucket"
  by (simp add: bk_arrive_def stack_bucket_def)

lemma stack_lookup: "bk_lookup stack_bucket (build_job_iteration_path sample_paths ''job'' 1) = Some (''1'', ''job@initial'')"
  by (simp add: bk_lookup_def stack_bucket_def)

lemma stack_lists: "\<exists>page. be_list_objects (os_store stack_objects) (newest_request stack_objects ''job'') stack_bucket =
    (stack_bucket, Inr page) \<and> newest_of stack_objects ''job'' page = Inr \<lparr>jm_code = ''job'', jm_iter_num = 1, jm_version = ''1''\<rparr>"
proof -
  have "lp_objects (bk_list (newest_request stack_objects ''job'') stack_bucket) =
      [\<lparr>lo_key = build_job_iteration_path sample_paths ''job'' 1, lo_version = Some ''1''\<rparr>]"
    by (simp add: bk_list_def bk_keys_after_def newest_request_def stack_bucket_def prefix_built_path Let_def bk_lookup_def)
  then show ?thesis
    using parse_built_path [of sample_paths "''job''" 1] sample_extension
    by (simp add: s3_evaluates box_sdk_request_def s3_listing_of_def newest_request_def s3_page_of_def map_filter_simps tag_of_1
        newest_of_def)
qed

lemma stack_reads_object:
  "be_get_object (os_store stack_objects) (build_job_iteration_path sample_paths ''job'' 1) ''1'' stack_bucket = (stack_bucket, Inr ''job@initial'')"
  by (simp add: s3_evaluates s3_read_object_def stack_lookup s3_allows_def ANY_VERSION_def)

lemma stack_decoded: "deserialize_job stack_objects ''job@initial'' ''1'' = Inr sample_reread"
  by (simp add: deserialize_job_def stack_codec_fields stack_decode_def get_job_def from_job_def stack_codes)
    (simp add: sample_reread_def copy_persisted_state_def from_job_def update_version_def tasks_as_iter_def sample_job_def sample_jd_def)

text \<open>The cold read of the cache, and a save it passes on.\<close>

definition stack_after_read :: "bucket object_state cached_state" where
  "stack_after_read = fst (cached_get_job stack_cache ''job'' (w_store stack_world))"

lemma stack_by_meta:
  "obj_get_job_by_meta stack_objects \<lparr>jm_code = ''job'', jm_iter_num = 1, jm_version = ''1''\<rparr> \<lparr>ob_backend = stack_bucket, ob_steps = n\<rparr> =
    (\<lparr>ob_backend = stack_bucket, ob_steps = Suc n\<rparr>, Inr sample_reread)"
  using stack_reads_object stack_decoded
  by (simp add: obj_get_job_by_meta_def unless_cancelled_def bindS_def request_def del: stack_objects_fields(1))

lemma stack_finds:
  "obj_find_job_meta stack_objects ''job'' \<lparr>ob_backend = stack_bucket, ob_steps = n\<rparr> =
    (\<lparr>ob_backend = stack_bucket, ob_steps = Suc n\<rparr>, Inr \<lparr>jm_code = ''job'', jm_iter_num = 1, jm_version = ''1''\<rparr>)"
  using stack_lists
  by (auto simp: obj_find_job_meta_def unless_cancelled_def bindS_def request_def simp del: stack_objects_fields(1))

lemma stack_reads:
  "cached_get_job stack_cache ''job'' (w_store stack_world) = (stack_after_read, Inr sample_reread)"
  "ob_backend (ca_inner stack_after_read) = stack_bucket"
  unfolding stack_after_read_def
  by (simp_all add: cached_get_job_def unless_stopped_def stack_cache_def cached_storage_new_def stack_world_def cold_read_def
      bindS_def inner_def object_storage_ops_def let_pool_run_def numeral_2_eq_2 stack_finds stack_by_meta replace_job_def)

lemma stack_writes:
  assumes "serialize_job stack_objects j = Inr body" and "version j = ''1''" "iter_num j = 1" "job_code j = ''job''"
    and "ob_backend s = stack_bucket"
  shows "\<exists>s'. obj_save_job stack_objects j s = (s', update_version (show_nat 2) j, Inr ())"
proof -
  let ?k = "build_job_iteration_path sample_paths ''job'' 1"
  have put: "be_put_object (os_store stack_objects) ?k body (MatchVersion ''1'') stack_bucket =
      (bk_write ?k body stack_bucket, Inr (show_nat 2))"
    using tag_of_2
    by (simp add: s3_evaluates s3_write_object_def s3_put_request_def stack_lookup s3_allows_def ANY_VERSION_def stack_bucket_def [THEN arg_cong [where f = bk_counter]] numeral_2_eq_2)
  show ?thesis
    using assms put
    by (auto simp: obj_save_job_def unless_cancelled_def retried_def retry_def retry_from.simps race_against_def no_race_def
        write_attempt_def request_def write_condition_def simp del: stack_objects_fields(1))
qed

lemma stack_saves:
  assumes "serialize_job stack_objects j = Inr body" and "version j = ''1''" "iter_num j = 1" "job_code j = ''job''"
    and "ob_backend (ca_inner (w_store w)) = stack_bucket"
  shows "\<exists>w' j'. save_job_state stack_worker stack_inputs handler j w = (w', Inr (j', Saved))"
proof -
  let ?s = "w_store w"
  obtain s' where "obj_save_job stack_objects j (ca_inner ?s) = (s', update_version (show_nat 2) j, Inr ())"
    using stack_writes [OF assms(1-5)] by blast
  then show ?thesis
    by (simp add: save_job_state_def retry_def retry_from.simps save_attempt_def stack_worker_def stack_inputs_def
        not_cancelled_def tick_def cached_storage_ops_def cached_save_job_def stack_cache_def cached_storage_new_def let_pool_run_def
        Let_def object_storage_ops_def)
qed

lemma stack_serializes:
  "serialize_job stack_objects sample_start_saved = Inr ''job@started''"
  "\<exists>body. serialize_job stack_objects sample_result = Inr body"
  by (simp_all add: serialize_job_def stack_codec_fields stack_encode_def)

lemma stack_worker_storage: "wk_storage stack_worker = cached_storage_ops stack_cache" "wk_id stack_worker = 7"
  by (simp_all add: stack_worker_def)

theorem stack_start_written_witness:
  "\<exists>w' s left body. worker_start_task stack_worker stack_inputs ''job'' stack_world = (w', TsStarted s left) \<and>
     bk_lookup (ob_backend (ca_inner (w_store w'))) (build_job_iteration_path sample_paths (job_code (started_job s)) (iter_num (started_job s))) =
       Some (version (started_job s), body)"
proof -
  have saves: "\<exists>w' j'. save_job_state stack_worker stack_inputs (picked_handler stack_worker stack_inputs 10 ''job'' ''task'') sample_start_saved w2 =
      (w', Inr (j', Saved))" if "w_store w2 = stack_after_read" for w2
    by (rule stack_saves [OF stack_serializes(1) sample_start_run(2-4)]) (simp add: that stack_reads)
  have "\<exists>w' s left. worker_start_task stack_worker stack_inputs ''job'' stack_world = (w', TsStarted s left)"
    by (rule sample_start_flow [where W = stack_worker and inp = stack_inputs and w = stack_world, OF _ _ _ _ saves])
      (use stack_reads in \<open>simp_all add: stack_worker_storage stack_inputs_def cached_storage_ops_def\<close>)
  then obtain w' s left where r: "worker_start_task stack_worker stack_inputs ''job'' stack_world = (w', TsStarted s left)" by blast
  note written = stack_start_written [OF stack_provider stack_codec_built stack_serde_ok _ stack_inner _ stack_worker_storage(1) stack_start r]
  show ?thesis
    by (rule conjE [OF written], erule (1) stack_rely, erule stack_pool) (use r in auto)
qed

theorem stack_result_written_witness:
  "\<exists>w' j' body. save_processed_task stack_worker stack_inputs 10
      (processed_handler stack_worker stack_inputs 10 ''job'' ''task'' ''save_failed_task'') sample_result stack_world = (w', Inr (j', Saved)) \<and>
     task_at j' 10 = Some (sample_failed\<lparr>task_id := 10\<rparr>) \<and>
     bk_lookup (ob_backend (ca_inner (w_store w'))) (build_job_iteration_path sample_paths (job_code j') (iter_num j')) =
       Some (version j', body)"
proof -
  have b: "ob_backend (ca_inner (w_store stack_world)) = stack_bucket" by (simp add: stack_world_def)
  obtain body where "serialize_job stack_objects sample_result = Inr body" using stack_serializes(2) by blast
  from stack_saves [OF this sample_result_meta b] obtain w' j' where r: "save_processed_task stack_worker stack_inputs 10
      (processed_handler stack_worker stack_inputs 10 ''job'' ''task'' ''save_failed_task'') sample_result stack_world = (w', Inr (j', Saved))"
    by (rule save_processed_Saved)
  have own: "processing_by_worker (sample_failed\<lparr>task_id := 10\<rparr>) = Some (wk_id stack_worker)"
    using sample_result_task(2) by (simp add: sample_worker_def stack_worker_def)
  note written = stack_result_written [OF stack_provider stack_codec_built stack_serde_ok _ stack_inner _ stack_worker_storage(1) stack_start
      sample_result_keys sample_result_task(1) own sample_result_task(3) r]
  show ?thesis
    by (rule conjE [OF written], erule (1) stack_rely, erule stack_pool) (use r in auto)
qed

end
