(* ===== verification/Spec2Isabelle.thy ===== *)
theory Spec2Isabelle
  imports JM_Prelude JM_Types JM_Errors JM_Retrier JM_Task JM_Task_Props JM_Cycle JM_Definition JM_Job
    JM_Job_Wf JM_Cascade JM_Settle JM_Job_Props JM_State JM_Storage JM_Registry JM_Paths JM_Outcome
    JM_Scheduler JM_Scheduler_Props JM_Handle JM_Shared JM_Worker JM_Worker_Props
    JM_Backend JM_Object JM_Object_Props JM_Cleaner JM_Bucket JM_Cached JM_Cached_Props JM_Cached_Memory
    JM_Pool JM_Manager JM_Builder
    JM_Provider_Errors JM_Provider JM_S3 JM_Azure_Signing JM_Azure JM_Gcs_Client JM_Gcs
    JM_Metrics JM_Worker_Metrics JM_Life JM_Quota JM_Cached_Worker JM_Worker_Objects JM_Stack
begin

text \<open>
  A verification library for the job manager: jobs described as graphs of tasks, run in iterations by pools of
  workers that share nothing but a storage with conditional writes.

  \<^bold>\<open>The program.\<close> A job description (\<^verbatim>\<open>core/job.rs\<close>, \<^verbatim>\<open>core/task.rs\<close>) names tasks, their dependencies, their timeouts and
  attempts and the executors that run them. A job iteration is the state of one run of it: a map of tasks, each
  with a status, an owner and deadlines. A pool (\<^verbatim>\<open>execution/worker_pool.rs\<close>) polls its jobs by a schedule
  (\<^verbatim>\<open>execution/scheduler.rs\<close>); a worker (\<^verbatim>\<open>execution/worker.rs\<close>) reads a job, picks a task, marks it as its own by a
  conditional save, runs its executor, which reaches the job through a handle only (\<^verbatim>\<open>execution/job_handle.rs\<close>), and
  saves the result, merging it over what other workers saved meanwhile. When no task can run any more the
  iteration is settled and, when it is due, the next one is opened. The state is kept in memory or as
  one object per iteration in a bucket (\<^verbatim>\<open>storage/object_storage.rs\<close>) of one of three providers, behind a
  cache (\<^verbatim>\<open>storage/cached.rs\<close>); a cleaner (\<^verbatim>\<open>execution/job_cleaner.rs\<close>) deletes iterations that fell out of
  retention. A builder (\<^verbatim>\<open>execution/builder.rs\<close>) checks settings and assembles a pool, and a manager
  (\<^verbatim>\<open>execution/jobs_manager.rs\<close>) runs it and lets callers wait for an iteration to end.

  \<^bold>\<open>The theories.\<close> One group per component; operations keep the names of the source, with a prefix where several
  components have one of the same name.

  \<^item> \<^verbatim>\<open>JM_Prelude\<close>, \<^verbatim>\<open>JM_Types\<close>, \<^verbatim>\<open>JM_Errors\<close>: base types, state and error passing (\<open>sresult\<close>, \<open>bindS\<close>, \<open>forS\<close>), decimal printing,
    association lists in place of the source's maps; the shared enumerations; \<^verbatim>\<open>core/error.rs\<close> and the errors of
    \<^verbatim>\<open>storage/mod.rs\<close>. \<^verbatim>\<open>JM_Retrier\<close>: \<^verbatim>\<open>infra/retrier.rs\<close>.
  \<^item> \<^verbatim>\<open>JM_Task\<close>, \<^verbatim>\<open>JM_Task_Props\<close>: \<^verbatim>\<open>core/task.rs\<close>. A task as a record and every transition of it; attempts are bounded, the
    lifetime is absolute, terminal states are final.
  \<^item> \<^verbatim>\<open>JM_Cycle\<close>, \<^verbatim>\<open>JM_Definition\<close>: \<^verbatim>\<open>JobDefinition\<close>. The iterative depth-first search answers exactly the cyclic graphs, and a
    description is accepted exactly under its documented conditions.
  \<^item> \<^verbatim>\<open>JM_Job\<close> with \<^verbatim>\<open>JM_Job_Wf\<close>, \<^verbatim>\<open>JM_Cascade\<close>, \<^verbatim>\<open>JM_Settle\<close>, \<^verbatim>\<open>JM_Job_Props\<close>: \<^verbatim>\<open>Job\<close>. The record of an iteration and every operation; the
    invariant \<open>job_wf\<close> and that every operation keeps it; the cascade against the least set of unreachable tasks;
    settling and picking; ownership, rollback, merging and the next iteration. \<^verbatim>\<open>JM_Life\<close>: all that happens to a job from its
    creation over executions, storing and reading to its next iterations, as an inductive relation that stays
    within \<open>job_wf\<close>; the merges of two states are outside of it and keep what holds of each task by itself (\<open>tasks_ok\<close>).
  \<^item> \<^verbatim>\<open>JM_Metrics\<close>, \<^verbatim>\<open>JM_Worker_Metrics\<close>: \<^verbatim>\<open>infra/metrics.rs\<close>, \<^verbatim>\<open>infra/metrics_otel.rs\<close>. The measurements as values, listed by whoever makes
    them: worker, cache, request. No two leave the same point in a sink, a processed task and a closed iteration are
    measured once and only when stored, a read through the cache is one hit or one miss.
  \<^item> \<^verbatim>\<open>JM_State\<close>, \<^verbatim>\<open>JM_Paths\<close>: \<^verbatim>\<open>storage/state.rs\<close> and \<^verbatim>\<open>storage/paths.rs\<close>. Stored and read back, a job is the one saved up to whole
    milliseconds; keys are read back and sort the newest iteration first.
  \<^item> \<^verbatim>\<open>JM_Storage\<close>, \<^verbatim>\<open>JM_Registry\<close>: the contract of \<^verbatim>\<open>Storage\<close> as a locale with \<^verbatim>\<open>storage/in_memory.rs\<close> as its interpretation;
    \<^verbatim>\<open>core/registry.rs\<close>.
  \<^item> \<^verbatim>\<open>JM_Outcome\<close>, \<^verbatim>\<open>JM_Scheduler\<close>, \<^verbatim>\<open>JM_Scheduler_Props\<close>: \<^verbatim>\<open>execution/outcome.rs\<close>, \<^verbatim>\<open>execution/scheduler.rs\<close>. The schedule keeps its
    queue in step with its jobs, hands a job out once, and polls within its bounds.
  \<^item> \<^verbatim>\<open>JM_Handle\<close>, \<^verbatim>\<open>JM_Shared\<close>, \<^verbatim>\<open>JM_Worker\<close>, \<^verbatim>\<open>JM_Worker_Props\<close>: \<^verbatim>\<open>execution/job_handle.rs\<close>, \<^verbatim>\<open>execution/executor.rs\<close>, \<^verbatim>\<open>execution/worker.rs\<close>. An executor
    is a program of handle calls; the storage is shared with other workers, whose saves are an input of each
    request; what a worker reports as started or saved is what the storage holds.
  \<^item> \<^verbatim>\<open>JM_Backend\<close>, \<^verbatim>\<open>JM_Object\<close>, \<^verbatim>\<open>JM_Object_Props\<close>, \<^verbatim>\<open>JM_Cleaner\<close>, \<^verbatim>\<open>JM_Bucket\<close>: \<^verbatim>\<open>storage/backend.rs\<close>, \<^verbatim>\<open>storage/object_storage.rs\<close>,
    \<^verbatim>\<open>execution/job_cleaner.rs\<close>. The contract of an object store is the locale \<open>object_store\<close>; over it a save is conditional,
    the newest iteration is found and the cleaner never takes it away. \<^verbatim>\<open>JM_Bucket\<close> is a bucket other
    instances write to, which keeps the contract. \<^verbatim>\<open>JM_Quota\<close>: how many requests a call makes at most, counted by
    a provider that answers like the one it wraps, and that a request is recorded once exactly when it was sent.
  \<^item> \<^verbatim>\<open>JM_Cached\<close>, \<^verbatim>\<open>JM_Cached_Props\<close>, \<^verbatim>\<open>JM_Cached_Memory\<close>: \<^verbatim>\<open>storage/cached.rs\<close>. What the cache relies on is a locale; a job read
    through it is one the storage held at a moment of the call.
  \<^item> \<^verbatim>\<open>JM_Cached_Worker\<close>, \<^verbatim>\<open>JM_Worker_Objects\<close>, \<^verbatim>\<open>JM_Stack\<close>: the layers put together. \<^verbatim>\<open>JM_Shared\<close> states what a worker needs of its
    storage (\<open>worker_storage\<close>) and what it needs of one that is put behind a cache (\<open>cacheable_storage\<close>); the cache gives the first
    from the second, the object storage gives the second from \<open>object_store\<close>, and each provider gives that. So what a worker
    reports as started or saved is what the service holds under the key of the iteration.
  \<^item> \<^verbatim>\<open>JM_Pool\<close>, \<^verbatim>\<open>JM_Manager\<close>, \<^verbatim>\<open>JM_Builder\<close>: \<^verbatim>\<open>execution/worker_pool.rs\<close>, \<^verbatim>\<open>execution/jobs_manager.rs\<close>, \<^verbatim>\<open>execution/builder.rs\<close>. The pool as a step
    relation, its books and its end; waits that miss no report; shutdown and abort; what is built and that it starts.
  \<^item> \<^verbatim>\<open>JM_Provider_Errors\<close>, \<^verbatim>\<open>JM_Provider\<close>, \<^verbatim>\<open>JM_S3\<close>, \<^verbatim>\<open>JM_Azure\<close>, \<^verbatim>\<open>JM_Azure_Signing\<close>, \<^verbatim>\<open>JM_Gcs_Client\<close>, \<^verbatim>\<open>JM_Gcs\<close>: \<^verbatim>\<open>storage/http_error.rs\<close> and the
    errors, settings, start-up checks, requests and clients of the three providers. From what a service documents of
    its conditional requests (\<open>s3_service\<close>, \<open>azure_service\<close>, \<open>gcs_service\<close>) through \<open>provider_requests\<close> to \<open>object_store\<close>: each
    backend keeps the contract the storage of jobs rests on. The requests of the JSON API are read back as they
    were made, and the signature of Azure covers the condition of a request and no order of its parts.

  \<^bold>\<open>Conventions.\<close> A moment and a signed span of time are integers, a duration a natural number, of nanoseconds;
  identifiers are natural numbers; numbers of iterations are 64-bit words, which wrap where the source wraps, and
  a text is the list of its bytes. Functions of third-party crates on times are the record \<open>externs\<close>, with
  what is used of them in \<open>externs_ok\<close>. What the program cannot decide is an input: readings of the clock and
  minted identifiers (\<open>clock\<close>, \<open>call_input\<close>), whether the token is cancelled at a step, what other workers and instances
  did before a request took effect (\<open>moved\<close>, \<open>bk_others\<close>), what came between a request and its answer (\<open>request_race\<close>), and
  which of several tasks in flight ends first. Clients of the vendors, parsers of JSON, codecs, hashes and the
  configuration the SDK loads are parameters. A message of an error may leave out identifiers the source
  prints into it where nothing reads it.

  \<^bold>\<open>Bounds and loops.\<close> The retrier counts its attempts, and every loop over tasks, batches or pages recurses on data with
  a proved measure. A listing is followed over at most \<open>os_pages\<close> pages, a field of the storage: any number is
  allowed, and a cleanup that sees fewer pages deletes less. The cascade recurses on the blocked tasks left, the
  search for a cycle on the edges left, the start of tasks on the free workers, and a stopped pool on its
  tasks in flight.

  \<^bold>\<open>Not modelled.\<close> Spans and logs, which no state depends on; the sink a builder hands to a pool, of which the measurements
  listed are the input; accessors of fields and the conversions of the two code types, which are the fields and
  texts themselves; the encodings of \<^verbatim>\<open>serde_json\<close> and \<^verbatim>\<open>ciborium\<close> behind the codecs, of which only that they read back what they
  wrote is used; the delivery of signals and sleeping, which belong to the runtime; the clients of the SDKs, the
  HTTP client, the credentials and the hashes themselves. The tests under \<^verbatim>\<open>src/tests\<close> are no part of the program.
\<close>

end
